(* ===== verification/Prelude.thy ===== *)
theory Prelude
  imports Complex_Main
begin

text \<open>
  Shared vocabulary of the development: the names of the model's basic types, the
  collections that carry the automation, and the generic lemmas on lists and options
  that more than one component uses.

  Go strings and byte slices are both sequences of bytes; Isabelle's \<open>string\<close> is a list
  of \<open>char\<close>, each of which is one byte, so \<open>string\<close> is used for both and the
  conversions \<open>[]byte(s)\<close> and \<open>string(b)\<close> of the source are the identity.  An instant
  (\<open>time.Time\<close>) is an \<open>int\<close>: nanoseconds since Go's zero time, so that \<open>IsZero\<close> is
  \<open>t = 0\<close>; a \<open>time.Duration\<close> is an \<open>int\<close> of nanoseconds.
\<close>

type_synonym gotime = int
type_synonym duration = int

definition nanosecond :: duration where "nanosecond = 1"
definition microsecond :: duration where "microsecond = 1000"
definition millisecond :: duration where "millisecond = 1000000"
definition second :: duration where "second = 1000000000"

abbreviation minute :: duration where "minute \<equiv> 60 * second"
abbreviation hour :: duration where "hour \<equiv> 3600 * second"

text \<open>
  \<open>time_units\<close> collects the durations as numbers, \<open>inv_intros\<close> the preservation lemmas of the
  invariants.
\<close>

named_theorems time_units "the duration constants as numbers"
named_theorems inv_intros "preservation of the components' invariants"

lemmas [time_units] = nanosecond_def microsecond_def millisecond_def second_def

lemma time_units_pos [simp]:
  "0 < nanosecond" "0 < microsecond" "0 < millisecond" "0 < second"
  by (simp_all add: time_units)

section \<open>Text\<close>

text \<open>A line break, and the dash that separates the parts of a message, in UTF-8.\<close>

definition nl :: string where "nl = [CHR 0x0A]"
definition em_dash :: string where "em_dash = [CHR 0x20, CHR 0xE2, CHR 0x80, CHR 0x94, CHR 0x20]"

section \<open>Lists\<close>

lemma take_drop_split: "take n xs @ drop n xs = xs"
  by simp

lemma filter_snoc: "filter P (xs @ [x]) = filter P xs @ (if P x then [x] else [])"
  by simp

lemma last_filter_in: "filter P xs \<noteq> [] \<Longrightarrow> P (last (filter P xs))"
  using last_in_set [of "filter P xs"] by simp

lemma distinct_snoc [simp]: "distinct (xs @ [x]) \<longleftrightarrow> distinct xs \<and> x \<notin> set xs"
  by auto

lemma length_le_capped:
  assumes "length xs \<le> n"
  shows "length (if length xs < n then xs @ [x] else xs) \<le> n"
  using assms by auto

section \<open>Maps\<close>

lemma map_upd_eq_Some:
  "(m(k \<mapsto> v)) k' = Some w \<longleftrightarrow> (k' = k \<and> w = v) \<or> (k' \<noteq> k \<and> m k' = Some w)"
  by auto

lemma map_del_eq_Some:
  "(m(k := None)) k' = Some w \<longleftrightarrow> k' \<noteq> k \<and> m k' = Some w"
  by auto

end
