(* ===== verification/Go_Time.thy ===== *)
theory Go_Time
  imports Go_Strings "HOL-Library.Monad_Syntax"
begin

text \<open>
  The civil calendar of Go's \<open>time\<close> package and the RFC 3339 layout, as far as the program
  uses them: \<open>time.Parse(time.RFC3339, s)\<close> and \<open>t.UTC().Format(time.RFC3339)\<close>.  Instants are
  nanoseconds since 1 January of year 1; the program stores and compares them as text, so
  the theory ends with the two facts that makes sound: the formatted text of an instant of
  the years 0 to 9999 is read back, and the order of two such texts, byte by byte, is the
  order of the instants.
\<close>

section \<open>The calendar\<close>

definition leap_day :: "int \<Rightarrow> int" where
  "leap_day y = (if y mod 4 = 0 \<and> (y mod 100 \<noteq> 0 \<or> y mod 400 = 0) then 1 else 0)"

definition days_before_year :: "int \<Rightarrow> int" where
  "days_before_year y = 365 * (y - 1) + (y - 1) div 4 - (y - 1) div 100 + (y - 1) div 400"

definition daysIn :: "nat \<Rightarrow> int \<Rightarrow> int" where
  "daysIn m y = (if m = 2 then 28 + leap_day y else if m = 4 \<or> m = 6 \<or> m = 9 \<or> m = 11 then 30 else 31)"

fun days_before_month :: "nat \<Rightarrow> int \<Rightarrow> int" where
  "days_before_month 0 y = 0"
| "days_before_month (Suc m) y = (if m = 0 then 0 else days_before_month m y + daysIn m y)"

record civil =
  c_year :: int
  c_month :: nat
  c_day :: nat
  c_hour :: nat
  c_min :: nat
  c_sec :: nat

definition civil_ok :: "civil \<Rightarrow> bool" where
  "civil_ok c \<longleftrightarrow>
     1 \<le> c_month c \<and> c_month c \<le> 12 \<and> 1 \<le> c_day c \<and> int (c_day c) \<le> daysIn (c_month c) (c_year c) \<and>
     c_hour c < 24 \<and> c_min c < 60 \<and> c_sec c < 60"

definition day_number :: "civil \<Rightarrow> int" where
  "day_number c = days_before_year (c_year c) + days_before_month (c_month c) (c_year c) + int (c_day c) - 1"

definition second_of_day :: "civil \<Rightarrow> int" where
  "second_of_day c = int (c_hour c) * 3600 + int (c_min c) * 60 + int (c_sec c)"

definition civil_secs :: "civil \<Rightarrow> int" where
  "civil_secs c = day_number c * 86400 + second_of_day c"

text \<open>The inverse: an estimate of the year that is off by at most one, then the months in turn.\<close>

definition year_of_day :: "int \<Rightarrow> int" where
  "year_of_day d =
     (let y = (400 * d) div 146097 + 1
      in if d < days_before_year y then y - 1 else if days_before_year (y + 1) \<le> d then y + 1 else y)"

function month_from :: "int \<Rightarrow> nat \<Rightarrow> int \<Rightarrow> nat \<times> int" where
  "month_from y m r =
     (if 12 \<le> m \<or> r < daysIn m y then (m, r) else month_from y (Suc m) (r - daysIn m y))"
  by pat_completeness auto
termination
  by (relation "measure (\<lambda>(y, m, r). 12 - m)") auto

declare month_from.simps [simp del]

definition civil_of :: "int \<Rightarrow> civil" where
  "civil_of t =
     (let d = t div 86400; s = t mod 86400; y = year_of_day d;
          (m, r) = month_from y 1 (d - days_before_year y)
      in \<lparr>c_year = y, c_month = m, c_day = nat (r + 1), c_hour = nat (s div 3600),
          c_min = nat (s mod 3600 div 60), c_sec = nat (s mod 60)\<rparr>)"

lemma leap_day_bounds: "0 \<le> leap_day y" "leap_day y \<le> 1"
  by (simp_all add: leap_day_def)

lemma gregorian_rule:
  "(R \<Longrightarrow> Q) \<Longrightarrow> (Q \<Longrightarrow> P) \<Longrightarrow>
   (if P \<and> (\<not> Q \<or> R) then 1 else 0) =
     (if P then 1 else 0) - (if Q then 1 else 0) + (if R then 1 else (0 :: int))"
  by (cases P; cases Q; cases R) simp_all

lemma leap_day_div:
  "leap_day y = y div 4 - (y - 1) div 4 - (y div 100 - (y - 1) div 100) + (y div 400 - (y - 1) div 400)"
proof -
  have step: "y div n - (y - 1) div n = (if y mod n = 0 then 1 else 0)" if "0 < n" for n :: int
  proof -
    have "(y - 1) div n = (if y mod n = 0 then y div n - 1 else y div n)"
    proof (cases "y mod n = 0")
      case True
      then have "y - 1 = n * (y div n - 1) + (n - 1)"
        using mult_div_mod_eq [of n y] by (simp add: right_diff_distrib)
      then have "(y - 1) div n = y div n - 1" by (rule int_div_pos_eq) (use that in simp_all)
      then show ?thesis using True by simp
    next
      case False
      with that have r: "0 \<le> y mod n - 1" "y mod n - 1 < n"
        using pos_mod_bound [OF that, of y] pos_mod_sign [OF that, of y] by linarith+
      have "y - 1 = n * (y div n) + (y mod n - 1)" by simp
      then have "(y - 1) div n = y div n" by (rule int_div_pos_eq) (use r in simp_all)
      then show ?thesis using False by simp
    qed
    then show ?thesis by simp
  qed
  have "y mod 400 = 0 \<Longrightarrow> y mod 100 = 0" "y mod 100 = 0 \<Longrightarrow> y mod 4 = 0"
    using dvd_trans [of 100 400 y] dvd_trans [of 4 100 y] by (simp_all add: mod_eq_0_iff_dvd)
  from gregorian_rule [OF this] show ?thesis
    by (simp only: leap_day_def step [of 4] step [of 100] step [of 400] zero_less_numeral)
qed

lemma days_before_year_Suc: "days_before_year (y + 1) = days_before_year y + 365 + leap_day y"
  by (simp add: days_before_year_def leap_day_div)

lemma div_bounds: "0 < k \<Longrightarrow> n - k < k * (n div k) \<and> k * (n div k) \<le> (n :: int)"
  using mult_div_mod_eq [of k n] pos_mod_bound [of k n] pos_mod_sign [of k n] by linarith

lemma days_before_year_bounds:
  "146097 * (y - 1) - 800 \<le> 400 * days_before_year y"
  "400 * days_before_year y \<le> 146097 * (y - 1) + 400"
proof -
  define a b c where "a = (y - 1) div 4" and "b = (y - 1) div 100" and "c = (y - 1) div 400"
  have "y - 1 - 4 < 4 * a" "4 * a \<le> y - 1"
    using div_bounds [of 4 "y - 1"] by (simp_all add: a_def)
  moreover have "y - 1 - 100 < 100 * b" "100 * b \<le> y - 1"
    using div_bounds [of 100 "y - 1"] by (simp_all add: b_def)
  moreover have "y - 1 - 400 < 400 * c" "400 * c \<le> y - 1"
    using div_bounds [of 400 "y - 1"] by (simp_all add: c_def)
  moreover have "days_before_year y = 365 * (y - 1) + a - b + c"
    by (simp add: days_before_year_def a_def b_def c_def)
  ultimately show "146097 * (y - 1) - 800 \<le> 400 * days_before_year y"
    "400 * days_before_year y \<le> 146097 * (y - 1) + 400" by simp_all
qed

lemma days_before_year_mono: "y \<le> z \<Longrightarrow> days_before_year y \<le> days_before_year z"
proof (induction z rule: int_ge_induct)
  case (step z)
  then show ?case using days_before_year_Suc [of z] leap_day_bounds [of z] by simp
qed simp

lemma year_of_day:
  "days_before_year (year_of_day d) \<le> d" "d < days_before_year (year_of_day d + 1)"
proof -
  define y where "y = (400 * d) div 146097 + 1"
  have est: "146097 * (y - 1) \<le> 400 * d" "400 * d < 146097 * y"
    using div_bounds [of 146097 "400 * d"] unfolding y_def by simp_all
  have lo: "days_before_year (y - 1) \<le> d"
    using days_before_year_bounds(2) [of "y - 1"] est by simp
  have hi: "d < days_before_year (y + 2)"
    using days_before_year_bounds(1) [of "y + 2"] est by simp
  have year: "year_of_day d =
      (if d < days_before_year y then y - 1 else if days_before_year (y + 1) \<le> d then y + 1 else y)"
    by (simp only: year_of_day_def Let_def y_def)
  show "days_before_year (year_of_day d) \<le> d" "d < days_before_year (year_of_day d + 1)"
    using lo hi unfolding year by (simp_all add: add.commute)
qed

lemma days_before_month_end: "days_before_month 13 y = 365 + leap_day y"
  by (simp add: eval_nat_numeral daysIn_def)

lemma daysIn_bounds: "28 \<le> daysIn m y" "daysIn m y \<le> 31"
  using leap_day_bounds [of y] by (auto simp: daysIn_def)

lemma days_before_month_mono:
  "1 \<le> m \<Longrightarrow> m < n \<Longrightarrow> days_before_month m y + daysIn m y \<le> days_before_month n y"
proof (induction n)
  case (Suc n)
  then show ?case using daysIn_bounds(1) [of n y] by (cases "m = n") auto
qed simp

lemma month_from:
  assumes "1 \<le> m" "m \<le> 12" "0 \<le> r" "days_before_month m y + r < 365 + leap_day y"
    and "month_from y m r = (m', r')"
  shows "1 \<le> m' \<and> m' \<le> 12 \<and> 0 \<le> r' \<and> r' < daysIn m' y \<and>
    days_before_month m' y + r' = days_before_month m y + r"
  using assms
proof (induction y m r arbitrary: m' r' rule: month_from.induct)
  case (1 y m r)
  note prems = 1(2-)
  show ?case
  proof (cases "12 \<le> m \<or> r < daysIn m y")
    case True
    have eqs: "m' = m" "r' = r" using True prems(5) by (simp_all add: month_from.simps [of y m r])
    have "r < daysIn m y"
    proof (cases "m = 12")
      case True
      then show ?thesis using prems(4) days_before_month_end [of y] by (simp add: eval_nat_numeral)
    next
      case False
      then show ?thesis using \<open>12 \<le> m \<or> r < daysIn m y\<close> prems(2) by simp
    qed
    with eqs prems show ?thesis by simp
  next
    case False
    then have "month_from y (Suc m) (r - daysIn m y) = (m', r')"
      using prems(5) by (simp add: month_from.simps [of y m r])
    with False prems have "1 \<le> m' \<and> m' \<le> 12 \<and> 0 \<le> r' \<and> r' < daysIn m' y \<and>
        days_before_month m' y + r' = days_before_month (Suc m) y + (r - daysIn m y)"
      by (intro 1(1)) simp_all
    with prems(1) show ?thesis by simp
  qed
qed

lemma clock_fields:
  assumes "0 \<le> s" "s < (86400 :: int)"
  obtains h m r where "s div 3600 = h" "s mod 3600 div 60 = m" "s mod 60 = r"
    "0 \<le> h" "h < 24" "0 \<le> m" "m < 60" "0 \<le> r" "r < 60" "h * 3600 + m * 60 + r = s"
proof -
  have "s mod 60 = s mod 3600 mod 60" by (simp add: mod_mod_cancel)
  then have "s div 3600 * 3600 + s mod 3600 div 60 * 60 + s mod 60 = s"
    by (metis add.assoc div_mult_mod_eq)
  then show thesis
    using assms by (intro that [of "s div 3600" "s mod 3600 div 60" "s mod 60"])
      (simp_all add: pos_imp_zdiv_nonneg_iff div_less_iff_less_mult)
qed

lemma civil_of_ok: "civil_ok (civil_of t)" and civil_secs_of [simp]: "civil_secs (civil_of t) = t"
proof -
  define d y where "d = t div 86400" and "y = year_of_day d"
  define s where "s = t mod 86400"
  have "0 \<le> s" "s < 86400" by (simp_all add: s_def)
  then obtain h mi sc where clock: "s div 3600 = h" "s mod 3600 div 60 = mi" "s mod 60 = sc"
    and b: "0 \<le> h" "h < 24" "0 \<le> mi" "mi < 60" "0 \<le> sc" "sc < 60" "h * 3600 + mi * 60 + sc = s"
    by (rule clock_fields)
  obtain m r where mr: "month_from y 1 (d - days_before_year y) = (m, r)" by fastforce
  have c: "civil_of t = \<lparr>c_year = y, c_month = m, c_day = nat (r + 1), c_hour = nat h,
      c_min = nat mi, c_sec = nat sc\<rparr>"
    unfolding civil_of_def Let_def d_def [symmetric] y_def [symmetric] s_def [symmetric] clock mr
    by simp
  have yd: "days_before_year y \<le> d" "d < days_before_year y + 365 + leap_day y"
    using year_of_day [of d] by (simp_all add: y_def days_before_year_Suc)
  have m: "1 \<le> m \<and> m \<le> 12 \<and> 0 \<le> r \<and> r < daysIn m y \<and>
      days_before_month m y + r = days_before_month 1 y + (d - days_before_year y)"
    by (rule month_from [OF _ _ _ _ mr]) (use yd in simp_all)
  show "civil_ok (civil_of t)"
    using m b by (simp add: c civil_ok_def nat_less_iff Suc_le_eq)
  have "day_number (civil_of t) = d" using m by (simp add: c day_number_def)
  moreover have "second_of_day (civil_of t) = s" using b by (simp add: c second_of_day_def)
  ultimately show "civil_secs (civil_of t) = t" by (simp add: civil_secs_def d_def s_def)
qed

text \<open>The order of valid dates, field by field, is the order of the instants.\<close>

definition fields :: "civil \<Rightarrow> int list" where
  "fields c = [c_year c, int (c_month c), int (c_day c), int (c_hour c), int (c_min c), int (c_sec c)]"

fun lex_less :: "int list \<Rightarrow> int list \<Rightarrow> bool" where
  "lex_less (x # xs) (y # ys) \<longleftrightarrow> x < y \<or> x = y \<and> lex_less xs ys"
| "lex_less _ _ \<longleftrightarrow> False"

lemma day_in_year:
  assumes "civil_ok c"
  shows "days_before_year (c_year c) \<le> day_number c" "day_number c < days_before_year (c_year c + 1)"
proof -
  have "days_before_month (c_month c) (c_year c) + daysIn (c_month c) (c_year c) \<le> 365 + leap_day (c_year c)"
    using assms days_before_month_mono [of "c_month c" 13 "c_year c"] days_before_month_end [of "c_year c"]
    by (simp add: civil_ok_def)
  moreover have "0 \<le> days_before_month (c_month c) (c_year c)"
  proof (cases "c_month c = 1")
    case False
    then show ?thesis
      using assms days_before_month_mono [of 1 "c_month c" "c_year c"] daysIn_bounds(1) [of 1 "c_year c"]
      by (simp add: civil_ok_def)
  qed simp
  ultimately show "days_before_year (c_year c) \<le> day_number c" "day_number c < days_before_year (c_year c + 1)"
    using assms by (simp_all add: day_number_def civil_ok_def days_before_year_Suc)
qed

lemma day_number_lex:
  assumes "civil_ok c" "civil_ok c'"
    and "lex_less [c_year c, int (c_month c), int (c_day c)] [c_year c', int (c_month c'), int (c_day c')]"
  shows "day_number c < day_number c'"
proof -
  consider (year) "c_year c < c_year c'" | (month) "c_year c = c_year c'" "c_month c < c_month c'"
    | (day) "c_year c = c_year c'" "c_month c = c_month c'" "c_day c < c_day c'"
    using assms(3) by auto
  then show ?thesis
  proof cases
    case year
    then have "days_before_year (c_year c + 1) \<le> days_before_year (c_year c')"
      by (intro days_before_year_mono) simp
    then show ?thesis using day_in_year(2) [OF assms(1)] day_in_year(1) [OF assms(2)] by linarith
  next
    case month
    then show ?thesis
      using assms(1,2) days_before_month_mono [of "c_month c" "c_month c'" "c_year c'"]
      by (simp add: day_number_def civil_ok_def)
  qed (simp add: day_number_def)
qed

lemma second_of_day_bounds: "civil_ok c \<Longrightarrow> 0 \<le> second_of_day c \<and> second_of_day c < 86400"
  by (simp add: civil_ok_def second_of_day_def)

lemma civil_secs_lex_mono:
  assumes "civil_ok c" "civil_ok c'" "lex_less (fields c) (fields c')"
  shows "civil_secs c < civil_secs c'"
proof (cases "[c_year c, int (c_month c), int (c_day c)] = [c_year c', int (c_month c'), int (c_day c')]")
  case True
  then have "second_of_day c < second_of_day c'"
    using assms by (auto simp: fields_def second_of_day_def civil_ok_def)
  with True show ?thesis by (simp add: civil_secs_def day_number_def)
next
  case False
  then have "day_number c < day_number c'"
    using assms by (intro day_number_lex) (auto simp: fields_def)
  then show ?thesis
    using second_of_day_bounds [OF assms(1)] second_of_day_bounds [OF assms(2)] by (simp add: civil_secs_def)
qed

lemma lex_less_total: "length xs = length ys \<Longrightarrow> lex_less xs ys \<or> xs = ys \<or> lex_less ys xs"
  by (induction xs ys rule: list_induct2) auto

lemma fields_inject: "fields c = fields c' \<Longrightarrow> c = c'"
  by (cases c; cases c') (simp add: fields_def)

lemma civil_cases:
  assumes "civil_ok c" "civil_ok c'"
  obtains "lex_less (fields c) (fields c')" "civil_secs c < civil_secs c'"
  | "c = c'"
  | "lex_less (fields c') (fields c)" "civil_secs c' < civil_secs c"
proof -
  have "length (fields c) = length (fields c')" by (simp add: fields_def)
  from lex_less_total [OF this] show thesis
    using that fields_inject [of c c'] civil_secs_lex_mono [OF assms] civil_secs_lex_mono [OF assms(2,1)]
    by blast
qed

lemma lex_less_irrefl: "\<not> lex_less xs xs"
  by (induction xs) auto

lemma civil_secs_less_iff:
  assumes "civil_ok c" "civil_ok c'"
  shows "civil_secs c < civil_secs c' \<longleftrightarrow> lex_less (fields c) (fields c')"
  using assms
proof (cases rule: civil_cases)
  case 3
  then have "\<not> lex_less (fields c) (fields c')" using civil_secs_lex_mono [OF assms] by auto
  with 3 show ?thesis by simp
qed (simp_all add: lex_less_irrefl)

lemma civil_secs_inject:
  assumes "civil_ok c" "civil_ok c'" "civil_secs c = civil_secs c'"
  shows "c = c'"
  using assms(1,2) by (cases rule: civil_cases) (use assms(3) in simp_all)

lemma civil_of_secs: "civil_ok c \<Longrightarrow> civil_of (civil_secs c) = c"
  by (rule civil_secs_inject) (simp_all add: civil_of_ok)

section \<open>Durations as text\<close>

text \<open>
  \<open>Duration.String\<close>: hours, minutes and seconds, a fraction only where there is one; below a
  second the largest unit that gives a whole part.
\<close>

fun trim_zeros :: "nat \<Rightarrow> nat \<Rightarrow> nat \<times> nat" where
  "trim_zeros k v = (if k = 0 \<or> v mod 10 \<noteq> 0 then (k, v) else trim_zeros (k - 1) (v div 10))"

declare trim_zeros.simps [simp del]

definition fraction_text :: "nat \<Rightarrow> nat \<Rightarrow> string" where
  "fraction_text prec v =
     (let (k, w) = trim_zeros prec v; ds = dec_digits w
      in if k = 0 then [] else ''.'' @ replicate (k - length ds) (CHR ''0'') @ ds)"

definition duration_string :: "duration \<Rightarrow> string" where
  "duration_string d =
     (let u = nat \<bar>d\<bar>; sign = (if d < 0 then ''-'' else []);
          part = (\<lambda>unit prec. dec_digits (u div unit) @ fraction_text prec (u mod unit))
      in if u = 0 then ''0s''
         else if u < 1000 then sign @ dec_digits u @ ''ns''
         else if u < 1000000 then sign @ part 1000 3 @ [CHR 0xC2, CHR 0xB5, CHR ''s'']
         else if u < 1000000000 then sign @ part 1000000 6 @ ''ms''
         else
           (let secs = u div 1000000000; frac = fraction_text 9 (u mod 1000000000);
                h = secs div 3600; m = secs div 60 mod 60;
                s = dec_digits (secs mod 60) @ frac @ ''s''
            in sign @ (if 0 < h then dec_digits h @ ''h'' @ dec_digits m @ ''m'' @ s
                       else if 0 < m then dec_digits m @ ''m'' @ s else s)))"

lemma duration_string_examples:
  "duration_string (5 * minute) = ''5m0s''" "duration_string (90 * second + 500 * millisecond) = ''1m30.5s''"
  by (simp_all add: duration_string_def fraction_text_def time_units Let_def dec_digits.simps digit_char_def
      char_of_def trim_zeros.simps bit_0)

section \<open>Fixed-width decimals\<close>

fun fixed_digits :: "nat \<Rightarrow> nat \<Rightarrow> string" where
  "fixed_digits 0 n = []"
| "fixed_digits (Suc k) n = fixed_digits k (n div 10) @ [digit_char (n mod 10)]"

definition appendInt :: "nat \<Rightarrow> int \<Rightarrow> string" where
  "appendInt width x =
     (let u = nat \<bar>x\<bar>
      in (if x < 0 then ''-'' else []) @
         (if u < 10 ^ width then fixed_digits width u else dec_digits u))"

lemma length_fixed_digits [simp]: "length (fixed_digits k n) = k"
  by (induction k arbitrary: n) auto

text \<open>Byte order of text: \<open>memcmp\<close>, the shorter string first on a common prefix.\<close>

fun str_less :: "string \<Rightarrow> string \<Rightarrow> bool" where
  "str_less _ [] \<longleftrightarrow> False"
| "str_less [] (_ # _) \<longleftrightarrow> True"
| "str_less (a # s) (b # t) \<longleftrightarrow> (of_char a :: nat) < of_char b \<or> a = b \<and> str_less s t"

lemma str_less_append:
  "length a = length b \<Longrightarrow> str_less (a @ s) (b @ t) \<longleftrightarrow> str_less a b \<or> a = b \<and> str_less s t"
  by (induction a b rule: list_induct2) auto

lemma str_less_irrefl [simp]: "\<not> str_less s s"
  by (induction s) auto

lemma str_less_trans: "str_less a b \<Longrightarrow> str_less b c \<Longrightarrow> str_less a c"
proof (induction a b arbitrary: c rule: str_less.induct)
  case (2 y t)
  then show ?case by (cases c) auto
next
  case (3 x s y t)
  then show ?case by (cases c) auto
qed simp

lemma str_less_total: "str_less a b \<or> a = b \<or> str_less b a"
proof (induction a b rule: str_less.induct)
  case (1 a)
  then show ?case by (cases a) auto
next
  case (3 x s y t)
  have "x = y \<or> (of_char x :: nat) < of_char y \<or> (of_char y :: nat) < of_char x"
    by (metis linorder_neqE_nat of_char_eq_iff)
  with 3 show ?case by auto
qed simp

lemma of_digit_char: "d < 10 \<Longrightarrow> of_char (digit_char d) = (48 + d :: nat)"
  by (simp add: digit_char_def)

lemma div_mod_less: "(m :: nat) < n \<longleftrightarrow> m div 10 < n div 10 \<or> m div 10 = n div 10 \<and> m mod 10 < n mod 10"
proof -
  have "10 * a + r < 10 * b + s \<longleftrightarrow> a < b \<or> a = b \<and> r < s" if "r < 10" "s < 10" for a b r s :: nat
    using that by arith
  from this [of "m mod 10" "n mod 10" "m div 10" "n div 10"] show ?thesis by simp
qed

lemma fixed_digits_order:
  "m < 10 ^ k \<Longrightarrow> n < 10 ^ k \<Longrightarrow>
   (str_less (fixed_digits k m) (fixed_digits k n) \<longleftrightarrow> m < n) \<and>
   (fixed_digits k m = fixed_digits k n \<longleftrightarrow> m = n)"
proof (induction k arbitrary: m n)
  case (Suc k)
  then have "m div 10 < 10 ^ k" "n div 10 < 10 ^ k" by auto
  note IH = Suc.IH [OF this]
  have "m = n \<longleftrightarrow> m div 10 = n div 10 \<and> m mod 10 = n mod 10" by (metis div_mult_mod_eq)
  moreover have "str_less [digit_char (m mod 10)] [digit_char (n mod 10)] \<longleftrightarrow> m mod 10 < n mod 10"
    by (simp add: of_digit_char)
  ultimately show ?case
    using IH by (simp add: str_less_append digit_char_inj div_mod_less [of m n] del: str_less.simps)
qed simp

lemmas fixed_digits_less = fixed_digits_order [THEN conjunct1]
lemmas fixed_digits_inject = fixed_digits_order [THEN conjunct2]

lemma read_fixed_digits: "n < 10 ^ k \<Longrightarrow> read_digits 0 (fixed_digits k n) = Some n"
proof (induction k arbitrary: n)
  case (Suc k)
  then have "n div 10 < 10 ^ k" by auto
  then show ?case using Suc.IH [of "n div 10"] by (simp add: read_digits_append)
qed simp

section \<open>RFC 3339\<close>

definition format_rfc3339 :: "gotime \<Rightarrow> string" where
  "format_rfc3339 t =
     (let c = civil_of (t div second)
      in appendInt 4 (c_year c) @ ''-'' @ appendInt 2 (int (c_month c)) @ ''-'' @
         appendInt 2 (int (c_day c)) @ ''T'' @ appendInt 2 (int (c_hour c)) @ '':'' @
         appendInt 2 (int (c_min c)) @ '':'' @ appendInt 2 (int (c_sec c)) @ ''Z'')"

definition isDigit :: "char \<Rightarrow> bool" where "isDigit c \<longleftrightarrow> digit_value c \<noteq> None"

definition getnum :: "bool \<Rightarrow> string \<Rightarrow> (nat \<times> string) option" where
  "getnum fixed s =
     (case s of
        [] \<Rightarrow> None
      | a # r \<Rightarrow>
          (case digit_value a of
             None \<Rightarrow> None
           | Some x \<Rightarrow>
               (case r of
                  [] \<Rightarrow> if fixed then None else Some (x, r)
                | b # r' \<Rightarrow>
                    (case digit_value b of
                       None \<Rightarrow> if fixed then None else Some (x, r)
                     | Some y \<Rightarrow> Some (10 * x + y, r')))))"

definition skip :: "string \<Rightarrow> string \<Rightarrow> string option" where
  "skip p s = (if has_prefix p s then Some (drop (length p) s) else None)"

definition in_range :: "nat \<Rightarrow> nat \<Rightarrow> nat \<times> string \<Rightarrow> (nat \<times> string) option" where
  "in_range lo hi r = (if lo \<le> fst r \<and> fst r \<le> hi then Some r else None)"

definition parse_year :: "string \<Rightarrow> (nat \<times> string) option" where
  "parse_year s =
     (if length s < 4 then None
      else map_option (\<lambda>y. (y, drop 4 s)) (read_digits 0 (take 4 s)))"

text \<open>An optional fraction is accepted after the seconds, though the layout has none.\<close>

definition parse_fraction :: "string \<Rightarrow> nat \<times> string" where
  "parse_fraction s =
     (case s of
        c # d # _ \<Rightarrow>
          (if (c = CHR ''.'' \<or> c = CHR '','') \<and> isDigit d then
             (let ds = takeWhile isDigit (tl s); used = take 9 ds
              in (the (read_digits 0 used) * 10 ^ (9 - length used), drop (length ds) (tl s)))
           else (0, s))
      | _ \<Rightarrow> (0, s))"

definition parse_zone :: "string \<Rightarrow> (int \<times> string) option" where
  "parse_zone s =
     (if has_prefix ''Z'' s then Some (0, tl s)
      else if length s < 6 \<or> s ! 3 \<noteq> CHR '':'' then None
      else do {
        (hr, _) \<leftarrow> getnum True (take 2 (drop 1 s));
        (mm, _) \<leftarrow> getnum True (take 2 (drop 4 s));
        if hr > 24 \<or> mm > 60 then None
        else if s ! 0 = CHR ''+'' then Some ((int hr * 60 + int mm) * 60, drop 6 s)
        else if s ! 0 = CHR ''-'' then Some (- ((int hr * 60 + int mm) * 60), drop 6 s)
        else None
      })"

definition parse_rfc3339 :: "string \<Rightarrow> gotime option" where
  "parse_rfc3339 s = do {
     (y, s) \<leftarrow> parse_year s;
     s \<leftarrow> skip ''-'' s;
     (mo, s) \<leftarrow> Option.bind (getnum True s) (in_range 1 12);
     s \<leftarrow> skip ''-'' s;
     (d, s) \<leftarrow> getnum True s;
     s \<leftarrow> skip ''T'' s;
     (h, s) \<leftarrow> Option.bind (getnum False s) (in_range 0 23);
     s \<leftarrow> skip '':'' s;
     (mi, s) \<leftarrow> Option.bind (getnum True s) (in_range 0 59);
     s \<leftarrow> skip '':'' s;
     (sc, s) \<leftarrow> Option.bind (getnum True s) (in_range 0 59);
     let (ns, s) = parse_fraction s;
     (zone, s) \<leftarrow> parse_zone s;
     if s \<noteq> [] \<or> d < 1 \<or> daysIn mo (int y) < int d then None
     else Some ((civil_secs \<lparr>c_year = int y, c_month = mo, c_day = d, c_hour = h, c_min = mi, c_sec = sc\<rparr>
                   - zone) * second + int ns)
   }"

definition printable_time :: "gotime \<Rightarrow> bool" where
  "printable_time t \<longleftrightarrow> days_before_year 0 * 86400 \<le> t div second \<and> t div second < days_before_year 10000 * 86400"

lemma printable_year:
  assumes "printable_time t"
  shows "0 \<le> c_year (civil_of (t div second))" "c_year (civil_of (t div second)) < 10000"
proof -
  let ?c = "civil_of (t div second)"
  have ok: "civil_ok ?c" by (rule civil_of_ok)
  have eq: "civil_secs ?c = t div second" by simp
  note day = day_in_year [OF ok] second_of_day_bounds [OF ok]
  show "0 \<le> c_year ?c"
  proof (rule ccontr)
    assume "\<not> 0 \<le> c_year ?c"
    then have "days_before_year (c_year ?c + 1) \<le> days_before_year 0" by (intro days_before_year_mono) simp
    with day eq assms show False unfolding civil_secs_def printable_time_def by linarith
  qed
  show "c_year ?c < 10000"
  proof (rule ccontr)
    assume "\<not> c_year ?c < 10000"
    then have "days_before_year 10000 \<le> days_before_year (c_year ?c)" by (intro days_before_year_mono) simp
    with day eq assms show False unfolding civil_secs_def printable_time_def by linarith
  qed
qed

text \<open>The text as seven fixed fields, and its reading.\<close>

definition civil_text :: "civil \<Rightarrow> string" where
  "civil_text c =
     fixed_digits 4 (nat (c_year c)) @ ''-'' @ fixed_digits 2 (c_month c) @ ''-'' @
     fixed_digits 2 (c_day c) @ ''T'' @ fixed_digits 2 (c_hour c) @ '':'' @
     fixed_digits 2 (c_min c) @ '':'' @ fixed_digits 2 (c_sec c) @ ''Z''"

lemma civil_ok_small:
  assumes "civil_ok c"
  shows "c_month c < 100" "c_day c < 100" "c_hour c < 100" "c_min c < 100" "c_sec c < 100"
  using assms daysIn_bounds(2) [of "c_month c" "c_year c"] by (auto simp: civil_ok_def)

lemma format_printable:
  assumes "printable_time t"
  shows "format_rfc3339 t = civil_text (civil_of (t div second))"
  using printable_year [OF assms] civil_ok_small [OF civil_of_ok [of "t div second"]]
  by (simp add: format_rfc3339_def civil_text_def appendInt_def Let_def nat_less_iff)

lemma getnum_fixed: "n < 100 \<Longrightarrow> getnum fx (fixed_digits 2 n @ s) = Some (n, s)"
proof -
  assume "n < 100"
  then have "n div 10 < 10" by auto
  then show ?thesis by (simp add: numeral_2_eq_2 getnum_def)
qed

lemma parse_year_fixed: "n < 10000 \<Longrightarrow> parse_year (fixed_digits 4 n @ s) = Some (n, s)"
  using read_fixed_digits [of n 4] by (simp add: parse_year_def)

lemma skip_cons [simp]: "skip [c] (c # s) = Some s"
  by (simp add: skip_def has_prefix_def)

lemma parse_civil_text:
  assumes "civil_ok c" "0 \<le> c_year c" "c_year c < 10000"
  shows "parse_rfc3339 (civil_text c) = Some (civil_secs c * second)"
proof -
  have zone: "parse_fraction ''Z'' = (0, ''Z'')" "parse_zone ''Z'' = Some (0, [])"
    by (simp_all add: parse_fraction_def parse_zone_def has_prefix_def)
  have day: "\<not> daysIn (c_month c) (c_year c) < int (c_day c)" "\<not> c_day c < 1"
    and eta: "\<lparr>c_year = c_year c, c_month = c_month c, c_day = c_day c, c_hour = c_hour c,
        c_min = c_min c, c_sec = c_sec c\<rparr> = c"
    and rng: "1 \<le> c_month c" "c_month c \<le> 12" "c_hour c \<le> 23" "c_min c \<le> 59" "c_sec c \<le> 59"
    using assms by (simp_all add: civil_ok_def)
  show ?thesis
    unfolding parse_rfc3339_def civil_text_def
    using assms(2,3) civil_ok_small [OF assms(1)] day rng
    by (simp add: parse_year_fixed getnum_fixed in_range_def zone nat_less_iff eta)
qed

lemma parse_format:
  assumes "printable_time t"
  shows "parse_rfc3339 (format_rfc3339 t) = Some (t div second * second)"
  unfolding format_printable [OF assms]
  using parse_civil_text [OF civil_of_ok printable_year [OF assms]] by simp

lemma civil_text_less:
  assumes "civil_ok c" "0 \<le> c_year c" "c_year c < 10000" "civil_ok d" "0 \<le> c_year d" "c_year d < 10000"
  shows "str_less (civil_text c) (civil_text d) \<longleftrightarrow> lex_less (fields c) (fields d)"
proof -
  have y: "nat (c_year c) < 10 ^ 4" "nat (c_year d) < 10 ^ 4"
    "nat (c_year c) < nat (c_year d) \<longleftrightarrow> c_year c < c_year d" "nat (c_year c) = nat (c_year d) \<longleftrightarrow> c_year c = c_year d"
    using assms by auto
  note year = fixed_digits_less [OF y(1,2), unfolded y(3)] fixed_digits_inject [OF y(1,2), unfolded y(4)]
  show ?thesis
    unfolding civil_text_def fields_def
    using civil_ok_small [OF assms(1)] civil_ok_small [OF assms(4)]
    by (simp add: str_less_append fixed_digits_less fixed_digits_inject year)
qed

lemma format_less:
  assumes "printable_time t" "printable_time u"
  shows "str_less (format_rfc3339 t) (format_rfc3339 u) \<longleftrightarrow> t div second < u div second"
  unfolding format_printable [OF assms(1)] format_printable [OF assms(2)]
  using civil_text_less [OF civil_of_ok printable_year [OF assms(1)] civil_of_ok printable_year [OF assms(2)]]
    civil_secs_less_iff [OF civil_of_ok [of "t div second"] civil_of_ok [of "u div second"]]
  by simp

text \<open>Outside those years the formatted text cannot be read back.\<close>

lemma printable_iff_year:
  "printable_time t \<longleftrightarrow> 0 \<le> c_year (civil_of (t div second)) \<and> c_year (civil_of (t div second)) < 10000"
proof
  let ?c = "civil_of (t div second)"
  assume y: "0 \<le> c_year ?c \<and> c_year ?c < 10000"
  have ok: "civil_ok ?c" by (rule civil_of_ok)
  have eq: "civil_secs ?c = t div second" by simp
  have "days_before_year 0 \<le> days_before_year (c_year ?c)" using y by (intro days_before_year_mono) simp
  moreover have "days_before_year (c_year ?c + 1) \<le> days_before_year 10000"
    using y by (intro days_before_year_mono) simp
  ultimately show "printable_time t"
    using day_in_year [OF ok] second_of_day_bounds [OF ok] eq
    unfolding civil_secs_def printable_time_def by linarith
qed (simp add: printable_year)

lemma dec_digits_lower: "n < 10 ^ length (dec_digits n)"
proof (induction n rule: dec_digits.induct)
  case (1 n)
  then show ?case
    by (cases "n < 10") (simp_all add: dec_digits.simps [of n] div_less_iff_less_mult mult.commute)
qed

lemma parse_format_unprintable:
  assumes "\<not> printable_time t"
  shows "parse_rfc3339 (format_rfc3339 t) = None"
proof (cases "c_year (civil_of (t div second)) < 0")
  case True
  then obtain r where "format_rfc3339 t = CHR ''-'' # r" by (simp add: format_rfc3339_def appendInt_def Let_def)
  then show ?thesis by (simp add: parse_rfc3339_def parse_year_def)
next
  case False
  define y where "y = nat (c_year (civil_of (t div second)))"
  have y: "\<not> y < 10 ^ 4" "c_year (civil_of (t div second)) = int y"
    using assms False by (simp_all add: y_def printable_iff_year)
  then have "10 ^ 4 < (10 :: nat) ^ length (dec_digits y)"
    using dec_digits_lower [of y] by (meson le_less_trans not_less)
  then have len: "4 < length (dec_digits y)" by (rule power_less_imp_less_exp [rotated]) simp
  then obtain c r where c: "drop 4 (dec_digits y) = c # r" by (cases "drop 4 (dec_digits y)") auto
  then have "c \<in> set (dec_digits y)" using set_drop_subset [of 4 "dec_digits y"] by auto
  then have "c \<noteq> CHR ''-''" using dec_digits_are_digits [of c y] by auto
  obtain rest where f: "format_rfc3339 t = dec_digits y @ rest"
    unfolding format_rfc3339_def appendInt_def Let_def y(2) using y(1) by simp
  have "skip ''-'' (drop 4 (format_rfc3339 t)) = None"
    using c \<open>c \<noteq> CHR ''-''\<close> len by (simp add: f skip_def has_prefix_def)
  then show ?thesis by (cases "read_digits 0 (take 4 (format_rfc3339 t))") (auto simp: parse_rfc3339_def parse_year_def)
qed

section \<open>What an accepted text consists of\<close>

definition time_char :: "char \<Rightarrow> bool" where
  "time_char c \<longleftrightarrow> isDigit c \<or> c \<in> set ''-T:.,Z+''"

lemma read_digits_digits: "read_digits acc s = Some n \<Longrightarrow> list_all isDigit s"
  by (induction s arbitrary: acc) (auto simp: isDigit_def split: option.splits)

lemma digits_time_chars: "list_all isDigit s \<Longrightarrow> set s \<subseteq> Collect time_char"
  by (auto simp: list_all_iff time_char_def)

text \<open>Every step of the parser consumes only such characters.\<close>

lemma getnum_consumes:
  "getnum fx s = Some (n, r) \<Longrightarrow> set r \<subseteq> Collect time_char \<Longrightarrow> set s \<subseteq> Collect time_char"
  by (cases s; cases "tl s") (auto simp: getnum_def isDigit_def time_char_def split: option.splits if_splits)

lemma in_range_eq_Some: "in_range lo hi p = Some q \<longleftrightarrow> p = q \<and> lo \<le> fst q \<and> fst q \<le> hi"
  by (auto simp: in_range_def)

lemma parse_year_consumes:
  "parse_year s = Some (n, r) \<Longrightarrow> set r \<subseteq> Collect time_char \<Longrightarrow> set s \<subseteq> Collect time_char"
proof -
  assume "parse_year s = Some (n, r)" and sub: "set r \<subseteq> Collect time_char"
  then have "read_digits 0 (take 4 s) = Some n" "r = drop 4 s"
    by (auto simp: parse_year_def split: if_splits)
  then have "set (take 4 s) \<subseteq> Collect time_char" "set (drop 4 s) \<subseteq> Collect time_char"
    using digits_time_chars [OF read_digits_digits] sub by blast+
  then show ?thesis by (metis Un_least append_take_drop_id set_append)
qed

lemma skip_consumes:
  "skip p s = Some r \<Longrightarrow> set p \<subseteq> Collect time_char \<Longrightarrow> set r \<subseteq> Collect time_char \<Longrightarrow> set s \<subseteq> Collect time_char"
proof -
  assume "skip p s = Some r" and sub: "set p \<subseteq> Collect time_char" "set r \<subseteq> Collect time_char"
  then have "has_prefix p s" "r = drop (length p) s" by (simp_all add: skip_def split: if_splits)
  then have "s = p @ r" by (metis append_take_drop_id has_prefix_def)
  with sub show ?thesis by simp
qed

lemma parse_fraction_consumes:
  assumes "parse_fraction s = (n, r)" "set r \<subseteq> Collect time_char"
  shows "set s \<subseteq> Collect time_char"
proof (cases "r = s")
  case False
  with assms(1) obtain c d t where s: "s = c # d # t" "c = CHR ''.'' \<or> c = CHR '',''"
    and r: "r = drop (length (takeWhile isDigit (d # t))) (d # t)"
    by (auto simp: parse_fraction_def Let_def split: list.splits if_splits)
  have "d # t = takeWhile isDigit (d # t) @ r" unfolding r dropWhile_eq_drop [symmetric] by simp
  moreover have "set (takeWhile isDigit (d # t)) \<subseteq> Collect time_char"
    by (auto simp: time_char_def dest: set_takeWhileD)
  ultimately have "set (d # t) \<subseteq> Collect time_char" using assms(2) by (metis Un_least set_append)
  then show ?thesis using s by (auto simp: time_char_def)
qed (use assms in simp)

lemma parse_zone_chars:
  assumes "parse_zone s = Some (z, [])"
  shows "set s \<subseteq> Collect time_char"
proof (cases "has_prefix ''Z'' s")
  case True
  then have "s = ''Z''" using assms by (auto simp: parse_zone_def has_prefix_def) (cases s; simp)
  then show ?thesis by (simp add: time_char_def)
next
  case False
  then have l: "\<not> length s < 6" "s ! 3 = CHR '':''" "length s \<le> 6"
    and sign: "s ! 0 = CHR ''+'' \<or> s ! 0 = CHR ''-''"
    and hr: "getnum True (take 2 (drop 1 s)) \<noteq> None" and mm: "getnum True (take 2 (drop 4 s)) \<noteq> None"
    using assms by (auto simp: parse_zone_def bind_eq_Some_conv split: if_splits)
  from l obtain a b c d e f where s: "s = [a, b, c, d, e, f]"
    by (cases s; cases "tl s"; cases "tl (tl s)"; cases "tl (tl (tl s))";
        cases "tl (tl (tl (tl s)))"; cases "tl (tl (tl (tl (tl s))))") auto
  have two: "isDigit x \<and> isDigit y" if "getnum True [x, y] \<noteq> None" for x y
    using that by (auto simp: getnum_def isDigit_def split: option.splits)
  show ?thesis
    using two [of b c] two [of e f] hr mm sign l(2) unfolding s by (auto simp: time_char_def)
qed

lemma parse_rfc3339_chars:
  assumes "parse_rfc3339 s = Some t"
  shows "set s \<subseteq> Collect time_char"
proof -
  have lit: "set ''-'' \<subseteq> Collect time_char" "set ''T'' \<subseteq> Collect time_char" "set '':'' \<subseteq> Collect time_char"
    by (simp_all add: time_char_def)
  note steps = skip_consumes [OF _ lit(1)] skip_consumes [OF _ lit(2)] skip_consumes [OF _ lit(3)]
    getnum_consumes parse_year_consumes parse_fraction_consumes [OF prod.collapse [symmetric]]
  from assms obtain y s1 s2 mo s3 s4 d s5 s6 h s7 s8 mi s9 s10 sc s11 z where
    "parse_year s = Some (y, s1)" "skip ''-'' s1 = Some s2" "getnum True s2 = Some (mo, s3)"
    "skip ''-'' s3 = Some s4" "getnum True s4 = Some (d, s5)" "skip ''T'' s5 = Some s6"
    "getnum False s6 = Some (h, s7)" "skip '':'' s7 = Some s8" "getnum True s8 = Some (mi, s9)"
    "skip '':'' s9 = Some s10" "getnum True s10 = Some (sc, s11)"
    "parse_zone (snd (parse_fraction s11)) = Some (z, [])"
    by (auto simp: parse_rfc3339_def bind_eq_Some_conv in_range_eq_Some case_prod_unfold Let_def
        split: if_split_asm)
  then show ?thesis using parse_zone_chars steps by metis
qed

end
