(* ===== verification/Go_Flag.thy ===== *)
theory Go_Flag
  imports Go_Time
begin

text \<open>
  Go's \<open>flag\<close> package as the two programs use it: a set of named flags, each bound to a
  variable, and the parser that assigns them from the argument list.  The variables are the
  fields of a record; a flag is the update of its field.
\<close>

section \<open>Values\<close>

definition parse_bool :: "string \<Rightarrow> bool option" where
  "parse_bool s =
     (if s \<in> set [''1'', ''t'', ''T'', ''TRUE'', ''true'', ''True''] then Some True
      else if s \<in> set [''0'', ''f'', ''F'', ''FALSE'', ''false'', ''False''] then Some False
      else None)"

text \<open>
  \<open>time.ParseDuration\<close>: decimal numbers, each with a unit, added up in a \<open>uint64\<close>; the
  product of a fraction and its unit is rounded down.
\<close>

definition unit_value :: "string \<Rightarrow> nat option" where
  "unit_value =
     map_of
       [(''ns'', 1), (''us'', 1000), ([CHR 0xC2, CHR 0xB5, CHR ''s''], 1000),
        ([CHR 0xCE, CHR 0xBC, CHR ''s''], 1000), (''ms'', 1000000), (''s'', 1000000000),
        (''m'', 60000000000), (''h'', 3600000000000)]"

definition digits_value :: "string \<Rightarrow> nat" where
  "digits_value ds = (case read_digits 0 ds of None \<Rightarrow> 0 | Some n \<Rightarrow> n)"

definition leadingInt :: "string \<Rightarrow> (nat \<times> string) option" where
  "leadingInt s =
     (let n = digits_value (takeWhile isDigit s)
      in if 2 ^ 63 < n then None else Some (n, dropWhile isDigit s))"

fun fraction_digits :: "nat \<Rightarrow> nat \<Rightarrow> string \<Rightarrow> nat \<times> nat" where
  "fraction_digits f scale [] = (f, scale)"
| "fraction_digits f scale (d # ds) =
     (let y = f * 10 + digits_value [d]
      in if (2 ^ 63 - 1) div 10 < f \<or> 2 ^ 63 < y then (f, scale) else fraction_digits y (scale * 10) ds)"

definition leadingFraction :: "string \<Rightarrow> nat \<times> nat \<times> string" where
  "leadingFraction s =
     (let (f, scale) = fraction_digits 0 1 (takeWhile isDigit s) in (f, scale, dropWhile isDigit s))"

definition number_char :: "char \<Rightarrow> bool" where "number_char c \<longleftrightarrow> c = CHR ''.'' \<or> isDigit c"

text \<open>One number, \<open>v + f / scale\<close>, with digits before the point or after it; then its unit.\<close>

definition duration_number :: "string \<Rightarrow> (nat \<times> nat \<times> nat \<times> string) option" where
  "duration_number s =
     (case leadingInt s of
        None \<Rightarrow> None
      | Some (v, s1) \<Rightarrow>
          (if s1 \<noteq> [] \<and> hd s1 = CHR ''.''
           then (let (f, scale, s2) = leadingFraction (tl s1)
                 in if s1 = s \<and> s2 = tl s1 then None else Some (v, f, scale, s2))
           else if s1 = s then None else Some (v, 0, 1, s1)))"

definition duration_part :: "string \<Rightarrow> (nat \<times> string) option" where
  "duration_part s =
     (case duration_number s of
        None \<Rightarrow> None
      | Some (v, f, scale, s2) \<Rightarrow>
          (case unit_value (takeWhile (\<lambda>c. \<not> number_char c) s2) of
             None \<Rightarrow> None
           | Some unit \<Rightarrow>
               if 2 ^ 63 div unit < v then None
               else
                 (let v = v * unit + (if 0 < f then f * unit div scale else 0)
                  in if 2 ^ 63 < v then None else Some (v, dropWhile (\<lambda>c. \<not> number_char c) s2))))"

lemma duration_number_shorter: "duration_number s = Some (v, f, scale, r) \<Longrightarrow> length r \<le> length s"
  using length_dropWhile_le [of isDigit s] length_dropWhile_le [of isDigit "tl (dropWhile isDigit s)"]
  by (auto simp: duration_number_def leadingInt_def leadingFraction_def Let_def case_prod_unfold
      split: option.splits if_splits)

lemma duration_part_shorter:
  assumes "duration_part s = Some (v, r)"
  shows "length r < length s"
proof -
  from assms obtain w f scale s2 where n: "duration_number s = Some (w, f, scale, s2)"
      and u: "unit_value (takeWhile (\<lambda>c. \<not> number_char c) s2) \<noteq> None"
      and r: "r = dropWhile (\<lambda>c. \<not> number_char c) s2"
    by (auto simp: duration_part_def Let_def split: option.splits if_splits)
  from u have "takeWhile (\<lambda>c. \<not> number_char c) s2 \<noteq> []" by (auto simp: unit_value_def)
  then have "length r < length s2"
    unfolding r by (cases s2) (auto simp: less_Suc_eq_le length_dropWhile_le split: if_splits)
  then show ?thesis using duration_number_shorter [OF n] by simp
qed

function duration_sum :: "nat \<Rightarrow> string \<Rightarrow> nat option" where
  "duration_sum d s =
     (if s = [] then Some d
      else (case duration_part s of
              None \<Rightarrow> None
            | Some (v, r) \<Rightarrow>
                (let d = (d + v) mod 2 ^ 64 in if 2 ^ 63 < d then None else duration_sum d r)))"
  by pat_completeness auto
termination
  by (relation "measure (\<lambda>(d, s). length s)") (auto simp: duration_part_shorter)

declare duration_sum.simps [simp del]

definition parse_duration :: "string \<Rightarrow> duration option" where
  "parse_duration s =
     (let neg = (s \<noteq> [] \<and> hd s = CHR ''-'');
          s = (if s \<noteq> [] \<and> (hd s = CHR ''-'' \<or> hd s = CHR ''+'') then tl s else s)
      in if s = ''0'' then Some 0
         else if s = [] then None
         else (case duration_sum 0 s of
                 None \<Rightarrow> None
               | Some d \<Rightarrow> if neg then Some (- int d) else in_int64 (int d)))"

lemma parse_duration_examples:
  "parse_duration ''24h'' = Some (24 * hour)" "parse_duration ''1m30.5s'' = Some (90 * second + 500 * millisecond)"
  "parse_duration ''-.5s'' = Some (- 500 * millisecond)" "parse_duration ''5'' = None" "parse_duration ''0'' = Some 0"
  "parse_duration ''-9223372036854775808ns'' = Some min_int64" "parse_duration ''9223372036854775808ns'' = None"
  by (simp_all add: parse_duration_def duration_sum.simps duration_part_def duration_number_def leadingInt_def
      leadingFraction_def digits_value_def isDigit_def digit_value_def number_char_def unit_value_def Let_def
      in_int64_def max_int64_def min_int64_def time_units)

section \<open>Flag sets\<close>

datatype 'r flag =
    BoolVar "bool \<Rightarrow> 'r \<Rightarrow> 'r"
  | StringVar "string \<Rightarrow> 'r \<Rightarrow> 'r"
  | DurationVar "duration \<Rightarrow> 'r \<Rightarrow> 'r"

type_synonym 'r flagset = "(string \<times> 'r flag) list"

datatype flag_error =
    ErrHelp
  | BadSyntax string
  | NotDefined string
  | NeedsArgument string
  | InvalidValue string string

text \<open>What an argument is to the parser: no flag at all, the terminator, or a flag, with a value or not.\<close>

datatype flag_arg =
    NoFlag
  | Terminator
  | Malformed
  | Flag string "string option"

definition split_equals :: "string \<Rightarrow> string \<times> string option" where
  \<comment> \<open>at the first \<open>=\<close>, which is not the first character\<close>
  "split_equals name =
     (let n = takeWhile (\<lambda>c. c \<noteq> CHR ''='') name
      in (n, if n = name then None else Some (drop (Suc (length n)) name)))"

definition flag_arg :: "string \<Rightarrow> flag_arg" where
  "flag_arg s =
     (if length s < 2 \<or> hd s \<noteq> CHR ''-'' then NoFlag
      else if s = ''--'' then Terminator
      else
        (let name = (if hd (tl s) = CHR ''-'' then drop 2 s else drop 1 s)
         in if hd name = CHR ''-'' \<or> hd name = CHR ''='' then Malformed
            else (let (n, v) = split_equals name in Flag n v)))"

lemma flag_arg_examples:
  "flag_arg ''--a=b=c'' = Flag ''a'' (Some ''b=c'')" "flag_arg ''-x='' = Flag ''x'' (Some [])"
  "flag_arg ''-x'' = Flag ''x'' None" "flag_arg ''-'' = NoFlag" "flag_arg ''---x'' = Malformed"
  "flag_arg ''--=x'' = Malformed"
  by (simp_all add: flag_arg_def split_equals_def)

definition is_bool :: "'r flag \<Rightarrow> bool" where
  "is_bool f = (case f of BoolVar _ \<Rightarrow> True | _ \<Rightarrow> False)"

definition set_flag :: "'r flag \<Rightarrow> string \<Rightarrow> 'r \<Rightarrow> 'r option" where
  "set_flag f v r =
     (case f of
        BoolVar upd \<Rightarrow> map_option (\<lambda>b. upd b r) (parse_bool v)
      | StringVar upd \<Rightarrow> Some (upd v r)
      | DurationVar upd \<Rightarrow> map_option (\<lambda>d. upd d r) (parse_duration v))"

definition assign :: "'r flag \<Rightarrow> string \<Rightarrow> string \<Rightarrow> 'r \<Rightarrow> flag_error + 'r" where
  "assign f n v r = (case set_flag f v r of None \<Rightarrow> Inl (InvalidValue n v) | Some r' \<Rightarrow> Inr r')"

text \<open>
  \<open>FlagSet.Parse\<close>: flags are taken from the front until an argument is not one; what is left
  are the positional arguments.  A boolean flag never takes its value from the next argument.
\<close>

fun parse_flags :: "'r flagset \<Rightarrow> string list \<Rightarrow> 'r \<Rightarrow> flag_error + 'r \<times> string list" where
  "parse_flags fs [] r = Inr (r, [])"
| "parse_flags fs (s # args) r =
     (case flag_arg s of
        NoFlag \<Rightarrow> Inr (r, s # args)
      | Terminator \<Rightarrow> Inr (r, args)
      | Malformed \<Rightarrow> Inl (BadSyntax s)
      | Flag n v \<Rightarrow>
          (case map_of fs n of
             None \<Rightarrow> Inl (if n = ''help'' \<or> n = ''h'' then ErrHelp else NotDefined n)
           | Some f \<Rightarrow>
               if is_bool f \<or> v \<noteq> None
               then (case assign f n (case v of None \<Rightarrow> ''true'' | Some x \<Rightarrow> x) r of
                       Inl e \<Rightarrow> Inl e
                     | Inr r' \<Rightarrow> parse_flags fs args r')
               else (case args of
                       [] \<Rightarrow> Inl (NeedsArgument n)
                     | x # args' \<Rightarrow>
                         (case assign f n x r of
                            Inl e \<Rightarrow> Inl e
                          | Inr r' \<Rightarrow> parse_flags fs args' r'))))"

text \<open>\<open>ExitOnError\<close>.\<close>

definition flag_exit :: "flag_error \<Rightarrow> nat" where
  "flag_exit e = (if e = ErrHelp then 0 else 2)"

section \<open>What a parse can do\<close>

text \<open>The positional arguments are the end of the argument list, or what follows a terminator.\<close>

lemma parse_flags_rest: "parse_flags fs args r = Inr (r', rest) \<Longrightarrow> \<exists>used. args = used @ rest"
proof (induction fs args r rule: parse_flags.induct)
  case (2 fs s args r)
  show ?case
  proof (cases "flag_arg s")
    case (Flag n v)
    obtain f where f: "map_of fs n = Some f" using 2(3) Flag by (cases "map_of fs n") auto
    show ?thesis
    proof (cases "is_bool f \<or> v \<noteq> None")
      case True
      then obtain r1 where "assign f n (case v of None \<Rightarrow> ''true'' | Some x \<Rightarrow> x) r = Inr r1"
          "parse_flags fs args r1 = Inr (r', rest)"
        using 2(3) Flag f by (auto split: sum.splits)
      with 2(1) [OF Flag f True] obtain used where "args = used @ rest" by blast
      then show ?thesis by (intro exI [of _ "s # used"]) simp
    next
      case False
      then obtain x args' r1 where "args = x # args'" "assign f n x r = Inr r1"
          "parse_flags fs args' r1 = Inr (r', rest)"
        using 2(3) Flag f by (auto split: list.splits sum.splits)
      with 2(2) [OF Flag f False] obtain used where "args = x # used @ rest" by blast
      then show ?thesis by (intro exI [of _ "s # x # used"]) simp
    qed
  qed (use 2(3) in \<open>auto\<close>)
qed simp

text \<open>
  What the assignments of all flags but some keep, the parse keeps unless one of those flags
  is named.
\<close>

definition names_flag :: "string \<Rightarrow> string \<Rightarrow> bool" where
  "names_flag n s \<longleftrightarrow> (\<exists>v. flag_arg s = Flag n v)"

lemma parse_flags_keeps:
  assumes "\<And>n f v r r'. map_of fs n = Some f \<Longrightarrow> n \<notin> N \<Longrightarrow> set_flag f v r = Some r' \<Longrightarrow> P r \<Longrightarrow> P r'"
  shows "parse_flags fs args r = Inr (r', rest) \<Longrightarrow> P r \<Longrightarrow> \<forall>s \<in> set args. \<forall>n \<in> N. \<not> names_flag n s \<Longrightarrow> P r'"
proof (induction fs\<equiv>fs args r rule: parse_flags.induct)
  case (2 s args r)
  show ?case
  proof (cases "flag_arg s")
    case (Flag n v)
    obtain f where f: "map_of fs n = Some f" using 2(3) Flag by (cases "map_of fs n") auto
    have n: "n \<notin> N" using 2(5) Flag by (auto simp: names_flag_def)
    have P: "P r1" if "assign f n x r = Inr r1" for x r1
      using that assms [OF f n] 2(4) by (auto simp: assign_def split: option.splits)
    show ?thesis
    proof (cases "is_bool f \<or> v \<noteq> None")
      case True
      then obtain r1 where "assign f n (case v of None \<Rightarrow> ''true'' | Some x \<Rightarrow> x) r = Inr r1"
          "parse_flags fs args r1 = Inr (r', rest)"
        using 2(3) Flag f by (auto split: sum.splits)
      then show ?thesis using 2(1) [OF Flag f True] P 2(5) by auto
    next
      case False
      then obtain x args' r1 where "args = x # args'" "assign f n x r = Inr r1"
          "parse_flags fs args' r1 = Inr (r', rest)"
        using 2(3) Flag f by (auto split: list.splits sum.splits)
      then show ?thesis using 2(2) [OF Flag f False] P 2(5) by auto
    qed
  qed (use 2(3,4) in \<open>auto\<close>)
qed simp

section \<open>Assignments written out\<close>

text \<open>
  Flags written as \<open>--name=value\<close> are assigned in their order, whatever the values hold, so
  the last of several wins; the parse goes on with what follows them.
\<close>

definition plain_name :: "string \<Rightarrow> bool" where
  "plain_name n \<longleftrightarrow> n \<noteq> [] \<and> hd n \<noteq> CHR ''-'' \<and> CHR ''='' \<notin> set n"

definition render :: "string \<times> string \<Rightarrow> string" where
  "render nv = ''--'' @ fst nv @ ''='' @ snd nv"

lemma split_equals_render: "CHR ''='' \<notin> set n \<Longrightarrow> split_equals (n @ CHR ''='' # v) = (n, Some v)"
proof -
  assume n: "CHR ''='' \<notin> set n"
  then have "takeWhile (\<lambda>c. c \<noteq> CHR ''='') (n @ CHR ''='' # v) = n"
    by (subst takeWhile_append2) auto
  then show ?thesis by (simp add: split_equals_def)
qed

lemma flag_arg_render [simp]: "plain_name n \<Longrightarrow> flag_arg (render (n, v)) = Flag n (Some v)"
  by (cases n) (auto simp: plain_name_def flag_arg_def render_def split_equals_render
      split_equals_render [of "_ # _", simplified])

fun assign_all :: "'r flagset \<Rightarrow> (string \<times> string) list \<Rightarrow> 'r \<Rightarrow> flag_error + 'r" where
  "assign_all fs [] r = Inr r"
| "assign_all fs ((n, v) # nvs) r =
     (case map_of fs n of
        None \<Rightarrow> Inl (if n = ''help'' \<or> n = ''h'' then ErrHelp else NotDefined n)
      | Some f \<Rightarrow> (case assign f n v r of Inl e \<Rightarrow> Inl e | Inr r' \<Rightarrow> assign_all fs nvs r'))"

lemma parse_rendered:
  "list_all (\<lambda>(n, v). plain_name n) nvs \<Longrightarrow>
     parse_flags fs (map render nvs @ rest) r =
       (case assign_all fs nvs r of Inl e \<Rightarrow> Inl e | Inr r' \<Rightarrow> parse_flags fs rest r')"
  by (induction fs nvs r rule: assign_all.induct) (auto split: option.split sum.split)

text \<open>A boolean flag with its value apart is set, and ends the flags.\<close>

lemma detached_bool:
  assumes "flag_arg s = Flag n None" "map_of fs n = Some (BoolVar upd)" "flag_arg x = NoFlag"
  shows "parse_flags fs (s # x # args) r = Inr (upd True r, x # args)"
  using assms by (simp add: is_bool_def assign_def set_flag_def parse_bool_def)

end
