(* ===== verification/Signal.thy ===== *)
theory Signal
  imports Go_Base64 Go_Strings "HOL-Library.Word"
begin

text \<open>
  \<open>internal/signal\<close>: the signalling wire types and the crypto helpers the broker and the
  daemon share.  Ed25519 and HMAC-SHA256 are functions of a \<open>crypto\<close> record that every
  definition using them takes as an argument; the base64 wrapping, the length check
  before \<open>ed25519.Verify\<close> and the byte strings that are signed are the source's.
\<close>

section \<open>Wire types (message.go)\<close>

definition TypeRegister :: string where [simp]: "TypeRegister = ''register''"
definition TypeJoin :: string where [simp]: "TypeJoin = ''join''"
definition TypeICEServers :: string where [simp]: "TypeICEServers = ''iceServers''"
definition TypeOffer :: string where [simp]: "TypeOffer = ''offer''"
definition TypeAnswer :: string where [simp]: "TypeAnswer = ''answer''"
definition TypePeerLeft :: string where [simp]: "TypePeerLeft = ''peerLeft''"
definition TypeError :: string where [simp]: "TypeError = ''error''"
definition TypeCandidate :: string where [simp]: "TypeCandidate = ''candidate''"
definition TypeConnect :: string where [simp]: "TypeConnect = ''connect''"
definition TypeChallenge :: string where [simp]: "TypeChallenge = ''challenge''"
definition TypeProof :: string where [simp]: "TypeProof = ''proof''"
definition TypeWatch :: string where [simp]: "TypeWatch = ''watch''"
definition TypePresence :: string where [simp]: "TypePresence = ''presence''"

definition RoleDaemon :: string where "RoleDaemon = ''daemon''"
definition RoleClient :: string where "RoleClient = ''client''"

definition CodeOffline :: string where "CodeOffline = ''offline''"
definition CodeBusy :: string where "CodeBusy = ''busy''"
definition CodeTakenOver :: string where "CodeTakenOver = ''taken_over''"
definition CodePairExpired :: string where "CodePairExpired = ''pair_expired''"
definition CodePairUsed :: string where "CodePairUsed = ''pair_used''"
definition CodePairInvalid :: string where "CodePairInvalid = ''pair_invalid''"

record ice_server =
  urls :: "string list"
  username :: string
  credential :: string

record signal_msg =
  m_type :: string
  m_room :: string
  m_role :: string
  m_sdp :: string
  m_pubkey :: string
  m_sig :: string
  m_iceServers :: "ice_server list"
  m_msg :: string
  m_code :: string
  m_daemon :: string
  m_nonce :: string
  m_brokerNonce :: string
  m_pair :: string
  m_takeover :: bool
  m_brokerSig :: string
  m_daemons :: "string list"
  m_states :: "string \<rightharpoonup> bool"
  m_trickle :: bool
  m_candidate :: string
  m_sdpMid :: string
  m_sdpMLineIndex :: "16 word option"

text \<open>\<open>signal.Msg{Type: t}\<close>: every unused field stays zero.\<close>

definition msg_of_type :: "string \<Rightarrow> signal_msg" where
  "msg_of_type t =
     \<lparr>m_type = t, m_room = [], m_role = [], m_sdp = [], m_pubkey = [], m_sig = [],
      m_iceServers = [], m_msg = [], m_code = [], m_daemon = [], m_nonce = [],
      m_brokerNonce = [], m_pair = [], m_takeover = False, m_brokerSig = [],
      m_daemons = [], m_states = Map.empty, m_trickle = False, m_candidate = [],
      m_sdpMid = [], m_sdpMLineIndex = None\<rparr>"

definition error_msg :: "string \<Rightarrow> string \<Rightarrow> signal_msg" where
  "error_msg code text = (msg_of_type TypeError)\<lparr>m_code := code, m_msg := text\<rparr>"

lemma m_type_msg_of_type [simp]: "m_type (msg_of_type t) = t"
  by (simp add: msg_of_type_def)

lemma m_type_error_msg [simp]: "m_type (error_msg c t) = TypeError"
  by (simp add: error_msg_def)

section \<open>Signatures and proofs (auth.go, enroll.go, subscription.go)\<close>

text \<open>
  \<open>ed25519_verify pub msg sig\<close>, \<open>ed25519_sign priv msg\<close> and \<open>hmac_sha256 key msg\<close> stand
  for the standard library's primitives on raw bytes.
\<close>

record crypto =
  ed25519_verify :: "string \<Rightarrow> string \<Rightarrow> string \<Rightarrow> bool"
  ed25519_sign :: "string \<Rightarrow> string \<Rightarrow> string"
  hmac_sha256 :: "string \<Rightarrow> string \<Rightarrow> string"

definition Sign :: "crypto \<Rightarrow> string \<Rightarrow> string \<Rightarrow> string" where
  "Sign C priv msg = b64_encode (ed25519_sign C priv msg)"

definition Verify :: "crypto \<Rightarrow> string \<Rightarrow> string \<Rightarrow> string \<Rightarrow> bool" where
  "Verify C pubB64 msg sigB64 =
     (case b64_decode pubB64 of
        None \<Rightarrow> False
      | Some pub \<Rightarrow>
          if length pub \<noteq> 32 then False
          else (case b64_decode sigB64 of
                  None \<Rightarrow> False
                | Some sig \<Rightarrow> ed25519_verify C pub msg sig))"

definition nonce_of :: "string \<Rightarrow> string" where
  \<comment> \<open>\<open>NewNonce\<close> on the 16 bytes read from the random source\<close>
  "nonce_of rnd = b64_encode rnd"

definition pairing_secret_of :: "string \<Rightarrow> string" where
  \<comment> \<open>\<open>NewPairingSecret\<close> on the 9 bytes read from the random source\<close>
  "pairing_secret_of rnd = b64_raw_url rnd"

definition NUL :: char where "NUL = CHR 0x00"
definition US :: char where "US = CHR 0x1F"

definition enroll_input :: "string \<Rightarrow> string \<Rightarrow> string" where
  "enroll_input clientPubKey nonce = clientPubKey @ [NUL] @ nonce"

definition EnrollProof :: "crypto \<Rightarrow> string \<Rightarrow> string \<Rightarrow> string \<Rightarrow> string" where
  "EnrollProof C secret clientPubKey nonce =
     b64_encode (hmac_sha256 C secret (enroll_input clientPubKey nonce))"

definition VerifyEnrollProof ::
  "crypto \<Rightarrow> string \<Rightarrow> string \<Rightarrow> string \<Rightarrow> string \<Rightarrow> bool" where
  "VerifyEnrollProof C secret clientPubKey nonce proofB64 =
     (EnrollProof C secret clientPubKey nonce = proofB64)"

definition CanonicalSubscription :: "string \<Rightarrow> string \<Rightarrow> string \<Rightarrow> string \<Rightarrow> string" where
  "CanonicalSubscription clientPubKey productID expiresAt issuedAt =
     clientPubKey @ [US] @ productID @ [US] @ expiresAt @ [US] @ issuedAt"

definition AppSig :: "crypto \<Rightarrow> string \<Rightarrow> string \<Rightarrow> string" where
  "AppSig C appSecret canonical = b64_encode (hmac_sha256 C appSecret canonical)"

definition VerifyAppSig :: "crypto \<Rightarrow> string \<Rightarrow> string \<Rightarrow> string \<Rightarrow> bool" where
  "VerifyAppSig C appSecret canonical sigB64 = (AppSig C appSecret canonical = sigB64)"

text \<open>
  A transparent instance of the primitives, for evaluating concrete runs: a signature is
  the key followed by the message, and a MAC likewise.
\<close>

definition plain_crypto :: crypto where
  "plain_crypto =
     \<lparr>ed25519_verify = (\<lambda>pub msg sig. sig = pub @ msg),
      ed25519_sign = (\<lambda>priv msg. priv @ msg),
      hmac_sha256 = (\<lambda>key msg. key @ msg)\<rparr>"

section \<open>Facts about the helpers\<close>

text \<open>A key that verifies anything is well-formed base64, so it holds no separator.\<close>

lemma Verify_decodes:
  "Verify C pub msg sig \<Longrightarrow> \<exists>raw. b64_decode pub = Some raw \<and> length raw = 32"
  by (auto simp: Verify_def split: option.splits if_splits)

lemma separators_not_b64 [simp]: "\<not> b64_accepts US" "\<not> b64_accepts NUL"
  by (simp_all add: b64_accepts_def b64_value_def is_newline_def US_def NUL_def)

lemma Verify_no_separator:
  assumes "Verify C pub msg sig"
  shows "US \<notin> set pub" and "NUL \<notin> set pub" and "pub \<noteq> []"
proof -
  from assms obtain raw where raw: "b64_decode pub = Some raw" and "length raw = 32"
    using Verify_decodes by blast
  show "US \<notin> set pub" "NUL \<notin> set pub"
    using b64_decode_accepts [OF raw] separators_not_b64 by blast+
  show "pub \<noteq> []"
    using raw \<open>length raw = 32\<close> by (auto simp: b64_decode_def)
qed

text \<open>Two lists joined by a separator the first parts do not contain split the same way.\<close>

lemma sep_append_inj:
  assumes "xs @ c # ys = xs' @ c # ys'" and "c \<notin> set xs" and "c \<notin> set xs'"
  shows "xs = xs' \<and> ys = ys'"
proof -
  have "takeWhile (\<lambda>x. x \<noteq> c) (xs @ c # ys) = xs" if "c \<notin> set xs" for xs ys
    using that by (induction xs) auto
  with assms have "xs = xs'" by metis
  with assms(1) show ?thesis by simp
qed

lemma enroll_input_inj:
  assumes "enroll_input p n = enroll_input p' n'" and "NUL \<notin> set p" and "NUL \<notin> set p'"
  shows "p = p' \<and> n = n'"
  using assms unfolding enroll_input_def by (auto dest: sep_append_inj)

lemma canonical_inj:
  assumes eq: "CanonicalSubscription a b e i = CanonicalSubscription a' b' e' i'"
    and a: "US \<notin> set a" "US \<notin> set a'"
    and e: "US \<notin> set e" "US \<notin> set e'" and i: "US \<notin> set i" "US \<notin> set i'"
  shows "a = a' \<and> b = b' \<and> e = e' \<and> i = i'"
proof -
  from eq have "a @ US # (b @ US # e @ US # i) = a' @ US # (b' @ US # e' @ US # i')"
    by (simp add: CanonicalSubscription_def)
  then have "a = a'" and r: "b @ US # e @ US # i = b' @ US # e' @ US # i'"
    using a sep_append_inj by fast+
  have "rev (b @ US # e @ US # i) = rev i @ US # rev e @ US # rev b" for b e i
    by simp
  with r have "rev i @ US # (rev e @ US # rev b) = rev i' @ US # (rev e' @ US # rev b')"
    by metis
  then have "rev i = rev i'" and "rev e @ US # rev b = rev e' @ US # rev b'"
    using i sep_append_inj by (metis set_rev)+
  then show ?thesis
    using e sep_append_inj [of "rev e" US "rev b" "rev e'" "rev b'"] \<open>a = a'\<close> by simp
qed

section \<open>The pairing link (pairing.go)\<close>

text \<open>
  \<open>url.Values.Encode\<close> sorts the keys (daemon, pair, signal) and escapes each value:
  unreserved bytes stay, a space becomes \<open>+\<close>, any other byte its percent form.
\<close>

definition hex_char :: "nat \<Rightarrow> char" where
  "hex_char d = char_of (if d < 10 then 48 + d else 55 + d)"

definition unreserved :: "char \<Rightarrow> bool" where
  "unreserved c \<longleftrightarrow>
     (let n = of_char c :: nat in
      48 \<le> n \<and> n \<le> 57 \<or> 65 \<le> n \<and> n \<le> 90 \<or> 97 \<le> n \<and> n \<le> 122)
     \<or> c = CHR ''-'' \<or> c = CHR ''_'' \<or> c = CHR ''.'' \<or> c = CHR ''~''"

definition escape_char :: "char \<Rightarrow> string" where
  "escape_char c =
     (if unreserved c then [c]
      else if c = CHR '' '' then ''+''
      else (let n = of_char c :: nat in [CHR ''%'', hex_char (n div 16), hex_char (n mod 16)]))"

definition query_escape :: "string \<Rightarrow> string" where
  "query_escape s = concat (map escape_char s)"

definition PairingURL :: "string \<Rightarrow> string \<Rightarrow> string \<Rightarrow> string \<Rightarrow> string" where
  "PairingURL clientBase signalingURL daemonPubKey secret =
     clientBase @ ''#'' @
     join_with ''&''
       ([''daemon='' @ query_escape daemonPubKey, ''pair='' @ query_escape secret] @
        (if signalingURL \<noteq> [] then [''signal='' @ query_escape signalingURL] else []))"

text \<open>The escaped text holds no delimiter and determines the value.\<close>

definition hex_value :: "char \<Rightarrow> nat" where
  "hex_value c = (let n = of_char c :: nat in if n < 58 then n - 48 else n - 55)"

fun query_unescape :: "string \<Rightarrow> string" where
  "query_unescape [] = []"
| "query_unescape (c # cs) =
     (if c = CHR ''+'' then CHR '' '' # query_unescape cs
      else if c = CHR ''%'' then
        (case cs of
           h # l # r \<Rightarrow> char_of (hex_value h * 16 + hex_value l) # query_unescape r
         | _ \<Rightarrow> [])
      else c # query_unescape cs)"

lemma hex_value_char [simp]: "d < 16 \<Longrightarrow> hex_value (hex_char d) = d"
  by (simp add: hex_value_def hex_char_def Let_def)

lemma unreserved_not_special [simp]:
  "\<not> unreserved CHR ''+''" "\<not> unreserved CHR ''%''" "\<not> unreserved CHR ''&''"
  "\<not> unreserved CHR ''=''" "\<not> unreserved CHR ''#''"
  by (simp_all add: unreserved_def)

lemma query_unescape_char: "query_unescape (escape_char c @ r) = c # query_unescape r"
proof -
  have "(of_char c :: nat) div 16 < 16"
    using of_char_less_256 [of c] by linarith
  then have "hex_value (hex_char (of_char c div 16)) * 16 + hex_value (hex_char (of_char c mod 16))
      = (of_char c :: nat)"
    by simp
  then have *: "query_unescape (CHR ''%'' # hex_char (of_char c div 16) # hex_char (of_char c mod 16) # r)
      = c # query_unescape r"
    by (simp del: hex_value_char)
  consider "unreserved c" | "\<not> unreserved c" "c = CHR '' ''" | "\<not> unreserved c" "c \<noteq> CHR '' ''"
    by blast
  then show ?thesis
  proof cases
    case 1
    then have "c \<noteq> CHR ''+''" "c \<noteq> CHR ''%''" by auto
    with 1 show ?thesis by (simp add: escape_char_def)
  next
    case 2
    then show ?thesis by (simp add: escape_char_def)
  next
    case 3
    then show ?thesis using * by (simp add: escape_char_def Let_def del: query_unescape.simps)
  qed
qed

lemma query_unescape_escape [simp]: "query_unescape (query_escape s) = s"
  unfolding query_escape_def by (induction s) (simp_all add: query_unescape_char)

lemma hex_char_unreserved: "d < 16 \<Longrightarrow> unreserved (hex_char d)"
  by (simp add: unreserved_def hex_char_def)

lemma query_escape_no_amp [simp]: "CHR ''&'' \<notin> set (query_escape s)"
proof -
  have "CHR ''&'' \<notin> set (escape_char c)" for c
  proof -
    have "(of_char c :: nat) div 16 < 16"
      using of_char_less_256 [of c] by linarith
    then have "unreserved (hex_char (of_char c div 16))" "unreserved (hex_char (of_char c mod 16))"
      by (simp_all add: hex_char_unreserved)
    then have "CHR ''&'' \<noteq> hex_char (of_char c div 16)" "CHR ''&'' \<noteq> hex_char (of_char c mod 16)"
      using unreserved_not_special(3) by metis+
    then show ?thesis
      by (auto simp: escape_char_def Let_def)
  qed
  then show ?thesis by (simp add: query_escape_def)
qed

lemma query_escape_inj [simp]: "query_escape s = query_escape t \<longleftrightarrow> s = t"
  by (metis query_unescape_escape)

lemma split_pairing_fragment:
  "split_on CHR ''&'' (drop (length base + 1) (PairingURL base sig d k)) =
     [''daemon='' @ query_escape d, ''pair='' @ query_escape k] @
     (if sig \<noteq> [] then [''signal='' @ query_escape sig] else [])"
proof -
  have *: "split_on CHR ''&'' (x @ CHR ''&'' # y) = x # split_on CHR ''&'' y"
    if "CHR ''&'' \<notin> set x" for x y
    by (rule split_on_append [OF that])
  show ?thesis
    using * [of "''daemon='' @ query_escape d"] * [of "''pair='' @ query_escape k"]
      split_on_no_sep [of "CHR ''&''" "''pair='' @ query_escape k"]
      split_on_no_sep [of "CHR ''&''" "''signal='' @ query_escape sig"]
    by (simp add: PairingURL_def)
qed

end
