(* ===== verification/Pinned_Store.thy ===== *)
theory Pinned_Store
  imports Signal
begin

text \<open>
  \<open>internal/server/pinned.go\<close>: the daemon's set of enrolled client keys and its JSON file.
  The in-memory set is a Go map, modelled by an association list with distinct keys (Go
  leaves the iteration order open; only the set of entries matters here).  The file is
  modelled by what \<open>LoadPinnedStore\<close> can find there.  \<open>save\<close> is a chain of system calls,
  each of which may fail; the chain is also given step by step, for crash safety.
\<close>

section \<open>The store and its file\<close>

record PinnedClient =
  pc_pubkey :: string
  pc_name :: string

datatype pin_file = Missing | Blank | Clients "PinnedClient list" | Corrupt | Unreadable

text \<open>The directory holding the store: the file itself and at most one temporary file.\<close>

record pin_disk =
  pd_file :: pin_file
  pd_tmp :: "pin_file option"

record PinnedStore =
  ps_set :: "(string \<times> PinnedClient) list"
  ps_disk :: pin_disk

datatype save_call = MkdirAll | CreateTemp | Chmod | WriteTmp | CloseTmp | Rename

definition pin_put :: "string \<Rightarrow> PinnedClient \<Rightarrow> (string \<times> PinnedClient) list \<Rightarrow> (string \<times> PinnedClient) list" where
  "pin_put k c s = (k, c) # filter (\<lambda>e. fst e \<noteq> k) s"

definition pin_delete :: "string \<Rightarrow> (string \<times> PinnedClient) list \<Rightarrow> (string \<times> PinnedClient) list" where
  "pin_delete k s = filter (\<lambda>e. fst e \<noteq> k) s"

definition LoadPinnedStore :: "pin_disk \<Rightarrow> PinnedStore option" where
  "LoadPinnedStore d =
     (case pd_file d of
        Missing \<Rightarrow> Some \<lparr>ps_set = [], ps_disk = d\<rparr>
      | Unreadable \<Rightarrow> None
      | Blank \<Rightarrow> Some \<lparr>ps_set = [], ps_disk = d\<rparr>
      | Corrupt \<Rightarrow> None
      | Clients list \<Rightarrow>
          Some \<lparr>ps_set = fold (\<lambda>c. pin_put (pc_pubkey c) c) list [], ps_disk = d\<rparr>)"

definition pinned_Contains :: "string \<Rightarrow> PinnedStore \<Rightarrow> bool" where
  "pinned_Contains k ps \<longleftrightarrow> map_of (ps_set ps) k \<noteq> None"

text \<open>
  One system call of \<open>save\<close> on the directory: \<open>list\<close> is the marshalled set.  A temporary
  file is created empty, filled, and renamed over the store.
\<close>

fun save_step :: "PinnedClient list \<Rightarrow> save_call \<Rightarrow> pin_disk \<Rightarrow> pin_disk" where
  "save_step list MkdirAll d = d"
| "save_step list CreateTemp d = d\<lparr>pd_tmp := Some Blank\<rparr>"
| "save_step list Chmod d = d"
| "save_step list WriteTmp d = d\<lparr>pd_tmp := Some (Clients list)\<rparr>"
| "save_step list CloseTmp d = d"
| "save_step list Rename d =
     (case pd_tmp d of None \<Rightarrow> d | Some f \<Rightarrow> d\<lparr>pd_file := f, pd_tmp := None\<rparr>)"

definition save_calls :: "save_call list" where
  "save_calls = [MkdirAll, CreateTemp, Chmod, WriteTmp, CloseTmp, Rename]"

text \<open>
  The chain with the first failing call given by the environment (\<open>None\<close>: all succeed).
  A failing call returns its error; the deferred \<open>os.Remove\<close> then drops the temporary file.
\<close>

fun save_chain :: "PinnedClient list \<Rightarrow> save_call option \<Rightarrow> save_call list \<Rightarrow> pin_disk \<Rightarrow> bool \<times> pin_disk" where
  "save_chain list fault [] d = (True, d)"
| "save_chain list fault (c # cs) d =
     (if fault = Some c then (False, d\<lparr>pd_tmp := None\<rparr>)
      else save_chain list fault cs (save_step list c d))"

definition pinned_save :: "save_call option \<Rightarrow> PinnedStore \<Rightarrow> bool \<times> PinnedStore" where
  "pinned_save fault ps =
     (let (ok, d) = save_chain (map snd (ps_set ps)) fault save_calls (ps_disk ps)
      in (ok, ps\<lparr>ps_disk := d\<rparr>))"

definition pinned_Add :: "save_call option \<Rightarrow> string \<Rightarrow> string \<Rightarrow> PinnedStore \<Rightarrow> bool \<times> PinnedStore" where
  "pinned_Add fault pubKey name ps =
     pinned_save fault
       (ps\<lparr>ps_set := pin_put pubKey \<lparr>pc_pubkey = pubKey, pc_name = name\<rparr> (ps_set ps)\<rparr>)"

definition pinned_Remove :: "save_call option \<Rightarrow> string \<Rightarrow> PinnedStore \<Rightarrow> bool \<times> PinnedStore" where
  "pinned_Remove fault pubKey ps = pinned_save fault (ps\<lparr>ps_set := pin_delete pubKey (ps_set ps)\<rparr>)"

section \<open>Lemmas\<close>

lemma map_of_filter_key:
  "map_of (filter (\<lambda>e. fst e \<noteq> k) s) = (map_of s)(k := None)"
  by (induction s) (auto simp: fun_eq_iff)

lemma map_of_pin_put [simp]: "map_of (pin_put k c s) = (map_of s)(k \<mapsto> c)"
  by (simp add: pin_put_def map_of_filter_key)

lemma map_of_pin_delete [simp]: "map_of (pin_delete k s) = (map_of s)(k := None)"
  by (simp add: pin_delete_def map_of_filter_key)

text \<open>Well-formed: distinct keys, and each entry is stored under its own public key.\<close>

definition keyed :: "(string \<times> PinnedClient) list \<Rightarrow> bool" where
  "keyed s \<longleftrightarrow> distinct (map fst s) \<and> (\<forall>e \<in> set s. pc_pubkey (snd e) = fst e)"

definition pinned_wf :: "PinnedStore \<Rightarrow> bool" where
  "pinned_wf ps \<longleftrightarrow> keyed (ps_set ps)"

lemma keyed_Nil [simp]: "keyed []"
  by (simp add: keyed_def)

lemma keyed_put [simp]: "keyed s \<Longrightarrow> pc_pubkey c = k \<Longrightarrow> keyed (pin_put k c s)"
  by (auto simp: keyed_def pin_put_def distinct_map_filter)

lemma keyed_delete [simp]: "keyed s \<Longrightarrow> keyed (pin_delete k s)"
  by (auto simp: keyed_def pin_delete_def distinct_map_filter)

lemma keyed_fold: "keyed s \<Longrightarrow> keyed (fold (\<lambda>c. pin_put (pc_pubkey c) c) l s)"
  by (induction l arbitrary: s) auto

lemma ps_set_save [simp]: "ps_set (snd (pinned_save fault ps)) = ps_set ps"
  by (simp add: pinned_save_def split: prod.splits)

lemma pinned_wf_save [inv_intros]: "pinned_wf ps \<Longrightarrow> pinned_wf (snd (pinned_save fault ps))"
  by (simp add: pinned_wf_def)

lemma pinned_wf_Add [inv_intros]: "pinned_wf ps \<Longrightarrow> pinned_wf (snd (pinned_Add fault k n ps))"
  by (simp add: pinned_Add_def pinned_wf_def)

lemma pinned_wf_Remove [inv_intros]: "pinned_wf ps \<Longrightarrow> pinned_wf (snd (pinned_Remove fault k ps))"
  by (simp add: pinned_Remove_def pinned_wf_def)

lemma pinned_wf_Load [inv_intros]: "LoadPinnedStore d = Some ps \<Longrightarrow> pinned_wf ps"
  by (auto simp: LoadPinnedStore_def pinned_wf_def keyed_fold split: pin_file.splits)

lemma Contains_Add [simp]:
  "pinned_Contains k' (snd (pinned_Add fault k n ps)) \<longleftrightarrow> k' = k \<or> pinned_Contains k' ps"
  by (simp add: pinned_Contains_def pinned_Add_def)

lemma Contains_Remove [simp]:
  "pinned_Contains k' (snd (pinned_Remove fault k ps)) \<longleftrightarrow> k' \<noteq> k \<and> pinned_Contains k' ps"
  by (simp add: pinned_Contains_def pinned_Remove_def)

text \<open>A save either fails and leaves the file alone, or writes the whole set.\<close>

lemma save_chain_outcome:
  "save_chain list fault save_calls d =
     (if fault = None then (True, d\<lparr>pd_file := Clients list, pd_tmp := None\<rparr>)
      else (False, d\<lparr>pd_tmp := None\<rparr>))"
  by (cases fault; cases "the fault") (simp_all add: save_calls_def)

lemma pinned_save_ok_iff: "fst (pinned_save fault ps) \<longleftrightarrow> fault = None"
  by (simp add: pinned_save_def save_chain_outcome)

lemma pd_file_save:
  "pd_file (ps_disk (snd (pinned_save fault ps))) =
     (if fault = None then Clients (map snd (ps_set ps)) else pd_file (ps_disk ps))"
  by (simp add: pinned_save_def save_chain_outcome)

lemma map_of_fold_put:
  "map_of (fold (\<lambda>c. pin_put (pc_pubkey c) c) l s) =
     map_of s ++ map_of (rev (map (\<lambda>c. (pc_pubkey c, c)) l))"
  by (induction l arbitrary: s) auto

lemma keyed_entries: "keyed s \<Longrightarrow> map (\<lambda>c. (pc_pubkey c, c)) (map snd s) = s"
  by (induction s) (auto simp: keyed_def)

lemma map_of_rev_distinct: "distinct (map fst s) \<Longrightarrow> map_of (rev s) = map_of s"
  by (rule map_of_eqI) (auto simp: rev_map [symmetric] map_of_eq_Some_iff image_iff)

text \<open>What a reload finds after a completed save is the set that was saved.\<close>

lemma reload_after_save:
  assumes "pinned_wf ps" and "fault = None"
  shows "\<exists>ps'. LoadPinnedStore (ps_disk (snd (pinned_save fault ps))) = Some ps'
           \<and> map_of (ps_set ps') = map_of (ps_set ps)"
proof -
  from assms(1) have "map_of (rev (map (\<lambda>c. (pc_pubkey c, c)) (map snd (ps_set ps)))) = map_of (ps_set ps)"
    unfolding pinned_wf_def keyed_def
    by (subst keyed_entries) (auto simp: keyed_def map_of_rev_distinct)
  then show ?thesis
    using assms(2) by (simp add: LoadPinnedStore_def pd_file_save map_of_fold_put)
qed

section \<open>The interface the pairing gate relies on\<close>

locale pin_store =
  fixes contains :: "string \<Rightarrow> 's \<Rightarrow> bool"
    and add :: "save_call option \<Rightarrow> string \<Rightarrow> string \<Rightarrow> 's \<Rightarrow> bool \<times> 's"
    and remove :: "save_call option \<Rightarrow> string \<Rightarrow> 's \<Rightarrow> bool \<times> 's"
    and reload :: "'s \<Rightarrow> 's option"
    and invar :: "'s \<Rightarrow> bool"
  assumes contains_add: "contains k' (snd (add f k n s)) \<longleftrightarrow> k' = k \<or> contains k' s"
    and contains_remove: "contains k' (snd (remove f k s)) \<longleftrightarrow> k' \<noteq> k \<and> contains k' s"
    and add_durable: "invar s \<Longrightarrow> fst (add f k n s) \<Longrightarrow>
          \<exists>t. reload (snd (add f k n s)) = Some t \<and> (\<forall>k'. contains k' t \<longleftrightarrow> contains k' (snd (add f k n s)))"
    and remove_durable: "invar s \<Longrightarrow> fst (remove f k s) \<Longrightarrow>
          \<exists>t. reload (snd (remove f k s)) = Some t \<and> (\<forall>k'. contains k' t \<longleftrightarrow> contains k' (snd (remove f k s)))"
    and invar_add: "invar s \<Longrightarrow> invar (snd (add f k n s))"
    and invar_remove: "invar s \<Longrightarrow> invar (snd (remove f k s))"
begin

lemma add_survives_restart:
  assumes "invar s" and "fst (add f k n s)"
  shows "\<exists>t. reload (snd (add f k n s)) = Some t \<and> contains k t"
  using add_durable [OF assms] contains_add by blast

lemma remove_survives_restart:
  assumes "invar s" and "fst (remove f k s)"
  shows "\<exists>t. reload (snd (remove f k s)) = Some t \<and> \<not> contains k t"
  using remove_durable [OF assms] contains_remove by blast

lemma add_keeps: "contains k' s \<Longrightarrow> contains k' (snd (add f k n s))"
  by (simp add: contains_add)

end

interpretation pin: pin_store
  pinned_Contains pinned_Add pinned_Remove "\<lambda>ps. LoadPinnedStore (ps_disk ps)" pinned_wf
proof
  fix s f k n
  assume wf: "pinned_wf s"
  let ?a = "s\<lparr>ps_set := pin_put k \<lparr>pc_pubkey = k, pc_name = n\<rparr> (ps_set s)\<rparr>"
  have "pinned_wf ?a" using wf by (simp add: pinned_wf_def)
  then show "\<exists>t. LoadPinnedStore (ps_disk (snd (pinned_Add f k n s))) = Some t
      \<and> (\<forall>k'. pinned_Contains k' t \<longleftrightarrow> pinned_Contains k' (snd (pinned_Add f k n s)))"
    if "fst (pinned_Add f k n s)"
    using that reload_after_save [of ?a f]
    by (auto simp: pinned_Add_def pinned_Contains_def pinned_save_ok_iff)
  let ?r = "s\<lparr>ps_set := pin_delete k (ps_set s)\<rparr>"
  have "pinned_wf ?r" using wf by (simp add: pinned_wf_def)
  then show "\<exists>t. LoadPinnedStore (ps_disk (snd (pinned_Remove f k s))) = Some t
      \<and> (\<forall>k'. pinned_Contains k' t \<longleftrightarrow> pinned_Contains k' (snd (pinned_Remove f k s)))"
    if "fst (pinned_Remove f k s)"
    using that reload_after_save [of ?r f]
    by (auto simp: pinned_Remove_def pinned_Contains_def pinned_save_ok_iff)
qed (simp_all add: inv_intros)

section \<open>Properties\<close>

text \<open>
  C26: enrolment and revocation survive a restart.  When \<open>Add\<close> (or \<open>Remove\<close>) reports
  success, loading the file afresh gives a store that contains exactly the keys of the
  one in memory, the added key included (the removed one not).
\<close>

theorem pinned_changes_durable:
  assumes "pinned_wf ps"
  shows "(fst (pinned_Add f k n ps) \<longrightarrow>
      (\<exists>t. LoadPinnedStore (ps_disk (snd (pinned_Add f k n ps))) = Some t \<and>
          (\<forall>k'. pinned_Contains k' t \<longleftrightarrow> k' = k \<or> pinned_Contains k' ps)))
    \<and> (fst (pinned_Remove f k ps) \<longrightarrow>
      (\<exists>t. LoadPinnedStore (ps_disk (snd (pinned_Remove f k ps))) = Some t \<and>
          (\<forall>k'. pinned_Contains k' t \<longleftrightarrow> k' \<noteq> k \<and> pinned_Contains k' ps)))"
  using pin.add_durable [OF assms, of f k n] pin.remove_durable [OF assms, of f k]
  by (simp_all add: pin.contains_add pin.contains_remove)

definition empty_pins :: PinnedStore where
  "empty_pins = \<lparr>ps_set = [], ps_disk = \<lparr>pd_file = Missing, pd_tmp = None\<rparr>\<rparr>"

lemma empty_pins_wf [simp]: "pinned_wf empty_pins"
  by (simp add: pinned_wf_def empty_pins_def)

theorem pinned_changes_durable_witness:
  "(\<exists>t. LoadPinnedStore (ps_disk (snd (pinned_Add None ''key'' [] empty_pins))) = Some t
       \<and> pinned_Contains ''key'' t)
   \<and> (\<exists>t. LoadPinnedStore (ps_disk (snd (pinned_Remove None ''key'' empty_pins))) = Some t
       \<and> \<not> pinned_Contains ''key'' t)"
proof -
  have "fst (pinned_Add None ''key'' [] empty_pins)" "fst (pinned_Remove None ''key'' empty_pins)"
    by (simp_all add: pinned_Add_def pinned_Remove_def pinned_save_ok_iff)
  then show ?thesis
    using pinned_changes_durable [OF empty_pins_wf, of None "''key''" "[]"] by blast
qed


end
