(* ===== verification/Pairing_Window.thy ===== *)
theory Pairing_Window
  imports Signal
begin

text \<open>
  \<open>internal/server/pairing_window.go\<close>: the one-time, time-boxed enrolment window.  The
  record, \<open>open\<close>, \<open>verify\<close>, \<open>Close\<close> and \<open>State\<close> are the source's, each one critical
  section of \<open>p.mu\<close>.  The abstract view below (\<open>phase\<close>) is what the window promises; the
  refinement lemmas show the four flags implement it, and the locale \<open>enrol_window\<close> is the
  interface the daemon and its local control API rely on.
\<close>

section \<open>The window\<close>

datatype pairResult = pairOK | pairNoWindow | pairExpired | pairUsed | pairBadProof

record pairingWindow =
  pw_secret :: string
  pw_expires :: gotime
  pw_consumed :: bool
  pw_cancelled :: bool

definition NewPairingWindow :: pairingWindow where
  "NewPairingWindow =
     \<lparr>pw_secret = [], pw_expires = 0, pw_consumed = False, pw_cancelled = False\<rparr>"

definition window_open ::
  "string \<Rightarrow> gotime \<Rightarrow> duration \<Rightarrow> pairingWindow \<Rightarrow> pairingWindow" where
  "window_open secret now ttl p =
     p\<lparr>pw_secret := secret, pw_expires := now + ttl,
       pw_consumed := False, pw_cancelled := False\<rparr>"

definition window_verify ::
  "crypto \<Rightarrow> string \<Rightarrow> string \<Rightarrow> string \<Rightarrow> gotime \<Rightarrow> pairingWindow
     \<Rightarrow> pairResult \<times> pairingWindow" where
  "window_verify C clientPubKey nonce proof now p =
     (if pw_consumed p then (pairUsed, p)
      else if pw_secret p = [] \<and> pw_expires p = 0 then (pairNoWindow, p)
      else if pw_expires p < now then (pairExpired, p)
      else if pw_cancelled p then (pairExpired, p)
      else if \<not> VerifyEnrollProof C (pw_secret p) clientPubKey nonce proof
      then (pairBadProof, p)
      else (pairOK, p\<lparr>pw_consumed := True, pw_secret := []\<rparr>))"

definition window_Close :: "pairingWindow \<Rightarrow> pairingWindow" where
  "window_Close p = p\<lparr>pw_secret := [], pw_cancelled := True\<rparr>"

definition window_State :: "gotime \<Rightarrow> pairingWindow \<Rightarrow> string" where
  "window_State now p =
     (if pw_consumed p then ''consumed''
      else if pw_secret p = [] \<and> pw_expires p = 0 then ''none''
      else if pw_cancelled p \<or> pw_expires p < now then ''expired''
      else ''open'')"

lemmas window_defs = NewPairingWindow_def window_open_def window_verify_def
  window_Close_def window_State_def

section \<open>The abstract view\<close>

text \<open>
  \<open>Never\<close> armed; \<open>Armed\<close> with a secret until a deadline; \<open>Used\<close> up by one pairing; \<open>Dead\<close>
  (cancelled).
\<close>

datatype phase = Never | Armed string gotime | Used | Dead

definition window_abs :: "pairingWindow \<Rightarrow> phase" where
  "window_abs p =
     (if pw_consumed p then Used
      else if pw_secret p = [] \<and> pw_expires p = 0 then Never
      else if pw_cancelled p then Dead
      else Armed (pw_secret p) (pw_expires p))"

text \<open>\<open>proves s k n pr\<close> says that \<open>pr\<close> shows knowledge of the secret \<open>s\<close>.\<close>

fun phase_verify ::
  "(string \<Rightarrow> string \<Rightarrow> string \<Rightarrow> string \<Rightarrow> bool) \<Rightarrow> string \<Rightarrow> string \<Rightarrow> string \<Rightarrow> gotime \<Rightarrow> phase
     \<Rightarrow> pairResult \<times> phase" where
  "phase_verify proves k n pr now Never = (pairNoWindow, Never)"
| "phase_verify proves k n pr now Used = (pairUsed, Used)"
| "phase_verify proves k n pr now Dead = (pairExpired, Dead)"
| "phase_verify proves k n pr now (Armed s d) =
     (if d < now then (pairExpired, Armed s d)
      else if proves s k n pr then (pairOK, Used)
      else (pairBadProof, Armed s d))"

fun phase_Close :: "phase \<Rightarrow> phase" where
  "phase_Close (Armed s d) = Dead"
| "phase_Close ph = ph"

fun phase_State :: "gotime \<Rightarrow> phase \<Rightarrow> string" where
  "phase_State now Never = ''none''"
| "phase_State now Used = ''consumed''"
| "phase_State now Dead = ''expired''"
| "phase_State now (Armed s d) = (if d < now then ''expired'' else ''open'')"

text \<open>A window is well formed when an armed or cancelled one has a real deadline.\<close>

definition window_wf :: "pairingWindow \<Rightarrow> bool" where
  "window_wf p \<longleftrightarrow> (pw_expires p = 0 \<longrightarrow> pw_secret p = [] \<and> \<not> pw_consumed p)"

lemma window_wf_new [inv_intros]: "window_wf NewPairingWindow"
  by (simp add: window_wf_def window_defs)

lemma window_wf_open [inv_intros]: "now + ttl \<noteq> 0 \<Longrightarrow> window_wf (window_open s now ttl p)"
  by (simp add: window_wf_def window_defs)

lemma window_wf_verify [inv_intros]:
  "window_wf p \<Longrightarrow> window_wf (snd (window_verify C k n pr now p))"
  by (auto simp: window_wf_def window_verify_def)

lemma window_wf_Close [inv_intros]: "window_wf p \<Longrightarrow> window_wf (window_Close p)"
  by (auto simp: window_wf_def window_defs)

lemma abs_new [simp]: "window_abs NewPairingWindow = Never"
  by (simp add: window_abs_def window_defs)

lemma abs_open: "now + ttl \<noteq> 0 \<Longrightarrow> window_abs (window_open s now ttl p) = Armed s (now + ttl)"
  by (simp add: window_abs_def window_defs)

lemma abs_verify:
  "map_prod id window_abs (window_verify C k n pr now p)
     = phase_verify (VerifyEnrollProof C) k n pr now (window_abs p)" if "window_wf p"
  using that by (auto simp: window_abs_def window_verify_def window_wf_def)

lemma abs_Close: "window_wf p \<Longrightarrow> window_abs (window_Close p) = phase_Close (window_abs p)"
  by (auto simp: window_abs_def window_defs window_wf_def)

lemma abs_State: "window_wf p \<Longrightarrow> window_State now p = phase_State now (window_abs p)"
  by (auto simp: window_abs_def window_defs window_wf_def)

section \<open>The interface: what a window promises its callers\<close>

locale enrol_window =
  fixes opn :: "string \<Rightarrow> gotime \<Rightarrow> duration \<Rightarrow> 'w \<Rightarrow> 'w"
    and vrf :: "string \<Rightarrow> string \<Rightarrow> string \<Rightarrow> gotime \<Rightarrow> 'w \<Rightarrow> pairResult \<times> 'w"
    and cls :: "'w \<Rightarrow> 'w"
    and st :: "gotime \<Rightarrow> 'w \<Rightarrow> string"
    and proves :: "string \<Rightarrow> string \<Rightarrow> string \<Rightarrow> string \<Rightarrow> bool"
    and absw :: "'w \<Rightarrow> phase"
    and invar :: "'w \<Rightarrow> bool"
  assumes absw_opn: "now + ttl \<noteq> 0 \<Longrightarrow> absw (opn s now ttl w) = Armed s (now + ttl)"
    and absw_vrf: "invar w \<Longrightarrow> map_prod id absw (vrf k n pr now w)
                     = phase_verify proves k n pr now (absw w)"
    and absw_cls: "invar w \<Longrightarrow> absw (cls w) = phase_Close (absw w)"
    and st_absw: "invar w \<Longrightarrow> st now w = phase_State now (absw w)"
    and invar_opn: "now + ttl \<noteq> 0 \<Longrightarrow> invar (opn s now ttl w)"
    and invar_vrf: "invar w \<Longrightarrow> invar (snd (vrf k n pr now w))"
    and invar_cls: "invar w \<Longrightarrow> invar (cls w)"
begin

lemma vrf_fst: "invar w \<Longrightarrow> fst (vrf k n pr now w) = fst (phase_verify proves k n pr now (absw w))"
  using absw_vrf [of w k n pr now] by (metis fst_map_prod id_apply)

lemma vrf_snd: "invar w \<Longrightarrow> absw (snd (vrf k n pr now w)) = snd (phase_verify proves k n pr now (absw w))"
  using absw_vrf [of w k n pr now] by (metis snd_map_prod)

lemma vrf_ok_iff:
  "invar w \<Longrightarrow> fst (vrf k n pr now w) = pairOK \<longleftrightarrow>
     (\<exists>s d. absw w = Armed s d \<and> now \<le> d \<and> proves s k n pr)"
  by (cases "absw w") (auto simp: vrf_fst)

lemma vrf_ok_uses_up:
  "invar w \<Longrightarrow> fst (vrf k n pr now w) = pairOK \<Longrightarrow> absw (snd (vrf k n pr now w)) = Used"
  by (cases "absw w") (auto simp: vrf_fst vrf_snd split: if_splits)

lemma vrf_not_ok_keeps:
  "invar w \<Longrightarrow> fst (vrf k n pr now w) \<noteq> pairOK \<Longrightarrow> absw (snd (vrf k n pr now w)) = absw w"
  by (cases "absw w") (auto simp: vrf_fst vrf_snd split: if_splits)

lemma st_open_iff:
  "invar w \<Longrightarrow> st now w = ''open'' \<longleftrightarrow> fst (vrf k n pr now w) \<in> {pairOK, pairBadProof}"
  by (cases "absw w") (auto simp: st_absw vrf_fst)

lemma st_consumed_iff:
  "invar w \<Longrightarrow> st now w = ''consumed'' \<longleftrightarrow> fst (vrf k n pr now w) = pairUsed"
  by (cases "absw w") (auto simp: st_absw vrf_fst)

lemma st_expired_iff:
  "invar w \<Longrightarrow> st now w = ''expired'' \<longleftrightarrow> fst (vrf k n pr now w) = pairExpired"
  by (cases "absw w") (auto simp: st_absw vrf_fst)

lemma st_none_iff:
  "invar w \<Longrightarrow> st now w = ''none'' \<longleftrightarrow> fst (vrf k n pr now w) = pairNoWindow"
  by (cases "absw w") (auto simp: st_absw vrf_fst)

end

interpretation win: enrol_window
  window_open "window_verify C" window_Close window_State "VerifyEnrollProof C" window_abs window_wf
  for C
  by unfold_locales (simp_all add: abs_open abs_verify abs_Close abs_State inv_intros)

section \<open>Histories\<close>

datatype window_op =
    OpOpen string gotime duration
  | OpVerify string string string gotime
  | OpClose

text \<open>
  An event is an operation with what it answered; the newest event is the head of the
  history.
\<close>

type_synonym window_event = "window_op \<times> pairResult option"

fun window_apply ::
  "crypto \<Rightarrow> window_op \<Rightarrow> pairingWindow \<Rightarrow> pairResult option \<times> pairingWindow" where
  "window_apply C (OpOpen s now ttl) p = (None, window_open s now ttl p)"
| "window_apply C (OpVerify k n pr now) p = map_prod Some id (window_verify C k n pr now p)"
| "window_apply C OpClose p = (None, window_Close p)"

fun window_run ::
  "crypto \<Rightarrow> window_op list \<Rightarrow> window_event list \<times> pairingWindow
     \<Rightarrow> window_event list \<times> pairingWindow" where
  "window_run C [] (h, p) = (h, p)"
| "window_run C (op # ops) (h, p) =
     (let (r, p') = window_apply C op p in window_run C ops ((op, r) # h, p'))"

fun op_wf :: "window_op \<Rightarrow> bool" where
  \<comment> \<open>the deadline of an opened window is not Go's zero time\<close>
  "op_wf (OpOpen s now ttl) \<longleftrightarrow> now + ttl \<noteq> 0"
| "op_wf _ \<longleftrightarrow> True"

text \<open>
  What the history says about the window: walk back to the newest operation that settles
  it.  Refused proofs settle nothing.
\<close>

fun settled :: "window_event list \<Rightarrow> phase" where
  "settled [] = Never"
| "settled ((OpOpen s now ttl, r) # h) = Armed s (now + ttl)"
| "settled ((OpClose, r) # h) = phase_Close (settled h)"
| "settled ((OpVerify k n pr now, r) # h) = (if r = Some pairOK then Used else settled h)"

lemma window_apply_step:
  assumes "window_wf p" and "op_wf op" and "window_abs p = settled h"
    and "window_apply C op p = (r, p')"
  shows "window_wf p' \<and> window_abs p' = settled ((op, r) # h)"
proof (cases op)
  case (OpOpen s now ttl)
  with assms show ?thesis by (auto simp: abs_open inv_intros)
next
  case OpClose
  with assms show ?thesis by (auto simp: abs_Close inv_intros)
next
  case (OpVerify k n pr now)
  with assms have r: "r = Some (fst (window_verify C k n pr now p))"
    and p': "p' = snd (window_verify C k n pr now p)"
    by (auto simp: map_prod_def split: prod.splits)
  with assms(1,3) OpVerify show ?thesis
    using win.vrf_ok_uses_up [of p C k n pr now] win.vrf_not_ok_keeps [of p C k n pr now]
    by (auto simp: inv_intros)
qed

lemma window_run_settled:
  assumes "window_wf p" and "window_abs p = settled h" and "list_all op_wf ops"
    and "window_run C ops (h, p) = (h', p')"
  shows "window_wf p' \<and> window_abs p' = settled h'"
  using assms
proof (induction ops arbitrary: h p)
  case (Cons op ops)
  obtain r q where "window_apply C op p = (r, q)" by fastforce
  with Cons window_apply_step [of p op h C r q] show ?case by auto
qed simp

lemma fresh_run_settled:
  assumes "list_all op_wf ops" and "window_run C ops ([], NewPairingWindow) = (h, p)"
  shows "window_wf p \<and> window_abs p = settled h"
  using window_run_settled [OF window_wf_new _ assms] by simp

definition is_ok :: "window_event \<Rightarrow> bool" where
  "is_ok e \<longleftrightarrow> snd e = Some pairOK"

definition is_open :: "window_event \<Rightarrow> bool" where
  "is_open e = (case fst e of OpOpen _ _ _ \<Rightarrow> True | _ \<Rightarrow> False)"

text \<open>Enrolments so far, plus one if the window is still armed, never exceed the openings.\<close>

definition spare :: "phase \<Rightarrow> nat" where
  "spare ph = (case ph of Armed _ _ \<Rightarrow> 1 | _ \<Rightarrow> 0)"

lemma spare_simps [simp]: "spare Never = 0" "spare Used = 0" "spare Dead = 0" "spare (Armed s d) = 1"
  by (simp_all add: spare_def)

lemma spare_Close [simp]: "spare (phase_Close ph) = 0"
  by (cases ph) auto

definition budget :: "window_event list \<Rightarrow> bool" where
  "budget h \<longleftrightarrow> length (filter is_ok h) + spare (settled h) \<le> length (filter is_open h)"

lemma window_apply_budget:
  assumes "window_wf p" and "window_abs p = settled h" and "window_apply C op p = (r, p')"
    and "budget h"
  shows "budget ((op, r) # h)"
proof (cases op)
  case (OpVerify k n pr now)
  with assms have r: "r = Some (fst (window_verify C k n pr now p))"
    by (auto simp: map_prod_def split: prod.splits)
  show ?thesis
  proof (cases "fst (window_verify C k n pr now p) = pairOK")
    case True
    then obtain s d where "settled h = Armed s d"
      using win.vrf_ok_iff [of p C k n pr now] assms(1,2) by auto
    with assms(4) r True OpVerify show ?thesis
      by (simp add: budget_def is_ok_def is_open_def)
  next
    case False
    with assms(4) r OpVerify show ?thesis
      by (simp add: budget_def is_ok_def is_open_def)
  qed
qed (use assms in \<open>auto simp: budget_def is_ok_def is_open_def\<close>)

lemma window_run_budget:
  assumes "window_wf p" and "window_abs p = settled h" and "list_all op_wf ops" and "budget h"
    and "window_run C ops (h, p) = (h', p')"
  shows "budget h'"
  using assms
proof (induction ops arbitrary: h p)
  case (Cons op ops)
  obtain r q where a: "window_apply C op p = (r, q)" by fastforce
  with Cons window_apply_step [of p op h C r q] window_apply_budget [of p h C op r q]
  show ?case by auto
qed simp

section \<open>Properties\<close>


definition sample_ops :: "window_op list" where
  "sample_ops =
     [OpOpen ''s'' 10 5, OpVerify ''k'' ''n'' (EnrollProof plain_crypto ''s'' ''k'' ''n'') 12,
      OpVerify ''k'' ''n'' (EnrollProof plain_crypto ''s'' ''k'' ''n'') 13]"


text \<open>
  An enrolment is accepted exactly when it is authorised.  After any history, a
  verification answers \<open>pairOK\<close> if and only if the newest settling event of the history is
  an opening with some secret, its deadline has not passed, nothing has cancelled or used
  the window since, and the proof is the MAC of this key and nonce under that secret.
\<close>

theorem window_ok_iff_authorised:
  assumes "list_all op_wf ops"
  shows "fst (window_verify C k n pr now (snd (window_run C ops ([], NewPairingWindow)))) = pairOK
     \<longleftrightarrow> (\<exists>S d. settled (fst (window_run C ops ([], NewPairingWindow))) = Armed S d
            \<and> now \<le> d \<and> VerifyEnrollProof C S k n pr)"
proof -
  obtain h p where run: "window_run C ops ([], NewPairingWindow) = (h, p)" by fastforce
  with assms have "window_wf p" "window_abs p = settled h"
    using fresh_run_settled by blast+
  with run show ?thesis by (simp add: win.vrf_ok_iff)
qed

theorem window_ok_iff_authorised_witness:
  "fst (window_verify plain_crypto ''k'' ''n'' (EnrollProof plain_crypto ''s'' ''k'' ''n'') 15
     (snd (window_run plain_crypto [OpOpen ''s'' 10 5] ([], NewPairingWindow)))) = pairOK"
proof -
  have "list_all op_wf [OpOpen ''s'' 10 5]" by simp
  from window_ok_iff_authorised [OF this, of plain_crypto "''k''" "''n''"
      "EnrollProof plain_crypto ''s'' ''k'' ''n''" 15]
  show ?thesis by (simp add: VerifyEnrollProof_def)
qed



end
