(* ===== verification/Rtc_Peer.thy ===== *)
theory Rtc_Peer
  imports Prelude "HOL-Library.Word"
begin

text \<open>
  \<open>internal/rtc/peer.go\<close>: one WebRTC peer connection per session.  The peer connection
  itself (pion) is not part of the repository: the outcomes of its calls are fields of a
  \<open>pc_env\<close> the operations take as an argument, and the candidates and frames the session
  hands it are recorded in order.  What is modelled is what \<open>peer.go\<close> adds: the buffer for
  candidates that arrive before the remote description, the switch between trickle and
  complete answers, the two data channels by label, and the close hook that fires once.
\<close>

section \<open>State\<close>

record ice_candidate_init =
  ci_candidate :: string
  ci_sdpMid :: "string option"
  ci_sdpMLineIndex :: "16 word option"

text \<open>What the session asked of pion, in order.\<close>

datatype pc_call =
    SetRemote string
  | AddICE ice_candidate_init
  | CreateAnswer
  | AwaitGathering
  | SetLocal
  | WriteSample string duration
  | PcClose

datatype dc_frame = TextFrame string | BinaryFrame string

datatype rtc_error = ErrNoControlChannel | ErrNoBulkChannel | ErrChannel

record session =
  s_onClose :: bool      \<comment> \<open>a close callback is registered\<close>
  s_onCtrlOpen :: bool
  s_onCand :: bool       \<comment> \<open>a candidate sink is registered: trickle mode\<close>
  s_ctrl :: "nat option" \<comment> \<open>the open "control" channel\<close>
  s_bulk :: "nat option" \<comment> \<open>the open "bulk" channel\<close>
  s_remoteSet :: bool
  s_pending :: "ice_candidate_init list"
  s_closeFired :: bool   \<comment> \<open>\<open>closeOnce\<close> is spent\<close>
  s_calls :: "pc_call list"

definition new_session :: session where
  "new_session =
     \<lparr>s_onClose = False, s_onCtrlOpen = False, s_onCand = False, s_ctrl = None, s_bulk = None,
      s_remoteSet = False, s_pending = [], s_closeFired = False, s_calls = []\<rparr>"

text \<open>How the peer connection answers during one call.\<close>

record pc_env =
  pe_setRemote :: "string option"      \<comment> \<open>\<open>Some e\<close>: fails with \<open>e\<close>\<close>
  pe_createAnswer :: "string option"
  pe_setLocal :: "string option"
  pe_localSDP :: string

section \<open>Operations\<close>

text \<open>
  \<open>New\<close>: making the connection, making the track and adding it can each fail; the last two
  close the connection they leave behind.  The second component is what pion is asked
  besides.
\<close>

record new_env =
  ne_connection :: "string option"
  ne_track :: "string option"
  ne_addTrack :: "string option"

definition session_New :: "new_env \<Rightarrow> (string + session) \<times> pc_call list" where
  "session_New env =
     (case ne_connection env of
        Some e \<Rightarrow> (Inl e, [])
      | None \<Rightarrow>
          (case ne_track env of
             Some e \<Rightarrow> (Inl e, [PcClose])
           | None \<Rightarrow>
               (case ne_addTrack env of
                  Some e \<Rightarrow> (Inl e, [PcClose])
                | None \<Rightarrow> (Inr new_session, []))))"

definition calls :: "pc_call list \<Rightarrow> session \<Rightarrow> session" where
  "calls cs s = s\<lparr>s_calls := s_calls s @ cs\<rparr>"

definition session_Answer :: "pc_env \<Rightarrow> string \<Rightarrow> session \<Rightarrow> (string + string) \<times> session" where
  "session_Answer env offerSDP s =
     (let s = calls [SetRemote offerSDP] s in
      case pe_setRemote env of
        Some e \<Rightarrow> (Inl e, s)
      | None \<Rightarrow>
          (let pending = s_pending s; trickle = s_onCand s;
               s = calls (map AddICE pending) (s\<lparr>s_remoteSet := True, s_pending := []\<rparr>);
               s = calls [CreateAnswer] s in
           case pe_createAnswer env of
             Some e \<Rightarrow> (Inl e, s)
           | None \<Rightarrow>
               (if trickle then
                  (let s = calls [SetLocal] s in
                   case pe_setLocal env of Some e \<Rightarrow> (Inl e, s) | None \<Rightarrow> (Inr (pe_localSDP env), s))
                else
                  (let s = calls [SetLocal] s in
                   case pe_setLocal env of
                     Some e \<Rightarrow> (Inl e, s)
                   | None \<Rightarrow> (Inr (pe_localSDP env), calls [AwaitGathering] s)))))"

definition session_OnCandidate :: "session \<Rightarrow> session" where
  "session_OnCandidate s = s\<lparr>s_onCand := True\<rparr>"

definition maxPendingCands :: nat where "maxPendingCands = 64"

definition session_AddCandidate :: "ice_candidate_init \<Rightarrow> session \<Rightarrow> session" where
  "session_AddCandidate c s =
     (if \<not> s_remoteSet s then
        (if length (s_pending s) < maxPendingCands
         then s\<lparr>s_pending := s_pending s @ [c]\<rparr> else s)
      else calls [AddICE c] s)"

text \<open>Its error: none while buffering, then whatever pion answers; the callers only log it.\<close>

definition AddCandidate_error :: "string option \<Rightarrow> session \<Rightarrow> string option" where
  "AddCandidate_error pionErr s = (if s_remoteSet s then pionErr else None)"

definition session_WriteFrame :: "string \<Rightarrow> duration \<Rightarrow> session \<Rightarrow> session" where
  "session_WriteFrame data dur s = calls [WriteSample data dur] s"

text \<open>\<open>MaxMessageSize\<close>: 0 before the SCTP association, then the cap it negotiated.\<close>

definition MaxMessageSize :: "nat option \<Rightarrow> nat" where
  "MaxMessageSize sctp = (case sctp of None \<Rightarrow> 0 | Some n \<Rightarrow> n)"

text \<open>A data channel opened by the peer is kept by its label; any other label is ignored.\<close>

definition session_OnDataChannel :: "string \<Rightarrow> nat \<Rightarrow> session \<Rightarrow> session" where
  "session_OnDataChannel label dc s =
     (if label = ''control'' then s\<lparr>s_ctrl := Some dc\<rparr>
      else if label = ''bulk'' then s\<lparr>s_bulk := Some dc\<rparr>
      else s)"

text \<open>
  What the callbacks of a channel do: whether the hook for an open control channel runs, and
  which of the two handlers given to \<open>New\<close> (each may be nil) gets a message.
\<close>

definition session_OnOpen :: "string \<Rightarrow> session \<Rightarrow> bool" where
  "session_OnOpen label s \<longleftrightarrow> label = ''control'' \<and> s_onCtrlOpen s"

definition session_OnMessage :: "'h option \<Rightarrow> 'h option \<Rightarrow> string \<Rightarrow> 'h option" where
  "session_OnMessage onControl onBulk label =
     (if label = ''control'' then onControl else if label = ''bulk'' then onBulk else None)"

text \<open>Sends name the channel and the frame; \<open>Send\<close> and \<open>SendBulkText\<close> write text frames.\<close>

definition session_Send :: "string \<Rightarrow> session \<Rightarrow> rtc_error + nat \<times> dc_frame" where
  "session_Send b s =
     (case s_ctrl s of None \<Rightarrow> Inl ErrNoControlChannel | Some dc \<Rightarrow> Inr (dc, TextFrame b))"

definition session_SendBulk :: "string \<Rightarrow> session \<Rightarrow> rtc_error + nat \<times> dc_frame" where
  "session_SendBulk b s =
     (case s_bulk s of None \<Rightarrow> Inl ErrNoBulkChannel | Some dc \<Rightarrow> Inr (dc, BinaryFrame b))"

definition session_SendBulkText :: "string \<Rightarrow> session \<Rightarrow> rtc_error + nat \<times> dc_frame" where
  "session_SendBulkText b s =
     (case s_bulk s of None \<Rightarrow> Inl ErrNoBulkChannel | Some dc \<Rightarrow> Inr (dc, TextFrame b))"

definition session_OnClose :: "session \<Rightarrow> session" where
  "session_OnClose s = s\<lparr>s_onClose := True\<rparr>"

definition session_OnControlOpen :: "session \<Rightarrow> session" where
  "session_OnControlOpen s = s\<lparr>s_onCtrlOpen := True\<rparr>"

text \<open>\<open>fireClose\<close>: whether the callback runs, and the spent \<open>closeOnce\<close>.\<close>

definition session_fireClose :: "session \<Rightarrow> bool \<times> session" where
  "session_fireClose s =
     (if s_closeFired s then (False, s) else (s_onClose s, s\<lparr>s_closeFired := True\<rparr>))"

datatype pc_state = PcNew | PcConnecting | PcConnected | PcDisconnected | PcFailed | PcClosed

text \<open>A connected peer is only logged, with the types of the selected candidates.\<close>

definition connected_log :: "string option \<Rightarrow> (string option \<times> string option \<times> string) option \<Rightarrow> string" where
  "connected_log err pair =
     (case (err, pair) of
        (None, Some (l, r, text)) \<Rightarrow>
          ''rtc: connected, selected candidate pair local='' @ (case l of None \<Rightarrow> ''?'' | Some t \<Rightarrow> t) @
          '' remote='' @ (case r of None \<Rightarrow> ''?'' | Some t \<Rightarrow> t) @ '' ('' @ text @ '')''
      | _ \<Rightarrow> ''rtc: connected, no selected candidate pair (err='' @
              (case err of None \<Rightarrow> ''<nil>'' | Some e \<Rightarrow> e) @ '')'')"

definition session_OnStateChange :: "pc_state \<Rightarrow> session \<Rightarrow> bool \<times> session" where
  "session_OnStateChange st s =
     (if st \<in> {PcFailed, PcClosed, PcDisconnected} then session_fireClose s else (False, s))"

definition session_Close :: "session \<Rightarrow> session" where
  "session_Close s = calls [PcClose] s"

lemmas session_defs = new_session_def calls_def session_Answer_def session_OnCandidate_def
  session_AddCandidate_def session_OnDataChannel_def session_Send_def session_SendBulk_def
  session_SendBulkText_def session_OnClose_def session_OnControlOpen_def
  session_fireClose_def session_OnStateChange_def session_Close_def

section \<open>The close hook\<close>

text \<open>The states a connection goes through, and which of them run the hook.\<close>

fun state_changes :: "pc_state list \<Rightarrow> session \<Rightarrow> bool list" where
  "state_changes [] s = []"
| "state_changes (st # sts) s =
     (let (ran, s') = session_OnStateChange st s in ran # state_changes sts s')"

lemma spent_hook_is_silent: "s_closeFired s \<Longrightarrow> True \<notin> set (state_changes sts s)"
  by (induction sts) (auto simp: session_OnStateChange_def session_fireClose_def)

text \<open>The hook runs in the first terminal state, if any, and never again.\<close>

theorem close_hook_once:
  "s_onClose s \<Longrightarrow> \<not> s_closeFired s \<Longrightarrow>
     length (filter id (state_changes sts s)) =
       (if \<exists>st \<in> set sts. st \<in> {PcFailed, PcClosed, PcDisconnected} then 1 else 0)"
proof (induction sts arbitrary: s)
  case (Cons st sts)
  show ?case
  proof (cases "st \<in> {PcFailed, PcClosed, PcDisconnected}")
    case True
    then have "session_OnStateChange st s = (True, s\<lparr>s_closeFired := True\<rparr>)"
      using Cons.prems by (simp add: session_OnStateChange_def session_fireClose_def)
    then show ?thesis
      using True spent_hook_is_silent [of "s\<lparr>s_closeFired := True\<rparr>" sts]
      by (auto simp: filter_empty_conv)
  next
    case False
    then have "session_OnStateChange st s = (False, s)" by (simp add: session_OnStateChange_def)
    then show ?thesis using Cons False by simp
  qed
qed simp

theorem close_hook_once_witness:
  "length (filter id (state_changes [PcConnected, PcDisconnected, PcFailed, PcClosed] (session_OnClose new_session))) = 1"
  using close_hook_once [of "session_OnClose new_session" "[PcConnected, PcDisconnected, PcFailed, PcClosed]"]
  by (simp add: session_OnClose_def new_session_def)

section \<open>Invariant\<close>

definition added :: "session \<Rightarrow> ice_candidate_init list" where
  "added s = List.map_filter (\<lambda>c. case c of AddICE i \<Rightarrow> Some i | _ \<Rightarrow> None) (s_calls s)"

text \<open>
  Before the remote description nothing is handed to pion and at most
  \<open>maxPendingCands\<close> candidates wait; afterwards none wait.
\<close>

definition session_inv :: "session \<Rightarrow> bool" where
  "session_inv s \<longleftrightarrow>
     (if s_remoteSet s then s_pending s = []
      else added s = [] \<and> length (s_pending s) \<le> maxPendingCands)"

lemma map_filter_append:
  "List.map_filter f (xs @ ys) = List.map_filter f xs @ List.map_filter f ys"
  by (induction xs) (auto simp: List.map_filter_simps split: option.splits)

lemma map_filter_AddICE [simp]:
  "List.map_filter (\<lambda>c. case c of AddICE i \<Rightarrow> Some i | _ \<Rightarrow> None) (map AddICE cs) = cs"
  by (induction cs) (auto simp: List.map_filter_simps)

lemma added_calls: "added (calls cs s) =
   added s @ List.map_filter (\<lambda>c. case c of AddICE i \<Rightarrow> Some i | _ \<Rightarrow> None) cs"
  by (simp add: added_def calls_def map_filter_append)

lemma added_upd [simp]:
  "added (s\<lparr>s_remoteSet := b\<rparr>) = added s" "added (s\<lparr>s_pending := p\<rparr>) = added s"
  "added (s\<lparr>s_onCand := b\<rparr>) = added s" "added (s\<lparr>s_onClose := b\<rparr>) = added s"
  by (simp_all add: added_def)

lemma calls_sel [simp]:
  "s_remoteSet (calls cs s) = s_remoteSet s" "s_pending (calls cs s) = s_pending s"
  "s_onCand (calls cs s) = s_onCand s"
  by (simp_all add: calls_def)

lemma session_inv_new [inv_intros]: "session_inv new_session"
  by (simp add: session_inv_def new_session_def added_def List.map_filter_simps)

lemma session_inv_AddCandidate [inv_intros]:
  "session_inv s \<Longrightarrow> session_inv (session_AddCandidate c s)"
  by (auto simp: session_inv_def session_AddCandidate_def)

lemma session_inv_Answer [inv_intros]:
  "session_inv s \<Longrightarrow> session_inv (snd (session_Answer env off s))"
  by (auto simp: session_inv_def session_Answer_def Let_def added_calls List.map_filter_simps
      split: option.splits)

lemma session_inv_OnCandidate [inv_intros]:
  "session_inv s \<Longrightarrow> session_inv (session_OnCandidate s)"
  by (simp add: session_inv_def session_OnCandidate_def)

text \<open>The candidates a session has taken in: those given to pion, then those waiting.\<close>

definition taken :: "session \<Rightarrow> ice_candidate_init list" where
  "taken s = added s @ s_pending s"

lemma taken_AddCandidate:
  "session_inv s \<Longrightarrow> taken (session_AddCandidate c s) =
     (if s_remoteSet s \<or> length (s_pending s) < maxPendingCands then taken s @ [c] else taken s)"
  by (auto simp: taken_def session_AddCandidate_def session_inv_def added_calls List.map_filter_simps)

lemma taken_Answer: "session_inv s \<Longrightarrow> taken (snd (session_Answer env off s)) = taken s"
  by (auto simp: taken_def session_Answer_def Let_def session_inv_def added_calls
      List.map_filter_simps split: option.splits)

lemma remoteSet_Answer:
  "s_remoteSet (snd (session_Answer env off s)) \<longleftrightarrow> s_remoteSet s \<or> pe_setRemote env = None"
  by (auto simp: session_Answer_def Let_def split: option.splits)

section \<open>Candidates around the answer\<close>

text \<open>
  A run of the session as the daemon drives it: candidates before the offer, the answer,
  candidates after it.
\<close>

definition candidate_run ::
  "pc_env \<Rightarrow> string \<Rightarrow> ice_candidate_init list \<Rightarrow> ice_candidate_init list \<Rightarrow> session \<Rightarrow> session" where
  "candidate_run env off early late s =
     fold session_AddCandidate late
       (snd (session_Answer env off (fold session_AddCandidate early s)))"

lemma fold_AddCandidate_before:
  assumes "session_inv s" and "\<not> s_remoteSet s"
  shows "session_inv (fold session_AddCandidate cs s) \<and> \<not> s_remoteSet (fold session_AddCandidate cs s)
     \<and> s_pending (fold session_AddCandidate cs s) = take maxPendingCands (s_pending s @ cs)
     \<and> added (fold session_AddCandidate cs s) = added s"
  using assms
proof (induction cs arbitrary: s)
  case Nil
  then show ?case by (simp add: session_inv_def)
next
  case (Cons c cs)
  have inv: "session_inv (session_AddCandidate c s)" "\<not> s_remoteSet (session_AddCandidate c s)"
    using Cons.prems by (simp_all add: inv_intros, simp add: session_AddCandidate_def)
  moreover have "take maxPendingCands (s_pending (session_AddCandidate c s) @ cs)
      = take maxPendingCands (s_pending s @ c # cs)"
    using Cons.prems by (auto simp: session_AddCandidate_def session_inv_def take_Cons')
  moreover have "added (session_AddCandidate c s) = added s"
    using Cons.prems by (simp add: session_AddCandidate_def)
  ultimately show ?case using Cons.IH [OF inv] by simp
qed

lemma fold_AddCandidate_after:
  "session_inv s \<Longrightarrow> s_remoteSet s \<Longrightarrow>
     added (fold session_AddCandidate cs s) = added s @ cs \<and> s_pending (fold session_AddCandidate cs s) = []"
  by (induction cs arbitrary: s)
    (auto simp: session_AddCandidate_def session_inv_def added_calls List.map_filter_simps)

text \<open>
  C32: no candidate is handed to the peer connection before the remote description, and
  none is reordered or lost around the answer.  When the remote description is accepted,
  pion gets the first 64 candidates that came ahead of the offer, in order, followed by
  every later one, in order; when it is refused, pion gets nothing at all.
\<close>

theorem candidates_in_order:
  "added (candidate_run env off early late new_session) =
     (if pe_setRemote env = None then take maxPendingCands early @ late else [])"
proof -
  let ?s = "fold session_AddCandidate early new_session"
  have s: "session_inv ?s" "\<not> s_remoteSet ?s" "s_pending ?s = take maxPendingCands early" "added ?s = []"
    using fold_AddCandidate_before [of new_session early]
    by (simp_all add: inv_intros, simp_all add: new_session_def added_def List.map_filter_simps)
  let ?t = "snd (session_Answer env off ?s)"
  have t: "session_inv ?t" "taken ?t = take maxPendingCands early"
    using s by (simp_all add: inv_intros taken_Answer, simp add: taken_def)
  show ?thesis
  proof (cases "pe_setRemote env")
    case None
    with s have "s_remoteSet ?t" by (simp add: remoteSet_Answer)
    moreover from this t have "added ?t = take maxPendingCands early"
      by (simp add: taken_def session_inv_def)
    ultimately show ?thesis
      using None fold_AddCandidate_after [OF t(1)] by (simp add: candidate_run_def)
  next
    case (Some e)
    with s have "\<not> s_remoteSet ?t" by (simp add: remoteSet_Answer)
    then show ?thesis
      using Some t fold_AddCandidate_before [OF t(1), of late]
      by (simp add: candidate_run_def session_inv_def)
  qed
qed

end
