(* ===== verification/Backend.thy ===== *)
theory Backend
  imports Prelude
begin

text \<open>
  \<open>internal/server/backend.go\<close>: the video quality a client asks for, the typed attach
  failure, the gesture record, and the contract every backend keeps with the session
  layer.  A \<open>float64\<close> is a \<open>rat\<close>: every finite float is one, JSON carries no others, and
  the operations here only compare.
\<close>

section \<open>Quality\<close>

definition MinScale :: rat where "MinScale = 1 / 4"
definition MaxScale :: rat where "MaxScale = 1"
definition MinBitrate :: int where "MinBitrate = 500000"
definition MaxBitrate :: int where "MaxBitrate = 16000000"
definition DefaultBitrate :: int where "DefaultBitrate = 8000000"

lemmas quality_bounds = MinScale_def MaxScale_def MinBitrate_def MaxBitrate_def DefaultBitrate_def

record QualityOpts =
  q_scale :: rat
  q_bitrate :: int

definition Resolve :: "rat \<Rightarrow> QualityOpts \<Rightarrow> QualityOpts" where
  "Resolve defScale q =
     (let sc = (if q_scale q \<le> 0 then defScale else q_scale q);
          br = (if q_bitrate q \<le> 0 then DefaultBitrate else q_bitrate q)
      in \<lparr>q_scale = min (max sc MinScale) MaxScale,
          q_bitrate = min (max br MinBitrate) MaxBitrate\<rparr>)"

definition quality_in_range :: "QualityOpts \<Rightarrow> bool" where
  "quality_in_range q \<longleftrightarrow>
     MinScale \<le> q_scale q \<and> q_scale q \<le> MaxScale \<and>
     MinBitrate \<le> q_bitrate q \<and> q_bitrate q \<le> MaxBitrate"

lemma Resolve_in_range: "quality_in_range (Resolve s q)"
  by (auto simp: Resolve_def quality_in_range_def quality_bounds Let_def)

lemma Resolve_fixes_in_range: "quality_in_range q \<Longrightarrow> Resolve s q = q"
  by (auto simp: Resolve_def quality_in_range_def quality_bounds Let_def)

lemma Resolve_Resolve: "Resolve s (Resolve t q) = Resolve t q"
  by (rule Resolve_fixes_in_range [OF Resolve_in_range])

section \<open>Errors and gestures\<close>

text \<open>
  Go errors as the session layer tells them apart: a typed \<open>*AttachError\<close>, an opaque error,
  or one of these wrapped with \<open>%w\<close> (\<open>errors.As\<close> looks through the wrapping).
\<close>

datatype go_error =
    AttachError (ae_code: string) (ae_msg: string) (ae_retryable: bool)
  | OtherError string
  | Wrapped string go_error

fun error_text :: "go_error \<Rightarrow> string" where
  "error_text (AttachError c m r) = m"
| "error_text (OtherError m) = m"
| "error_text (Wrapped m e) = m @ '': '' @ error_text e"

fun as_attach_error :: "go_error \<Rightarrow> (string \<times> string \<times> bool) option" where
  "as_attach_error (AttachError c m r) = Some (c, m, r)"
| "as_attach_error (OtherError m) = None"
| "as_attach_error (Wrapped m e) = as_attach_error e"

record Input =
  in_type :: string
  in_action :: string
  in_x :: rat
  in_y :: rat
  in_x1 :: rat
  in_y1 :: rat
  in_x2 :: rat
  in_y2 :: rat
  in_duration :: rat
  in_key :: string

section \<open>The interface: what a backend does with the quality it is given\<close>

text \<open>
  A backend has a default scale inside the bounds and encodes at the resolved quality.
  What the session layer then relies on is that resolving a request before handing it
  over changes nothing about what the backend applies.
\<close>

locale video_backend =
  fixes default_scale :: rat
    and encoded_at :: "QualityOpts \<Rightarrow> QualityOpts"
  assumes default_in_range: "MinScale \<le> default_scale \<and> default_scale \<le> MaxScale"
    and encoded_resolved: "encoded_at q = Resolve default_scale q"
begin

lemma echo_is_applied: "encoded_at (Resolve default_scale q) = Resolve default_scale q"
  by (simp add: encoded_resolved Resolve_Resolve)

lemma encoded_in_range: "quality_in_range (encoded_at q)"
  by (simp add: encoded_resolved Resolve_in_range)

lemma unset_takes_default:
  assumes "q_scale q \<le> 0" and "q_bitrate q \<le> 0"
  shows "encoded_at q = \<lparr>q_scale = default_scale, q_bitrate = DefaultBitrate\<rparr>"
  using assms default_in_range
  by (auto simp: encoded_resolved Resolve_def quality_bounds Let_def)

end

end
