(* ===== verification/Go_Json.thy ===== *)
theory Go_Json
  imports Go_Strings
begin

text \<open>
  The output half of Go's \<open>encoding/json\<close> and of \<open>unicode/utf8\<close>, as far as the program
  depends on the number of bytes written: a string is quoted with HTML escaping (the
  package's default), control bytes become short or six-byte escapes, bytes that are not
  UTF-8 become the replacement escape.  The input half is \<open>Go_Json_Read\<close> and
  \<open>Go_Json_Decode\<close>; the handlers take the decoded message, or \<open>None\<close> where it fails.
\<close>

section \<open>UTF-8\<close>

definition is_cont :: "nat \<Rightarrow> bool" where
  "is_cont b \<longleftrightarrow> 128 \<le> b \<and> b \<le> 191"

fun rune_len :: "nat list \<Rightarrow> nat option" where
  \<comment> \<open>the length of the valid code point at the front; \<open>None\<close> at an invalid byte\<close>
  "rune_len [] = None"
| "rune_len (b # r) =
     (if b < 128 then Some 1
      else if 194 \<le> b \<and> b \<le> 223 then
        (case r of c # _ \<Rightarrow> if is_cont c then Some 2 else None | _ \<Rightarrow> None)
      else if 224 \<le> b \<and> b \<le> 239 then
        (case r of
           c # d # _ \<Rightarrow>
             if is_cont c \<and> is_cont d \<and> (b = 224 \<longrightarrow> 160 \<le> c) \<and> (b = 237 \<longrightarrow> c \<le> 159)
             then Some 3 else None
         | _ \<Rightarrow> None)
      else if 240 \<le> b \<and> b \<le> 244 then
        (case r of
           c # d # e # _ \<Rightarrow>
             if is_cont c \<and> is_cont d \<and> is_cont e \<and> (b = 240 \<longrightarrow> 144 \<le> c) \<and> (b = 244 \<longrightarrow> c \<le> 143)
             then Some 4 else None
         | _ \<Rightarrow> None)
      else None)"

definition bytes_of :: "string \<Rightarrow> nat list" where
  "bytes_of s = map of_char s"

lemma rune_len_bounds: "rune_len bs = Some n \<Longrightarrow> 0 < n \<and> n \<le> length bs \<and> n \<le> 4"
  by (cases bs) (auto split: if_splits list.splits)

lemma rune_len_ascii [simp]: "b < 128 \<Longrightarrow> rune_len (b # r) = Some 1"
  by simp

text \<open>\<open>strings.ToValidUTF8(s, "")\<close>: every invalid byte is dropped.\<close>

function to_valid_utf8 :: "string \<Rightarrow> string" where
  "to_valid_utf8 s =
     (if s = [] then []
      else (case rune_len (bytes_of s) of
              None \<Rightarrow> to_valid_utf8 (drop 1 s)
            | Some n \<Rightarrow> take n s @ to_valid_utf8 (drop n s)))"
  by pat_completeness auto
termination
  by (relation "measure length") (auto dest: rune_len_bounds)

declare to_valid_utf8.simps [simp del]

lemma length_to_valid_utf8: "length (to_valid_utf8 s) \<le> length s"
proof (induction s rule: to_valid_utf8.induct)
  case (1 s)
  show ?case
  proof (cases "s = []")
    case False
    show ?thesis
    proof (cases "rune_len (bytes_of s)")
      case None
      with 1(1) False have "length (to_valid_utf8 (drop 1 s)) \<le> length (drop 1 s)" by simp
      with None False show ?thesis by (subst to_valid_utf8.simps) simp
    next
      case (Some n)
      then have "n \<le> length s" using rune_len_bounds [of "bytes_of s" n] by (simp add: bytes_of_def)
      moreover from 1(2) Some False have "length (to_valid_utf8 (drop n s)) \<le> length (drop n s)" by simp
      ultimately show ?thesis using Some False by (subst to_valid_utf8.simps) simp
    qed
  qed (simp add: to_valid_utf8.simps)
qed

lemma to_valid_utf8_ascii: "(\<forall>c \<in> set s. (of_char c :: nat) < 128) \<Longrightarrow> to_valid_utf8 s = s"
  by (induction s) (simp_all add: to_valid_utf8.simps [of "_ # _"] to_valid_utf8.simps [of "[]"] bytes_of_def)

section \<open>Strings\<close>

definition hex_digit :: "nat \<Rightarrow> char" where
  "hex_digit d = char_of (if d < 10 then 48 + d else 87 + d)"

definition json_safe :: "nat \<Rightarrow> bool" where
  \<comment> \<open>\<open>htmlSafeSet\<close>: printed as they are\<close>
  "json_safe b \<longleftrightarrow> 32 \<le> b \<and> b < 128 \<and> b \<notin> {34, 38, 60, 62, 92}"

definition json_escape_byte :: "nat \<Rightarrow> string" where
  "json_escape_byte b =
     (if b = 92 \<or> b = 34 then [CHR 0x5C, char_of b]
      else if b = 8 then [CHR 0x5C, CHR ''b'']
      else if b = 12 then [CHR 0x5C, CHR ''f'']
      else if b = 10 then [CHR 0x5C, CHR ''n'']
      else if b = 13 then [CHR 0x5C, CHR ''r'']
      else if b = 9 then [CHR 0x5C, CHR ''t'']
      else CHR 0x5C # ''u00'' @ [hex_digit (b div 16), hex_digit (b mod 16)])"

function json_escape :: "string \<Rightarrow> string" where
  "json_escape s =
     (case s of
        [] \<Rightarrow> []
      | c # cs \<Rightarrow>
          (let b = of_char c :: nat in
           if b < 128 then
             (if json_safe b then [c] else json_escape_byte b) @ json_escape cs
           else
             (case rune_len (bytes_of s) of
                None \<Rightarrow> CHR 0x5C # ''ufffd'' @ json_escape cs
              | Some n \<Rightarrow>
                  (if take n (bytes_of s) = [226, 128, 168] then CHR 0x5C # ''u2028''
                   else if take n (bytes_of s) = [226, 128, 169] then CHR 0x5C # ''u2029''
                   else take n s) @ json_escape (drop n s))))"
  by pat_completeness auto
termination
  by (relation "measure length") (auto dest: rune_len_bounds)

declare json_escape.simps [simp del]

definition json_string :: "string \<Rightarrow> string" where
  "json_string s = CHR 0x22 # json_escape s @ [CHR 0x22]"

lemma json_escape_Nil [simp]: "json_escape [] = []"
  by (simp add: json_escape.simps)

lemma json_escape_ascii:
  "(of_char c :: nat) < 128 \<Longrightarrow>
     json_escape (c # cs) =
       (if json_safe (of_char c) then [c] else json_escape_byte (of_char c)) @ json_escape cs"
  by (subst json_escape.simps) (simp add: Let_def)

lemma length_escape_byte: "length (json_escape_byte b) \<le> 6"
  by (simp add: json_escape_byte_def)

text \<open>Escaping at most multiplies the length by six.\<close>

lemma length_json_escape: "length (json_escape s) \<le> 6 * length s"
proof (induction s rule: json_escape.induct)
  case (1 s)
  show ?case
  proof (cases s)
    case (Cons c cs)
    let ?b = "of_char c :: nat"
    consider "?b < 128" | "128 \<le> ?b" "rune_len (bytes_of s) = None"
      | n where "128 \<le> ?b" "rune_len (bytes_of s) = Some n" by fastforce
    then show ?thesis
    proof cases
      case 1
      with "1.IH"(1) [OF Cons refl] show ?thesis
        using length_escape_byte [of ?b] by (simp add: Cons json_escape_ascii)
    next
      case 2
      with "1.IH"(2) [OF Cons refl] show ?thesis
        by (subst json_escape.simps) (simp add: Cons)
    next
      case 3
      then have n: "0 < n" "n \<le> length s"
        using rune_len_bounds [of "bytes_of s" n] by (auto simp: bytes_of_def)
      with 3 "1.IH"(3) [OF Cons refl _ 3(2)] have "length (json_escape (drop n s)) \<le> 6 * (length s - n)"
        by simp
      moreover have "length (json_escape s) \<le> 6 * n + length (json_escape (drop n s))"
        using 3 n Cons by (subst json_escape.simps) (auto simp: Let_def)
      ultimately show ?thesis using n by simp
    qed
  qed simp
qed

lemma json_escape_safe:
  "(\<forall>c \<in> set s. json_safe (of_char c)) \<Longrightarrow> json_escape s = s"
proof (induction s)
  case (Cons c cs)
  then show ?case by (simp add: json_escape_ascii json_safe_def)
qed simp

section \<open>Objects and arrays\<close>

definition json_field :: "string \<Rightarrow> string \<Rightarrow> string" where
  "json_field k v = json_string k @ '':'' @ v"

definition json_object :: "string list \<Rightarrow> string" where
  "json_object fs = CHR 0x7B # join_with '','' fs @ [CHR 0x7D]"

definition json_array :: "string list \<Rightarrow> string" where
  "json_array vs = ''['' @ join_with '','' vs @ '']''"

definition json_bool :: "bool \<Rightarrow> string" where
  "json_bool b = (if b then ''true'' else ''false'')"

definition opt_string :: "string \<Rightarrow> string \<Rightarrow> string list" where
  \<comment> \<open>a string field tagged \<open>omitempty\<close>\<close>
  "opt_string k v = (if v = [] then [] else [json_field k (json_string v)])"

definition opt_bool :: "string \<Rightarrow> bool \<Rightarrow> string list" where
  "opt_bool k v = (if v then [json_field k (json_bool v)] else [])"

definition opt_nat :: "string \<Rightarrow> nat \<Rightarrow> string list" where
  "opt_nat k v = (if v = 0 then [] else [json_field k (dec_digits v)])"

definition opt_strings :: "string \<Rightarrow> string list \<Rightarrow> string list" where
  "opt_strings k vs = (if vs = [] then [] else [json_field k (json_array (map json_string vs))])"

lemma length_join: "length (join_with '','' ps) \<le> sum_list (map length ps) + length ps"
  by (induction "'',''" ps rule: join_with.induct) auto

lemma length_json_object:
  "length (json_object fs) \<le> sum_list (map length fs) + length fs + 2"
  using length_join [of fs] by (simp add: json_object_def)

lemma length_join_member: "f \<in> set fs \<Longrightarrow> length f \<le> length (join_with '','' fs)"
  by (induction "'',''" fs rule: join_with.induct) auto

lemma length_object_member: "f \<in> set fs \<Longrightarrow> length f < length (json_object fs)"
  using length_join_member [of f fs] by (simp add: json_object_def)

end
