(* ===== verification/Dispatch.thy ===== *)
theory Dispatch
  imports Backend Go_Json "HOL-Library.Word"
begin

text \<open>
  The per-session control plane: \<open>internal/server/rtcdispatch.go\<close>, \<open>attach.go\<close> and
  \<open>control.go\<close>.  The record \<open>rtcDispatch\<close> has the mutable fields of the source's struct
  (\<open>att\<close>, \<open>gen\<close>, \<open>pending\<close>, \<open>bulkLifecycle\<close>), whether \<open>baseCtx\<close> is cancelled, the goroutines
  the handlers have started (\<open>d_tasks\<close>) and a log of everything done to the outside, in
  order (\<open>d_log\<close>: replies, feeds cancelled and closed, backend calls, bulk frames with
  whether the channel took them).  \<open>d_claims\<close> counts the
  generations ever claimed; \<open>d_gen\<close> is the same count in the 64 bits the source keeps.

  Feeds are numbered in the order the backend hands them out.  One operation below is one
  critical section of \<open>d.mu\<close> with the calls that follow it; handlers with several are their
  composition.  The outcome of a backend call is an argument.
\<close>

section \<open>Messages (control.go, ctrlReply)\<close>

record controlMsg =
  c_type :: string
  c_udid :: string
  c_action :: string
  c_x :: rat
  c_y :: rat
  c_x1 :: rat
  c_y1 :: rat
  c_x2 :: rat
  c_y2 :: rat
  c_duration :: rat
  c_key :: string
  c_quality :: QualityOpts

definition control_input :: "controlMsg \<Rightarrow> Input" where
  "control_input m =
     \<lparr>in_type = c_type m, in_action = c_action m, in_x = c_x m, in_y = c_y m,
      in_x1 = c_x1 m, in_y1 = c_y1 m, in_x2 = c_x2 m, in_y2 = c_y2 m,
      in_duration = c_duration m, in_key = c_key m\<rparr>"

definition parseControl :: "controlMsg option \<Rightarrow> controlMsg option" where
  \<comment> \<open>the argument is the result of \<open>json.Unmarshal\<close>, \<open>None\<close> an error\<close>
  "parseControl data =
     (case data of
        None \<Rightarrow> None
      | Some m \<Rightarrow>
          (if c_type m \<in> {''tap'', ''home'', ''swipe'', ''key'', ''shake'', ''app_switcher'', ''boot'',
                ''restart'', ''attach'', ''detach'', ''shutdown'', ''hello''} then Some m
           else if c_type m = ''touch'' then
             (if c_action m \<in> {''down'', ''move'', ''up''} then Some m else None)
           else None))"

record ctrlReply =
  cr_type :: string
  cr_msg :: string
  cr_udid :: string
  cr_operation :: string
  cr_code :: string
  cr_retryable :: bool
  cr_w :: "64 word"
  cr_h :: "64 word"
  cr_name :: string
  cr_osVersion :: string
  cr_paired :: bool
  cr_latestVersion :: string
  cr_version :: string
  cr_caps :: "string list"

definition ctrl_reply :: "string \<Rightarrow> ctrlReply" where
  "ctrl_reply t =
     \<lparr>cr_type = t, cr_msg = [], cr_udid = [], cr_operation = [], cr_code = [],
      cr_retryable = False, cr_w = 0, cr_h = 0, cr_name = [], cr_osVersion = [],
      cr_paired = False, cr_latestVersion = [], cr_version = [], cr_caps = []\<rparr>"

definition opAttach :: string where "opAttach = ''attach''"
definition opBoot :: string where "opBoot = ''boot''"
definition opRestart :: string where "opRestart = ''restart''"
definition opShutdown :: string where "opShutdown = ''shutdown''"

definition CodeAttachFailed :: string where "CodeAttachFailed = ''attach_failed''"
definition CodeAttachTimeout :: string where "CodeAttachTimeout = ''attach_timeout''"
definition CodeBootFailed :: string where "CodeBootFailed = ''boot_failed''"
definition CodeShutdownFailed :: string where "CodeShutdownFailed = ''shutdown_failed''"
definition CodeRestartFailed :: string where "CodeRestartFailed = ''restart_failed''"
definition CodeBadRequest :: string where "CodeBadRequest = ''bad_request''"

lemmas code_defs = opAttach_def opBoot_def opRestart_def opShutdown_def CodeAttachFailed_def
  CodeAttachTimeout_def CodeBootFailed_def CodeShutdownFailed_def CodeRestartFailed_def
  CodeBadRequest_def

definition lifecycle_error :: "string \<Rightarrow> string \<Rightarrow> string \<Rightarrow> string \<Rightarrow> ctrlReply" where
  "lifecycle_error operation udid code msg =
     (ctrl_reply ''error'')\<lparr>cr_operation := operation, cr_udid := udid, cr_code := code, cr_msg := msg\<rparr>"

section \<open>State\<close>

datatype route = ViaControl | ViaBulk

record attachment =
  at_feed :: nat
  at_udid :: string

record attach_task =
  t_udid :: string
  t_quality :: QualityOpts
  t_gen :: "64 word"
  t_route :: route
  t_claim :: nat

datatype task = Attaching attach_task | Pumping attachment

datatype effect =
    Reply route ctrlReply
  | GotFeed nat
  | CancelFeed nat
  | CloseFeed nat
  | FeedInput nat Input
  | FeedScreenshot nat
  | WriteFrame nat string duration
  | CallList
  | CallBoot string
  | CallShutdown string
  | CallShake string
  | BulkText bool string
  | BulkBinary bool string

record rtcDispatch =
  d_att :: "attachment option"
  d_gen :: "64 word"
  d_pending :: string
  d_bulkLifecycle :: bool
  d_baseDone :: bool
  d_claims :: nat
  d_feeds :: nat
  d_tasks :: "task list"
  d_log :: "effect list"

definition new_dispatch :: rtcDispatch where
  "new_dispatch =
     \<lparr>d_att = None, d_gen = 0, d_pending = [], d_bulkLifecycle = False, d_baseDone = False,
      d_claims = 0, d_feeds = 0, d_tasks = [], d_log = []\<rparr>"

definition emits :: "effect list \<Rightarrow> rtcDispatch \<Rightarrow> rtcDispatch" where
  "emits es d = d\<lparr>d_log := d_log d @ es\<rparr>"

definition spawn :: "task \<Rightarrow> rtcDispatch \<Rightarrow> rtcDispatch" where
  "spawn t d = d\<lparr>d_tasks := d_tasks d @ [t]\<rparr>"

definition task_done :: "task \<Rightarrow> rtcDispatch \<Rightarrow> rtcDispatch" where
  "task_done t d = d\<lparr>d_tasks := remove1 t (d_tasks d)\<rparr>"

lemma emits_emits [simp]: "emits ys (emits xs d) = emits (xs @ ys) d"
  by (simp add: emits_def)

lemma emits_Nil [simp]: "emits [] d = d"
  by (simp add: emits_def)

lemma d_log_emits [simp]: "d_log (emits es d) = d_log d @ es"
  by (simp add: emits_def)

lemma emits_fields [simp]:
  "d_att (emits es d) = d_att d" "d_gen (emits es d) = d_gen d" "d_pending (emits es d) = d_pending d"
  "d_bulkLifecycle (emits es d) = d_bulkLifecycle d" "d_baseDone (emits es d) = d_baseDone d"
  "d_claims (emits es d) = d_claims d" "d_feeds (emits es d) = d_feeds d"
  "d_tasks (emits es d) = d_tasks d"
  by (simp_all add: emits_def)

lemma spawn_fields [simp]:
  "d_att (spawn t d) = d_att d" "d_gen (spawn t d) = d_gen d" "d_pending (spawn t d) = d_pending d"
  "d_bulkLifecycle (spawn t d) = d_bulkLifecycle d" "d_baseDone (spawn t d) = d_baseDone d"
  "d_claims (spawn t d) = d_claims d" "d_feeds (spawn t d) = d_feeds d" "d_log (spawn t d) = d_log d"
  "d_tasks (spawn t d) = d_tasks d @ [t]"
  by (simp_all add: spawn_def)

section \<open>Replies\<close>

definition lifecycleMsgMax :: nat where "lifecycleMsgMax = 512"

definition ellipsis :: string where
  "ellipsis = [CHR 0xE2, CHR 0x80, CHR 0xA6]"

definition cap_msg :: "ctrlReply \<Rightarrow> ctrlReply" where
  \<comment> \<open>the cut \<open>replyBulk\<close> makes before it marshals\<close>
  "cap_msg v =
     (if lifecycleMsgMax < length (cr_msg v)
      then v\<lparr>cr_msg := to_valid_utf8 (take lifecycleMsgMax (cr_msg v)) @ ellipsis\<rparr> else v)"

text \<open>
  A reply goes out on the route its request came by.  The bulk route of \<open>lifecycle\<close> also
  records that this client reads lifecycle there; \<open>lifecycleReply\<close> picks that route only
  once the flag is set, so setting it again changes nothing.
\<close>

definition reply_via :: "route \<Rightarrow> ctrlReply \<Rightarrow> rtcDispatch \<Rightarrow> rtcDispatch" where
  "reply_via r v d =
     (case r of
        ViaControl \<Rightarrow> emits [Reply ViaControl v] d
      | ViaBulk \<Rightarrow> emits [Reply ViaBulk (cap_msg v)] (d\<lparr>d_bulkLifecycle := True\<rparr>))"

definition wire_reply :: "route \<Rightarrow> ctrlReply \<Rightarrow> ctrlReply" where
  "wire_reply r v = (case r of ViaControl \<Rightarrow> v | ViaBulk \<Rightarrow> cap_msg v)"

lemma reply_via_log [simp]: "d_log (reply_via r v d) = d_log d @ [Reply r (wire_reply r v)]"
  by (simp add: reply_via_def wire_reply_def split: route.splits)

lemma reply_via_fields [simp]:
  "d_att (reply_via r v d) = d_att d" "d_gen (reply_via r v d) = d_gen d"
  "d_pending (reply_via r v d) = d_pending d" "d_baseDone (reply_via r v d) = d_baseDone d"
  "d_claims (reply_via r v d) = d_claims d" "d_feeds (reply_via r v d) = d_feeds d"
  "d_tasks (reply_via r v d) = d_tasks d"
  by (simp_all add: reply_via_def split: route.splits)

definition lifecycleReply :: "rtcDispatch \<Rightarrow> route" where
  "lifecycleReply d = (if d_bulkLifecycle d then ViaBulk else ViaControl)"

section \<open>Attachments (attach.go)\<close>

definition stop_feed :: "attachment option \<Rightarrow> effect list" where
  "stop_feed att = (case att of None \<Rightarrow> [] | Some a \<Rightarrow> [CancelFeed (at_feed a), CloseFeed (at_feed a)])"

definition claimAttach :: "string \<Rightarrow> rtcDispatch \<Rightarrow> 64 word \<times> string \<times> rtcDispatch" where
  "claimAttach next d =
     (let gen = d_gen d + 1;
          prev = (case d_att d of Some a \<Rightarrow> at_udid a | None \<Rightarrow> d_pending d)
      in (gen, prev,
          emits (stop_feed (d_att d))
            (d\<lparr>d_gen := gen, d_claims := Suc (d_claims d), d_att := None, d_pending := next\<rparr>)))"

definition stopAttachment :: "rtcDispatch \<Rightarrow> string \<times> rtcDispatch" where
  "stopAttachment d = (let (_, prev, d') = claimAttach [] d in (prev, d'))"

definition restartAttachment :: "rtcDispatch \<Rightarrow> (string \<times> 64 word) option \<times> rtcDispatch" where
  "restartAttachment d =
     (case d_att d of
        None \<Rightarrow> (None, d)
      | Some a \<Rightarrow>
          (let gen = d_gen d + 1
           in (Some (at_udid a, gen),
               emits (stop_feed (Some a))
                 (d\<lparr>d_gen := gen, d_claims := Suc (d_claims d), d_att := None,
                    d_pending := at_udid a\<rparr>))))"

definition streaming :: "string \<Rightarrow> rtcDispatch \<Rightarrow> bool" where
  "streaming udid d \<longleftrightarrow>
     (case d_att d of Some a \<Rightarrow> at_udid a = udid | None \<Rightarrow> False) \<or> d_pending d = udid"

definition doAttach :: "string \<Rightarrow> QualityOpts \<Rightarrow> route \<Rightarrow> rtcDispatch \<Rightarrow> rtcDispatch" where
  "doAttach udid q r d =
     (if udid = [] then
        reply_via r (lifecycle_error opAttach [] CodeBadRequest ''attach: missing udid'') d
      else
        (let (gen, _, d1) = claimAttach udid d;
             d2 = reply_via r ((ctrl_reply ''attaching'')\<lparr>cr_udid := udid\<rparr>) d1
         in spawn (Attaching \<lparr>t_udid = udid, t_quality = q, t_gen = gen, t_route = r,
                              t_claim = d_claims d2\<rparr>) d2))"

text \<open>
  What \<open>backend.Attach\<close> returned, and whether the watchdog fired first (\<open>expired\<close>).  A feed
  carries its \<open>Screen\<close> dimensions.
\<close>

datatype backend_result = FeedReady "64 word" "64 word" | AttachFails go_error

datatype attach_outcome = Live nat "64 word" "64 word" | Refused go_error

definition AttachTimeout :: duration where "AttachTimeout = 30 * second"

definition attachWithin ::
  "bool \<Rightarrow> backend_result \<Rightarrow> string \<Rightarrow> rtcDispatch \<Rightarrow> attach_outcome \<times> rtcDispatch" where
  "attachWithin expired res udid d =
     (let timeout = AttachError CodeAttachTimeout
            (''no video feed from '' @ udid @ '' within 30s'') False in
      case res of
        FeedReady w h \<Rightarrow>
          (let f = d_feeds d; d1 = emits [GotFeed f] (d\<lparr>d_feeds := Suc f\<rparr>) in
           if expired then (Refused timeout, emits [CancelFeed f, CloseFeed f] d1)
           else (Live f w h, d1))
      | AttachFails e \<Rightarrow> (Refused (if expired then timeout else e), d))"

definition failAttach :: "64 word \<Rightarrow> string \<Rightarrow> go_error \<Rightarrow> route \<Rightarrow> rtcDispatch \<Rightarrow> rtcDispatch" where
  "failAttach gen udid err r d =
     (if d_gen d \<noteq> gen then d
      else
        (let d1 = d\<lparr>d_pending := []\<rparr>;
             (code, retryable) =
               (case as_attach_error err of
                  Some (c, m, rt) \<Rightarrow> if c \<noteq> [] then (c, rt) else (CodeAttachFailed, False)
                | None \<Rightarrow> (CodeAttachFailed, False))
         in reply_via r
              ((lifecycle_error opAttach udid code (error_text err))\<lparr>cr_retryable := retryable\<rparr>) d1))"

definition attachAs ::
  "attach_task \<Rightarrow> bool \<Rightarrow> backend_result \<Rightarrow> rtcDispatch \<Rightarrow> rtcDispatch" where
  "attachAs t expired res d =
     (case attachWithin expired res (t_udid t) d of
        (Refused e, d1) \<Rightarrow> failAttach (t_gen t) (t_udid t) e (t_route t) d1
      | (Live f w h, d1) \<Rightarrow>
          (if d_gen d1 \<noteq> t_gen t then emits [CancelFeed f, CloseFeed f] d1
           else
             (let att = \<lparr>at_feed = f, at_udid = t_udid t\<rparr>;
                  d2 = spawn (Pumping att) (d1\<lparr>d_att := Some att, d_pending := []\<rparr>)
              in reply_via (t_route t)
                   ((ctrl_reply ''attached'')\<lparr>cr_udid := t_udid t, cr_w := w, cr_h := h\<rparr>) d2)))"

text \<open>
  The frame loop of \<open>pump\<close>: frames are written in order until the feed closes its channel
  or a write fails.
\<close>

fun pump_loop :: "nat \<Rightarrow> (string \<Rightarrow> duration \<Rightarrow> string option) \<Rightarrow> (string \<times> duration) list
    \<Rightarrow> effect list \<times> string option" where
  "pump_loop f write [] = ([], None)"
| "pump_loop f write ((b, dur) # fs) =
     (case write b dur of
        Some e \<Rightarrow> ([WriteFrame f b dur], Some e)
      | None \<Rightarrow> (let (es, r) = pump_loop f write fs in (WriteFrame f b dur # es, r)))"

text \<open>The rest of \<open>pump\<close>, after the loop: tear down, and tell the client if nobody asked for it.\<close>

definition pump_end :: "attachment \<Rightarrow> string option \<Rightarrow> rtcDispatch \<Rightarrow> rtcDispatch" where
  "pump_end att reason d =
     (let d1 = emits [CancelFeed (at_feed att)] d in
      if d_att d1 \<noteq> Some att then d1
      else
        (let d2 = emits [CloseFeed (at_feed att)] (d1\<lparr>d_att := None\<rparr>) in
         if d_baseDone d2 then d2
         else reply_via (lifecycleReply d2)
                ((ctrl_reply ''stream_ended'')\<lparr>cr_udid := at_udid att,
                   cr_msg := (case reason of None \<Rightarrow> ''video feed ended'' | Some e \<Rightarrow> e)\<rparr>) d2))"

definition pump ::
  "attachment \<Rightarrow> (string \<Rightarrow> duration \<Rightarrow> string option) \<Rightarrow> (string \<times> duration) list \<Rightarrow> rtcDispatch \<Rightarrow> rtcDispatch" where
  "pump att write frames d =
     (let (written, reason) = pump_loop (at_feed att) write frames
      in pump_end att reason (emits written d))"

section \<open>Requests (rtcdispatch.go)\<close>

text \<open>What the backend calls a handler makes return; \<open>None\<close> is success.\<close>

record backend_env =
  be_boot :: "go_error option"
  be_shutdown :: "go_error option"
  be_shake :: "go_error option"

record host_info =
  hi_hostName :: string
  hi_osVersion :: string
  hi_version :: string
  hi_caps :: "string list"
  hi_latest :: string

definition sendHello :: "host_info \<Rightarrow> rtcDispatch \<Rightarrow> rtcDispatch" where
  "sendHello hi d =
     emits [Reply ViaControl
       ((ctrl_reply ''hello'')\<lparr>cr_name := hi_hostName hi, cr_osVersion := hi_osVersion hi,
          cr_paired := True, cr_version := hi_version hi, cr_caps := hi_caps hi,
          cr_latestVersion := hi_latest hi\<rparr>)] d"

definition doBoot :: "backend_env \<Rightarrow> string \<Rightarrow> route \<Rightarrow> rtcDispatch \<Rightarrow> rtcDispatch" where
  "doBoot env udid r d =
     (if udid = [] then
        reply_via r (lifecycle_error opBoot [] CodeBadRequest ''boot: missing udid'') d
      else
        (let d1 = emits [CallBoot udid] d in
         case be_boot env of
           Some e \<Rightarrow> reply_via r (lifecycle_error opBoot udid CodeBootFailed (error_text e)) d1
         | None \<Rightarrow> reply_via r ((ctrl_reply ''booted'')\<lparr>cr_udid := udid\<rparr>) d1))"

definition doRestart :: "backend_env \<Rightarrow> string \<Rightarrow> route \<Rightarrow> rtcDispatch \<Rightarrow> rtcDispatch" where
  "doRestart env udid r d =
     (if udid = [] then
        reply_via r (lifecycle_error opRestart [] CodeBadRequest ''restart: missing udid'') d
      else
        (let d1 = (if streaming udid d then snd (stopAttachment d) else d);
             d2 = emits [CallShutdown udid] d1 in
         case be_shutdown env of
           Some e \<Rightarrow> reply_via r (lifecycle_error opRestart udid CodeRestartFailed (error_text e)) d2
         | None \<Rightarrow>
             (let d3 = emits [CallBoot udid] d2 in
              case be_boot env of
                Some e \<Rightarrow> reply_via r (lifecycle_error opRestart udid CodeRestartFailed (error_text e)) d3
              | None \<Rightarrow> reply_via r ((ctrl_reply ''booted'')\<lparr>cr_udid := udid\<rparr>) d3)))"

definition doDetach :: "route \<Rightarrow> rtcDispatch \<Rightarrow> rtcDispatch" where
  "doDetach r d =
     (let (prev, d1) = stopAttachment d in reply_via r ((ctrl_reply ''detached'')\<lparr>cr_udid := prev\<rparr>) d1)"

definition doShutdown :: "backend_env \<Rightarrow> string \<Rightarrow> route \<Rightarrow> rtcDispatch \<Rightarrow> rtcDispatch" where
  "doShutdown env udid r d =
     (if udid = [] then
        reply_via r (lifecycle_error opShutdown [] CodeBadRequest ''shutdown: missing udid'') d
      else
        (let d1 = (if streaming udid d
                   then reply_via r ((ctrl_reply ''detached'')\<lparr>cr_udid := udid\<rparr>) (snd (stopAttachment d))
                   else d);
             d2 = emits [CallShutdown udid] d1 in
         case be_shutdown env of
           Some e \<Rightarrow> reply_via r (lifecycle_error opShutdown udid CodeShutdownFailed (error_text e)) d2
         | None \<Rightarrow> reply_via r ((ctrl_reply ''shutdown'')\<lparr>cr_udid := udid\<rparr>) d2))"

definition doInput :: "controlMsg \<Rightarrow> rtcDispatch \<Rightarrow> rtcDispatch" where
  "doInput m d =
     (case d_att d of None \<Rightarrow> d | Some a \<Rightarrow> emits [FeedInput (at_feed a) (control_input m)] d)"

definition doShake :: "rtcDispatch \<Rightarrow> rtcDispatch" where
  \<comment> \<open>a failing \<open>Shake\<close> is only logged\<close>
  "doShake d = (case d_att d of None \<Rightarrow> d | Some a \<Rightarrow> emits [CallShake (at_udid a)] d)"

definition lifecycle ::
  "backend_env \<Rightarrow> controlMsg \<Rightarrow> bool \<Rightarrow> rtcDispatch \<Rightarrow> bool \<times> rtcDispatch" where
  "lifecycle env m reliable d =
     (let r = (if reliable then ViaBulk else ViaControl) in
      if c_type m = ''boot'' then (True, doBoot env (c_udid m) r d)
      else if c_type m = ''restart'' then (True, doRestart env (c_udid m) r d)
      else if c_type m = ''attach'' then (True, doAttach (c_udid m) (c_quality m) r d)
      else if c_type m = ''detach'' then (True, doDetach r d)
      else if c_type m = ''shutdown'' then (True, doShutdown env (c_udid m) r d)
      else (False, d))"

definition handle ::
  "host_info \<Rightarrow> backend_env \<Rightarrow> controlMsg option \<Rightarrow> rtcDispatch \<Rightarrow> rtcDispatch" where
  "handle hi env data d =
     (case parseControl data of
        None \<Rightarrow> d
      | Some m \<Rightarrow>
          (let (served, d1) = lifecycle env m False d in
           if served then d1
           else if c_type m \<in> {''tap'', ''touch'', ''home'', ''swipe'', ''key'', ''app_switcher''} then doInput m d1
           else if c_type m = ''shake'' then doShake d1
           else if c_type m = ''hello'' then sendHello hi d1
           else d1))"

text \<open>The end of the session: \<open>baseCtx\<close> is cancelled.\<close>

definition session_end :: "rtcDispatch \<Rightarrow> rtcDispatch" where
  "session_end d = d\<lparr>d_baseDone := True\<rparr>"

section \<open>Where replies go\<close>

text \<open>
  \<open>replies_only r d d'\<close>: on the way from \<open>d\<close> to \<open>d'\<close> the log only grew, and every reply in
  what was added went by route \<open>r\<close>; \<open>ends_in_reply\<close> says moreover that a reply came last.
\<close>

definition replies_only :: "route \<Rightarrow> rtcDispatch \<Rightarrow> rtcDispatch \<Rightarrow> bool" where
  "replies_only r d d' \<longleftrightarrow>
     (\<exists>es. d_log d' = d_log d @ es \<and> (\<forall>r' v. Reply r' v \<in> set es \<longrightarrow> r' = r))"

definition ends_in_reply :: "route \<Rightarrow> rtcDispatch \<Rightarrow> rtcDispatch \<Rightarrow> bool" where
  "ends_in_reply r d d' \<longleftrightarrow>
     (\<exists>es v. d_log d' = d_log d @ es @ [Reply r v] \<and> (\<forall>r' v. Reply r' v \<in> set es \<longrightarrow> r' = r))"

lemma replies_only_refl [simp]: "replies_only r d d"
  by (simp add: replies_only_def)

lemma replies_only_same_log: "d_log d' = d_log d \<Longrightarrow> replies_only r d d'"
  by (simp add: replies_only_def)

lemma replies_only_trans:
  "replies_only r d d1 \<Longrightarrow> replies_only r d1 d2 \<Longrightarrow> replies_only r d d2"
  unfolding replies_only_def by fastforce

lemma replies_only_emits:
  "replies_only r d d1 \<Longrightarrow> (\<forall>e \<in> set es. \<forall>r' v. e = Reply r' v \<longrightarrow> r' = r) \<Longrightarrow> replies_only r d (emits es d1)"
  unfolding replies_only_def by fastforce

lemma replies_only_reply: "replies_only r d d1 \<Longrightarrow> replies_only r d (reply_via r v d1)"
  unfolding replies_only_def by fastforce

lemma replies_only_spawn: "replies_only r d d1 \<Longrightarrow> replies_only r d (spawn t d1)"
  by (simp add: replies_only_def)

lemma stop_feed_replies: "\<forall>e \<in> set (stop_feed a). \<forall>r' v. e = Reply r' v \<longrightarrow> r' = r"
  by (auto simp: stop_feed_def split: option.splits)

lemma replies_only_claim:
  "replies_only r d d1 \<Longrightarrow> replies_only r d (snd (snd (claimAttach next d1)))"
  by (simp add: claimAttach_def Let_def)
    (rule replies_only_emits, simp add: replies_only_def, rule stop_feed_replies)

lemma stopAttachment_eq:
  "stopAttachment d = (fst (snd (claimAttach [] d)), snd (snd (claimAttach [] d)))"
  by (simp add: stopAttachment_def split: prod.split)

lemma replies_only_stop: "replies_only r d d1 \<Longrightarrow> replies_only r d (snd (stopAttachment d1))"
  by (simp add: stopAttachment_eq replies_only_claim)

lemma ends_in_reply_via: "replies_only r d d1 \<Longrightarrow> ends_in_reply r d (reply_via r v d1)"
  unfolding replies_only_def ends_in_reply_def by auto

lemma ends_in_reply_spawn: "ends_in_reply r d d1 \<Longrightarrow> ends_in_reply r d (spawn t d1)"
  by (simp add: ends_in_reply_def)

lemma ends_in_reply_only: "ends_in_reply r d d1 \<Longrightarrow> replies_only r d d1"
  unfolding replies_only_def ends_in_reply_def by fastforce

lemmas reply_intros = replies_only_refl replies_only_emits replies_only_reply replies_only_spawn
  replies_only_claim replies_only_stop ends_in_reply_via ends_in_reply_spawn

lemma doBoot_replies: "ends_in_reply r d (doBoot env u r d)"
  by (auto simp: doBoot_def Let_def intro!: reply_intros split: option.splits)

lemma doRestart_replies: "ends_in_reply r d (doRestart env u r d)"
  by (auto simp: doRestart_def Let_def intro!: reply_intros split: option.splits)

lemma doShutdown_replies: "ends_in_reply r d (doShutdown env u r d)"
  by (auto simp: doShutdown_def Let_def intro!: reply_intros split: option.splits)

lemma doDetach_replies: "ends_in_reply r d (doDetach r d)"
  by (simp add: doDetach_def stopAttachment_eq case_prod_unfold Let_def reply_intros)

lemma doAttach_replies: "ends_in_reply r d (doAttach u q r d)"
  by (simp add: doAttach_def Let_def case_prod_unfold reply_intros)

lemma lifecycle_replies:
  "lifecycle env m reliable d = (served, d') \<Longrightarrow>
     (if served then ends_in_reply (if reliable then ViaBulk else ViaControl) d d' else d' = d)"
  by (auto simp: lifecycle_def Let_def doBoot_replies doRestart_replies doShutdown_replies
      doDetach_replies doAttach_replies split: if_splits)

lemma handle_replies: "replies_only ViaControl d (handle hi env data d)"
proof (cases "parseControl data")
  case (Some m)
  obtain served d1 where l: "lifecycle env m False d = (served, d1)" by fastforce
  show ?thesis
  proof (cases served)
    case True
    with lifecycle_replies [OF l] show ?thesis
      by (simp add: handle_def Some l ends_in_reply_only)
  next
    case False
    with lifecycle_replies [OF l] have "d1 = d" by simp
    with False show ?thesis
      by (simp add: handle_def Some l doInput_def doShake_def sendHello_def replies_only_emits
          split: option.split)
  qed
qed (simp add: handle_def)

end
