(* ===== verification/Remote.thy ===== *)
theory Remote
  imports Pinned_Store Pairing_Window Rtc_Peer Dispatch
begin

text \<open>
  The daemon's side of the rendezvous: \<open>internal/server/remote.go\<close>, with \<open>startSession\<close>
  (\<open>rtc.go\<close>) and the identity file (\<open>identity.go\<close>).  The record \<open>daemon\<close> has the local
  variables of \<open>serveOnce\<close>; the sessions themselves are objects in \<open>r_objs\<close>, because pion's
  callbacks keep referring to a session after the loop has dropped its own reference.  One
  received message is one step of \<open>serve_msg\<close>; the callbacks of a session and a reconnect are
  events of their own.  The clock, the random bytes, pion and the file system's answers
  during a step are fields of \<open>serve_env\<close>.
\<close>

section \<open>State\<close>

record live =
  ls_sess :: session
  ls_disp :: rtcDispatch
  ls_cancelled :: bool           \<comment> \<open>\<open>sctx\<close> is done\<close>
  ls_ice :: "ice_server list"
  ls_key :: string               \<comment> \<open>the client the session was built for\<close>

record daemon =
  r_objs :: "live list"
  r_sess :: "nat option"         \<comment> \<open>\<open>sess\<close>, \<open>disp\<close> and \<open>sessCancel\<close>\<close>
  r_iceServers :: "ice_server list"
  r_trickle :: bool
  r_earlyCands :: "ice_candidate_init list"
  r_authPub :: string
  r_authNonce :: string
  r_enrolling :: bool
  r_authed :: bool
  r_pinned :: PinnedStore
  r_win :: pairingWindow
  r_sent :: "signal_msg list"    \<comment> \<open>written to the broker, in order\<close>
  r_enrolled :: "string list"    \<comment> \<open>calls of \<open>onEnroll\<close>\<close>

definition new_daemon :: "PinnedStore \<Rightarrow> pairingWindow \<Rightarrow> daemon" where
  "new_daemon pinned win =
     \<lparr>r_objs = [], r_sess = None, r_iceServers = [], r_trickle = False, r_earlyCands = [],
      r_authPub = [], r_authNonce = [], r_enrolling = False, r_authed = False,
      r_pinned = pinned, r_win = win, r_sent = [], r_enrolled = []\<rparr>"

record serve_env =
  sv_now :: gotime
  sv_random :: "string option"      \<comment> \<open>16 random bytes, \<open>None\<close> when the source fails\<close>
  sv_save :: "save_call option"
  sv_start :: "string option"       \<comment> \<open>\<open>startSession\<close> fails\<close>
  sv_pc :: pc_env

definition maxEarlyCands :: nat where "maxEarlyCands = 64"

section \<open>Messages\<close>

definition signedAnswer :: "crypto \<Rightarrow> string \<Rightarrow> string \<Rightarrow> signal_msg" where
  "signedAnswer C priv sdp = (msg_of_type TypeAnswer)\<lparr>m_sdp := sdp, m_sig := Sign C priv sdp\<rparr>"

definition candidateMsg :: "ice_candidate_init option \<Rightarrow> signal_msg" where
  "candidateMsg c =
     (case c of
        None \<Rightarrow> msg_of_type TypeCandidate
      | Some i \<Rightarrow>
          (let m = (msg_of_type TypeCandidate)\<lparr>m_candidate := ci_candidate i, m_sdpMLineIndex := ci_sdpMLineIndex i\<rparr>
           in case ci_sdpMid i of None \<Rightarrow> m | Some mid \<Rightarrow> m\<lparr>m_sdpMid := mid\<rparr>))"

definition candidate_init_of :: "signal_msg \<Rightarrow> ice_candidate_init" where
  "candidate_init_of m =
     \<lparr>ci_candidate = m_candidate m, ci_sdpMid = (if m_sdpMid m = [] then None else Some (m_sdpMid m)),
      ci_sdpMLineIndex = m_sdpMLineIndex m\<rparr>"

definition send :: "signal_msg \<Rightarrow> daemon \<Rightarrow> daemon" where
  "send m d = d\<lparr>r_sent := r_sent d @ [m]\<rparr>"

definition registerMsg :: "string \<Rightarrow> signal_msg" where
  "registerMsg daemonID =
     (msg_of_type TypeRegister)\<lparr>m_role := RoleDaemon, m_daemon := daemonID, m_trickle := True\<rparr>"

section \<open>Session objects\<close>

definition live_update :: "nat \<Rightarrow> (live \<Rightarrow> live) \<Rightarrow> daemon \<Rightarrow> daemon" where
  "live_update i f d = (if i < length (r_objs d) then d\<lparr>r_objs := (r_objs d)[i := f (r_objs d ! i)]\<rparr> else d)"

text \<open>\<open>startSession\<close>: a peer with the hello hook and a fresh dispatcher.\<close>

definition startSession :: "ice_server list \<Rightarrow> string \<Rightarrow> live" where
  "startSession ice key =
     \<lparr>ls_sess = session_OnControlOpen new_session, ls_disp = new_dispatch, ls_cancelled = False,
      ls_ice = ice, ls_key = key\<rparr>"

text \<open>The context of a session is cancelled and its feed stopped, once or more.\<close>

definition live_cancel :: "live \<Rightarrow> live" where
  "live_cancel l = l\<lparr>ls_cancelled := True, ls_disp := snd (stopAttachment (session_end (ls_disp l)))\<rparr>"

definition live_close :: "live \<Rightarrow> live" where
  "live_close l = (live_cancel l)\<lparr>ls_sess := session_Close (ls_sess l)\<rparr>"

definition cleanup :: "daemon \<Rightarrow> daemon" where
  "cleanup d =
     (let d = (case r_sess d of None \<Rightarrow> d | Some i \<Rightarrow> live_update i live_close d)
      in d\<lparr>r_sess := None, r_authPub := [], r_authNonce := [], r_enrolling := False, r_authed := False,
           r_iceServers := [], r_trickle := False, r_earlyCands := []\<rparr>)"

section \<open>The handlers of \<open>serveOnce\<close>\<close>

definition on_connect :: "crypto \<Rightarrow> serve_env \<Rightarrow> signal_msg \<Rightarrow> daemon \<Rightarrow> daemon" where
  "on_connect C env m d0 =
     (let d = cleanup d0;
          (allow, enr, code, d) =
            (if pinned_Contains (m_pubkey m) (r_pinned d) then (True, False, [], d)
             else
               (let (res, w) = window_verify C (m_pubkey m) (m_nonce m) (m_pair m) (sv_now env) (r_win d);
                    d = d\<lparr>r_win := w\<rparr>
                in case res of
                     pairOK \<Rightarrow> (True, True, [], d)
                   | pairExpired \<Rightarrow> (False, False, CodePairExpired, d)
                   | pairUsed \<Rightarrow> (False, False, CodePairUsed, d)
                   | _ \<Rightarrow> (False, False, CodePairInvalid, d)))
      in if \<not> allow then send (error_msg code ''not paired'') d
         else
           (case sv_random env of
              None \<Rightarrow> send (error_msg [] ''nonce error'') d
            | Some rnd \<Rightarrow>
                (let nonce = nonce_of rnd in
                 send ((msg_of_type TypeChallenge)\<lparr>m_nonce := nonce\<rparr>)
                   (d\<lparr>r_authPub := m_pubkey m, r_authNonce := nonce, r_enrolling := enr, r_authed := False\<rparr>))))"

definition on_iceServers :: "signal_msg \<Rightarrow> daemon \<Rightarrow> daemon" where
  "on_iceServers m d = d\<lparr>r_iceServers := m_iceServers m, r_trickle := m_trickle m\<rparr>"

definition on_proof :: "crypto \<Rightarrow> serve_env \<Rightarrow> signal_msg \<Rightarrow> daemon \<Rightarrow> daemon" where
  "on_proof C env m d =
     (if r_authPub d = [] \<or> \<not> Verify C (r_authPub d) (r_authNonce d) (m_sig m)
      then cleanup (send (error_msg [] ''challenge failed'') d)
      else if r_enrolling d then
        (let (ok, ps) = pinned_Add (sv_save env) (r_authPub d) [] (r_pinned d);
             d = d\<lparr>r_pinned := ps\<rparr>
         in if \<not> ok then cleanup (send (error_msg [] ''could not save pairing'') d)
            else d\<lparr>r_enrolled := r_enrolled d @ [r_authPub d], r_authed := True\<rparr>)
      else d\<lparr>r_authed := True\<rparr>)"

definition on_offer :: "crypto \<Rightarrow> string \<Rightarrow> serve_env \<Rightarrow> signal_msg \<Rightarrow> daemon \<Rightarrow> daemon" where
  "on_offer C priv env m d =
     (if \<not> r_authed d then send (error_msg [] ''unauthenticated'') d
      else
        (case sv_start env of
           Some e \<Rightarrow> send (error_msg [] e) d
         | None \<Rightarrow>
             (let l = startSession (r_iceServers d) (r_authPub d);
                  s = session_OnClose (ls_sess l);
                  s = (if r_trickle d then session_OnCandidate s else s);
                  s = fold session_AddCandidate (r_earlyCands d) s;
                  (answer, s) = session_Answer (sv_pc env) (m_sdp m) s;
                  d = d\<lparr>r_objs := r_objs d @ [l\<lparr>ls_sess := s\<rparr>], r_sess := Some (length (r_objs d)),
                        r_earlyCands := []\<rparr>
              in case answer of
                   Inl e \<Rightarrow> cleanup (send (error_msg [] e) d)
                 | Inr sdp \<Rightarrow> send (signedAnswer C priv sdp) d)))"

definition on_candidate :: "signal_msg \<Rightarrow> daemon \<Rightarrow> daemon" where
  "on_candidate m d =
     (if \<not> r_authed d \<or> \<not> r_trickle d then d
      else
        (case r_sess d of
           None \<Rightarrow>
             (if length (r_earlyCands d) < maxEarlyCands
              then d\<lparr>r_earlyCands := r_earlyCands d @ [candidate_init_of m]\<rparr> else d)
         | Some i \<Rightarrow>
             live_update i (\<lambda>l. l\<lparr>ls_sess := session_AddCandidate (candidate_init_of m) (ls_sess l)\<rparr>) d))"

definition serve_msg :: "crypto \<Rightarrow> string \<Rightarrow> serve_env \<Rightarrow> signal_msg \<Rightarrow> daemon \<Rightarrow> daemon" where
  "serve_msg C priv env m d =
     (if m_type m = TypeConnect then on_connect C env m d
      else if m_type m = TypeICEServers then on_iceServers m d
      else if m_type m = TypeProof then on_proof C env m d
      else if m_type m = TypeOffer then on_offer C priv env m d
      else if m_type m = TypeCandidate then on_candidate m d
      else if m_type m = TypePeerLeft then cleanup d
      else d)"

section \<open>Events\<close>

text \<open>
  \<open>PeerDied i\<close>: pion reports session \<open>i\<close> failed, closed or disconnected, and the close hook
  runs.  \<open>LocalCand i c\<close>: session \<open>i\<close> gathered a candidate and the sink set by the offer runs.
  \<open>Reconnect\<close>: the connection is lost, the deferred \<open>cleanup\<close> runs, and the next \<open>serveOnce\<close>
  registers.  The last two come from the local control interface.
\<close>

datatype daemon_event =
    Recv serve_env signal_msg
  | PeerDied nat
  | LocalCand nat "ice_candidate_init option"
  | Reconnect
  | WindowOpen string gotime duration
  | WindowClose

definition peer_died :: "nat \<Rightarrow> daemon \<Rightarrow> daemon" where
  "peer_died i d =
     live_update i (\<lambda>l.
       (let (fires, s) = session_fireClose (ls_sess l); l = l\<lparr>ls_sess := s\<rparr>
        in if fires then live_cancel l else l)) d"

definition local_candidate :: "nat \<Rightarrow> ice_candidate_init option \<Rightarrow> daemon \<Rightarrow> daemon" where
  "local_candidate i c d =
     (if i < length (r_objs d) \<and> s_onCand (ls_sess (r_objs d ! i)) \<and> \<not> ls_cancelled (r_objs d ! i)
      then send (candidateMsg c) d else d)"

definition reconnect :: "string \<Rightarrow> daemon \<Rightarrow> daemon" where
  "reconnect daemonID d = send (registerMsg daemonID) (cleanup d)"

record Identity =
  id_PubB64 :: string
  id_Priv :: string

fun daemon_step :: "crypto \<Rightarrow> Identity \<Rightarrow> daemon_event \<Rightarrow> daemon \<Rightarrow> daemon" where
  "daemon_step C me (Recv env m) d = serve_msg C (id_Priv me) env m d"
| "daemon_step C me (PeerDied i) d = peer_died i d"
| "daemon_step C me (LocalCand i c) d = local_candidate i c d"
| "daemon_step C me Reconnect d = reconnect (id_PubB64 me) d"
| "daemon_step C me (WindowOpen s now ttl) d = d\<lparr>r_win := window_open s now ttl (r_win d)\<rparr>"
| "daemon_step C me WindowClose d = d\<lparr>r_win := window_Close (r_win d)\<rparr>"

definition daemon_run :: "crypto \<Rightarrow> Identity \<Rightarrow> daemon_event list \<Rightarrow> daemon \<Rightarrow> daemon" where
  "daemon_run C me es d = fold (daemon_step C me) es d"

section \<open>The identity file\<close>

text \<open>
  \<open>LoadOrCreateIdentity\<close>: what reading the file gives, the fresh key pair, and the outcome of
  writing; the result with the file's new content.  An Ed25519 private key is 64 bytes, the
  last 32 its public key.
\<close>

datatype key_file = KeyMissing | KeyUnreadable string | KeyBytes string

definition PrivateKeySize :: nat where "PrivateKeySize = 64"

definition public_of :: "string \<Rightarrow> string" where
  "public_of priv = drop 32 priv"

definition LoadOrCreateIdentity ::
  "string option \<Rightarrow> string option \<Rightarrow> (string \<times> key_file) option \<Rightarrow> key_file \<Rightarrow> (string + Identity) \<times> key_file" where
  \<comment> \<open>a failed write says what it left in the file\<close>
  "LoadOrCreateIdentity keygen mkdir_err write_err f =
     (case f of
        KeyBytes s \<Rightarrow>
          (case b64_decode s of
             None \<Rightarrow> (Inl ''identity: malformed key file'', f)
           | Some raw \<Rightarrow>
               (if length raw \<noteq> PrivateKeySize then (Inl ''identity: malformed key file'', f)
                else (Inr \<lparr>id_PubB64 = b64_encode (public_of raw), id_Priv = raw\<rparr>, f)))
      | KeyUnreadable e \<Rightarrow> (Inl e, f)
      | KeyMissing \<Rightarrow>
          (case keygen of
             None \<Rightarrow> (Inl ''keygen failed'', f)
           | Some priv \<Rightarrow>
               (case mkdir_err of
                  Some e \<Rightarrow> (Inl e, f)
                | None \<Rightarrow>
                    (case write_err of
                       Some (e, f') \<Rightarrow> (Inl e, f')
                     | None \<Rightarrow>
                         (Inr \<lparr>id_PubB64 = b64_encode (public_of priv), id_Priv = priv\<rparr>,
                          KeyBytes (b64_encode priv))))))"

section \<open>Reconnecting\<close>

definition maxBackoff :: duration where "maxBackoff = 30 * second"

text \<open>The wait before the next attempt and the backoff after it, given how long the connection was up.\<close>

definition backoff_step :: "duration \<Rightarrow> duration \<Rightarrow> duration \<times> duration" where
  "backoff_step backoff up =
     (let b = (if maxBackoff < up then second else backoff);
          next = b * 2
      in (b, if maxBackoff < next then maxBackoff else next))"

fun backoff_waits :: "duration \<Rightarrow> duration list \<Rightarrow> duration list" where
  "backoff_waits b [] = []"
| "backoff_waits b (up # ups) = (let (w, b') = backoff_step b up in w # backoff_waits b' ups)"

record reconnLog =
  rl_verbose :: bool
  rl_down :: bool

datatype log_line = BackOnline | WentOffline | LostVerbose string duration

definition rl_up :: "reconnLog \<Rightarrow> log_line list \<times> reconnLog" where
  "rl_up r = (if rl_down r then ([BackOnline], r\<lparr>rl_down := False\<rparr>) else ([], r))"

definition rl_lost :: "string \<Rightarrow> duration \<Rightarrow> reconnLog \<Rightarrow> log_line list \<times> reconnLog" where
  "rl_lost err backoff r =
     (if rl_verbose r then ([LostVerbose err backoff], r)
      else if \<not> rl_down r then ([WentOffline], r\<lparr>rl_down := True\<rparr>) else ([], r))"

section \<open>Who gets past the gate\<close>

fun resets :: "daemon_event \<Rightarrow> bool" where
  "resets (Recv env m) \<longleftrightarrow> m_type m = TypeConnect \<or> m_type m = TypePeerLeft"
| "resets Reconnect \<longleftrightarrow> True"
| "resets _ \<longleftrightarrow> False"

definition admitted :: "crypto \<Rightarrow> serve_env \<Rightarrow> signal_msg \<Rightarrow> daemon \<Rightarrow> bool \<Rightarrow> bool" where
  "admitted C env m d enr \<longleftrightarrow>
     (if pinned_Contains (m_pubkey m) (r_pinned d) then \<not> enr
      else enr \<and> fst (window_verify C (m_pubkey m) (m_nonce m) (m_pair m) (sv_now env) (r_win d)) = pairOK)"

text \<open>
  \<open>challenged\<close>: the history's last reset was a join of \<open>key\<close> that was admitted in the state
  it met, and was answered with \<open>nonce\<close>.  \<open>proven\<close>: since then \<open>key\<close> has signed it.
\<close>

definition challenged ::
  "crypto \<Rightarrow> Identity \<Rightarrow> daemon \<Rightarrow> daemon_event list \<Rightarrow> string \<Rightarrow> string \<Rightarrow> bool \<Rightarrow> bool" where
  "challenged C me d0 es key nonce enr \<longleftrightarrow>
     (\<exists>es1 env m rnd es2. es = es1 @ Recv env m # es2 \<and> m_type m = TypeConnect \<and>
        (\<forall>e \<in> set es2. \<not> resets e) \<and> m_pubkey m = key \<and> sv_random env = Some rnd \<and>
        nonce = nonce_of rnd \<and> admitted C env m (daemon_run C me es1 d0) enr)"

definition proven ::
  "crypto \<Rightarrow> Identity \<Rightarrow> daemon \<Rightarrow> daemon_event list \<Rightarrow> string \<Rightarrow> bool \<Rightarrow> bool" where
  "proven C me d0 es key enr \<longleftrightarrow>
     (\<exists>es1 env m es2 nonce. es = es1 @ Recv env m # es2 \<and> m_type m = TypeProof \<and>
        (\<forall>e \<in> set es2. \<not> resets e) \<and> challenged C me d0 es1 key nonce enr \<and>
        Verify C key nonce (m_sig m))"

lemma challenged_snoc:
  "challenged C me d0 es key nonce enr \<Longrightarrow> \<not> resets e \<Longrightarrow> challenged C me d0 (es @ [e]) key nonce enr"
  unfolding challenged_def by fastforce

lemma proven_snoc:
  "proven C me d0 es key enr \<Longrightarrow> \<not> resets e \<Longrightarrow> proven C me d0 (es @ [e]) key enr"
  unfolding proven_def by fastforce

lemma daemon_run_snoc: "daemon_run C me (es @ [e]) d = daemon_step C me e (daemon_run C me es d)"
  by (simp add: daemon_run_def)

lemma send_fields [simp]:
  "r_authPub (send m d) = r_authPub d" "r_authNonce (send m d) = r_authNonce d"
  "r_enrolling (send m d) = r_enrolling d" "r_authed (send m d) = r_authed d"
  "r_pinned (send m d) = r_pinned d" "r_win (send m d) = r_win d" "r_objs (send m d) = r_objs d"
  "r_sess (send m d) = r_sess d" "r_trickle (send m d) = r_trickle d"
  "r_earlyCands (send m d) = r_earlyCands d" "r_iceServers (send m d) = r_iceServers d"
  "r_enrolled (send m d) = r_enrolled d" "r_sent (send m d) = r_sent d @ [m]"
  by (simp_all add: send_def)

lemma live_update_fields [simp]:
  "r_authPub (live_update i f d) = r_authPub d" "r_authNonce (live_update i f d) = r_authNonce d"
  "r_enrolling (live_update i f d) = r_enrolling d" "r_authed (live_update i f d) = r_authed d"
  "r_pinned (live_update i f d) = r_pinned d" "r_win (live_update i f d) = r_win d"
  "r_sess (live_update i f d) = r_sess d" "r_trickle (live_update i f d) = r_trickle d"
  "r_earlyCands (live_update i f d) = r_earlyCands d" "r_iceServers (live_update i f d) = r_iceServers d"
  "r_enrolled (live_update i f d) = r_enrolled d" "r_sent (live_update i f d) = r_sent d"
  "length (r_objs (live_update i f d)) = length (r_objs d)"
  by (simp_all add: live_update_def)

lemma cleanup_fields [simp]:
  "r_authPub (cleanup d) = []" "r_authNonce (cleanup d) = []" "r_enrolling (cleanup d) = False"
  "r_authed (cleanup d) = False" "r_pinned (cleanup d) = r_pinned d" "r_win (cleanup d) = r_win d"
  "r_sess (cleanup d) = None" "r_trickle (cleanup d) = False" "r_earlyCands (cleanup d) = []"
  "r_iceServers (cleanup d) = []" "r_enrolled (cleanup d) = r_enrolled d" "r_sent (cleanup d) = r_sent d"
  "length (r_objs (cleanup d)) = length (r_objs d)"
  by (simp_all add: cleanup_def Let_def split: option.splits)

lemma cleanup_idle [simp]: "r_sess d = None \<Longrightarrow> r_objs (cleanup d) = r_objs d"
  by (simp add: cleanup_def Let_def)

lemma daemon_step_auth:
  assumes "d' = daemon_step C me e d"
  obtains (reset) "r_authPub d' = []" "\<not> r_authed d'"
  | (joined) env m rnd where "e = Recv env m" "m_type m = TypeConnect" "r_authPub d' = m_pubkey m"
      "sv_random env = Some rnd" "r_authNonce d' = nonce_of rnd" "admitted C env m d (r_enrolling d')"
      "\<not> r_authed d'"
  | (proof_ok) env m where "e = Recv env m" "m_type m = TypeProof" "r_authPub d \<noteq> []"
      "Verify C (r_authPub d) (r_authNonce d) (m_sig m)" "r_authPub d' = r_authPub d"
      "r_authNonce d' = r_authNonce d" "r_enrolling d' = r_enrolling d" "r_authed d'"
  | (kept) "\<not> resets e" "r_authPub d' = r_authPub d" "r_authNonce d' = r_authNonce d"
      "r_enrolling d' = r_enrolling d" "r_authed d' = r_authed d"
proof (cases e)
  case (Recv env m)
  note d' = assms [unfolded Recv, simplified]
  consider "m_type m = TypeConnect" | "m_type m = TypeICEServers" | "m_type m = TypeProof"
    | "m_type m = TypeOffer" | "m_type m = TypeCandidate" | "m_type m = TypePeerLeft"
    | "m_type m \<notin> {TypeConnect, TypeICEServers, TypeProof, TypeOffer, TypeCandidate, TypePeerLeft}" by blast
  then show thesis
  proof cases
    case 1
    then have c: "d' = on_connect C env m d" by (simp add: d' serve_msg_def)
    show thesis
    proof (cases "r_authPub d' = [] \<and> \<not> r_authed d'")
      case True
      then show thesis by (blast intro: reset)
    next
      case False
      show thesis
      proof (cases "pinned_Contains (m_pubkey m) (r_pinned d)")
        case True
        with False c 1 Recv show thesis
          by (intro joined [of env m "the (sv_random env)"])
            (auto simp: on_connect_def Let_def admitted_def split: option.splits)
      next
        case notpinned: False
        obtain res w where w: "window_verify C (m_pubkey m) (m_nonce m) (m_pair m) (sv_now env) (r_win d) = (res, w)"
          by fastforce
        show thesis
        proof (cases "res = pairOK")
          case True
          with False notpinned w c 1 Recv show thesis
            by (intro joined [of env m "the (sv_random env)"])
              (auto simp: on_connect_def Let_def admitted_def split: option.splits)
        next
          case False
          with notpinned w c show thesis
            by (intro reset) (cases res; simp add: on_connect_def Let_def)+
        qed
      qed
    qed
  next
    case 2
    then show thesis by (intro kept) (simp_all add: d' serve_msg_def on_iceServers_def Recv)
  next
    case 3
    then have c: "d' = on_proof C env m d" by (simp add: d' serve_msg_def)
    show thesis
    proof (cases "r_authed d' \<and> r_authPub d \<noteq> [] \<and> Verify C (r_authPub d) (r_authNonce d) (m_sig m)")
      case True
      with c 3 Recv show thesis
        by (intro proof_ok [of env m]) (auto simp: on_proof_def Let_def split: prod.splits if_splits)
    next
      case False
      with c show thesis
        by (intro reset) (auto simp: on_proof_def Let_def split: prod.splits if_splits)
    qed
  next
    case 4
    then have c: "d' = on_offer C (id_Priv me) env m d" by (simp add: d' serve_msg_def)
    obtain answer s where a: "session_Answer (sv_pc env) (m_sdp m)
        (fold session_AddCandidate (r_earlyCands d)
          (let s = session_OnClose (ls_sess (startSession (r_iceServers d) (r_authPub d)))
           in if r_trickle d then session_OnCandidate s else s)) = (answer, s)" by fastforce
    show thesis
    proof (cases "r_authed d \<and> sv_start env = None \<and> (\<exists>x. answer = Inl x)")
      case True
      with c a show thesis by (intro reset) (auto simp: on_offer_def Let_def)
    next
      case False
      with c a 4 show thesis
        by (intro kept) (auto simp: on_offer_def Let_def Recv split: option.splits sum.splits)
    qed
  next
    case 5
    then show thesis
      by (intro kept) (simp_all add: d' serve_msg_def on_candidate_def Recv split: option.split)
  next
    case 6
    then show thesis by (intro reset) (simp_all add: d' serve_msg_def)
  next
    case 7
    then show thesis by (intro kept) (simp_all add: d' serve_msg_def Recv)
  qed
next
  case Reconnect
  then show thesis by (intro reset) (simp_all add: assms reconnect_def)
qed (rule kept; simp add: assms peer_died_def local_candidate_def)+

definition gate_inv :: "crypto \<Rightarrow> Identity \<Rightarrow> daemon \<Rightarrow> daemon_event list \<Rightarrow> daemon \<Rightarrow> bool" where
  "gate_inv C me d0 es d \<longleftrightarrow>
     (r_authPub d \<noteq> [] \<longrightarrow> challenged C me d0 es (r_authPub d) (r_authNonce d) (r_enrolling d)) \<and>
     (r_authed d \<longrightarrow> r_authPub d \<noteq> [] \<and> proven C me d0 es (r_authPub d) (r_enrolling d))"

lemma gate_inv_run: "gate_inv C me (new_daemon ps w) es (daemon_run C me es (new_daemon ps w))"
proof (induction es rule: rev_induct)
  case Nil
  show ?case by (simp add: gate_inv_def daemon_run_def new_daemon_def)
next
  case (snoc e es)
  let ?init = "new_daemon ps w"
  let ?d = "daemon_run C me es ?init" and ?d' = "daemon_run C me (es @ [e]) ?init"
  have step: "?d' = daemon_step C me e ?d" by (rule daemon_run_snoc)
  show ?case
  proof (cases rule: daemon_step_auth [OF step, case_names reset joined proof_ok kept])
    case reset
    then show ?thesis by (simp add: gate_inv_def)
  next
    case (joined env m rnd)
    then have "challenged C me ?init (es @ [e]) (r_authPub ?d') (r_authNonce ?d') (r_enrolling ?d')"
      unfolding challenged_def
      by - (rule exI [of _ es], rule exI [of _ env], rule exI [of _ m], rule exI [of _ rnd], rule exI [of _ "[]"], simp)
    with joined show ?thesis by (simp add: gate_inv_def)
  next
    case (proof_ok env m)
    have ch: "challenged C me ?init es (r_authPub ?d) (r_authNonce ?d) (r_enrolling ?d)"
      using snoc proof_ok(3) by (simp add: gate_inv_def)
    then have "proven C me ?init (es @ [e]) (r_authPub ?d') (r_enrolling ?d')"
      unfolding proven_def
      using proof_ok
      by - (rule exI [of _ es], rule exI [of _ env], rule exI [of _ m], rule exI [of _ "[]"],
          rule exI [of _ "r_authNonce ?d"], simp)
    moreover have "\<not> resets e" using proof_ok by simp
    ultimately show ?thesis using proof_ok challenged_snoc [OF ch] by (simp add: gate_inv_def)
  next
    case kept
    then show ?thesis
      using snoc by (auto simp: gate_inv_def intro: challenged_snoc proven_snoc)
  qed
qed

section \<open>Answers and enrolments\<close>

lemma b64_nonempty: "b64_decode pub = Some raw \<Longrightarrow> raw \<noteq> [] \<Longrightarrow> pub \<noteq> []"
  by (auto simp: b64_decode_def)

lemma on_offer_sent:
  "x \<in> set (r_sent (on_offer C priv env m d)) \<Longrightarrow> m_type x = TypeAnswer \<Longrightarrow>
     x \<in> set (r_sent d) \<or> r_authed d \<and> x = signedAnswer C priv (pe_localSDP (sv_pc env))"
  by (auto simp: on_offer_def Let_def session_Answer_def split: option.splits sum.splits prod.splits if_splits)

lemma daemon_step_sent:
  assumes "x \<in> set (r_sent (daemon_step C me e d))" and "m_type x = TypeAnswer"
  shows "x \<in> set (r_sent d) \<or> (\<exists>env m. e = Recv env m \<and> m_type m = TypeOffer \<and> r_authed d \<and>
           x = signedAnswer C (id_Priv me) (pe_localSDP (sv_pc env)))"
proof (cases e)
  case (Recv env m)
  then have x: "x \<in> set (r_sent (serve_msg C (id_Priv me) env m d))" using assms(1) by simp
  consider "m_type m = TypeConnect" | "m_type m = TypeICEServers" | "m_type m = TypeProof"
    | "m_type m = TypeOffer" | "m_type m = TypeCandidate" | "m_type m = TypePeerLeft"
    | "m_type m \<notin> {TypeConnect, TypeICEServers, TypeProof, TypeOffer, TypeCandidate, TypePeerLeft}" by blast
  then show ?thesis
  proof cases
    case 1
    with x assms(2) show ?thesis
      by (auto simp: serve_msg_def on_connect_def Let_def split: if_splits option.splits prod.splits pairResult.splits)
  next
    case 4
    with x assms(2) Recv on_offer_sent [of x C "id_Priv me" env m d] show ?thesis by (simp add: serve_msg_def)
  next
    case 3
    with x assms(2) show ?thesis
      by (auto simp: serve_msg_def on_proof_def Let_def split: if_splits prod.splits)
  next
    case 5
    with x show ?thesis by (simp add: serve_msg_def on_candidate_def split: if_splits option.splits)
  qed (use x in \<open>simp_all add: serve_msg_def on_iceServers_def\<close>)
next
  case (LocalCand i c)
  with assms show ?thesis
    by (auto simp: local_candidate_def candidateMsg_def Let_def split: if_splits option.splits)
qed (use assms in \<open>auto simp: peer_died_def reconnect_def registerMsg_def\<close>)

lemma answer_proven:
  assumes "x \<in> set (r_sent (daemon_run C me es (new_daemon ps w)))" and "m_type x = TypeAnswer"
  shows "\<exists>es1 env m es2 key enr. es = es1 @ Recv env m # es2 \<and> m_type m = TypeOffer \<and>
     proven C me (new_daemon ps w) es1 key enr \<and> key \<noteq> [] \<and>
     x = signedAnswer C (id_Priv me) (pe_localSDP (sv_pc env))"
  using assms
proof (induction es rule: rev_induct)
  case Nil
  then show ?case by (simp add: daemon_run_def new_daemon_def)
next
  case (snoc e es)
  let ?d = "daemon_run C me es (new_daemon ps w)"
  from daemon_step_sent [of x C me e ?d] snoc.prems
  consider "x \<in> set (r_sent ?d)"
    | env m where "e = Recv env m" "m_type m = TypeOffer" "r_authed ?d"
        "x = signedAnswer C (id_Priv me) (pe_localSDP (sv_pc env))"
    by (auto simp: daemon_run_snoc)
  then show ?case
  proof cases
    case 1
    from snoc.IH [OF 1 snoc.prems(2)] show ?thesis by (metis append_Cons append_assoc)
  next
    case 2
    have "r_authPub ?d \<noteq> []" "proven C me (new_daemon ps w) es (r_authPub ?d) (r_enrolling ?d)"
      using gate_inv_run [of C me ps w es] 2(3) by (simp_all add: gate_inv_def)
    with 2 show ?thesis by fastforce
  qed
qed

text \<open>
  C1: the daemon answers an offer only for a client that has just proved its key.  In any
  history of messages, callbacks, reconnects and pairing windows, each answer it sent was
  sent on an offer, is signed over exactly the SDP it carries, and since the last join (or
  reconnect, or departure) the joining key was admitted, being pinned or holding a valid
  pairing proof, was challenged with a fresh nonce, and signed that nonce.
\<close>

theorem answer_only_after_proof:
  assumes "x \<in> set (r_sent (daemon_run C me es (new_daemon ps w)))" and "m_type x = TypeAnswer"
  shows "\<exists>es1 env m es2 key enr. es = es1 @ Recv env m # es2 \<and> m_type m = TypeOffer \<and>
     proven C me (new_daemon ps w) es1 key enr \<and> key \<noteq> [] \<and>
     x = signedAnswer C (id_Priv me) (pe_localSDP (sv_pc env))"
  by (rule answer_proven [OF assms])

text \<open>A concrete client, for the instances below.\<close>

definition demo_raw :: string where "demo_raw = replicate 32 CHR ''k''"
definition demo_key :: string where "demo_key = b64_encode demo_raw"
definition demo_identity :: Identity where "demo_identity = \<lparr>id_PubB64 = ''D'', id_Priv = ''P''\<rparr>"

definition demo_env :: "save_call option \<Rightarrow> serve_env" where
  "demo_env fault =
     \<lparr>sv_now = 5, sv_random = Some ''r'', sv_save = fault, sv_start = None,
      sv_pc = \<lparr>pe_setRemote = None, pe_createAnswer = None, pe_setLocal = None, pe_localSDP = ''sdp''\<rparr>\<rparr>"

definition demo_join :: "daemon_event" where
  "demo_join = Recv (demo_env None)
     ((msg_of_type TypeConnect)\<lparr>m_pubkey := demo_key, m_nonce := ''n'',
        m_pair := EnrollProof plain_crypto ''S'' demo_key ''n''\<rparr>)"

definition demo_proof :: "save_call option \<Rightarrow> daemon_event" where
  "demo_proof fault = Recv (demo_env fault)
     ((msg_of_type TypeProof)\<lparr>m_sig := b64_encode (demo_raw @ nonce_of ''r'')\<rparr>)"

definition demo_offer :: "daemon_event" where
  "demo_offer = Recv (demo_env None) ((msg_of_type TypeOffer)\<lparr>m_sdp := ''offer''\<rparr>)"

definition demo_start :: daemon where
  "demo_start = new_daemon empty_pins NewPairingWindow"

definition demo_history :: "daemon_event list" where
  "demo_history = [WindowOpen ''S'' 0 10, demo_join, demo_proof None, demo_offer]"

lemma demo_verify: "Verify plain_crypto demo_key msg (b64_encode (demo_raw @ msg))"
  by (simp add: Verify_def demo_key_def b64_decode_encode plain_crypto_def) (simp add: demo_raw_def)

lemma demo_key_nonempty: "demo_key \<noteq> []"
  using b64_decode_encode [of demo_raw] by (auto simp: demo_key_def demo_raw_def b64_decode_def)

definition demo_joined :: daemon where
  "demo_joined = daemon_run plain_crypto demo_identity [WindowOpen ''S'' 0 10, demo_join] demo_start"

lemma demo_joined_fields:
  "r_authPub demo_joined = demo_key" "r_authNonce demo_joined = nonce_of ''r''" "r_enrolling demo_joined"
  "\<not> r_authed demo_joined" "r_pinned demo_joined = empty_pins" "r_sess demo_joined = None"
  "r_objs demo_joined = []" "\<not> r_trickle demo_joined" "r_earlyCands demo_joined = []"
  by (simp_all add: demo_joined_def daemon_run_def demo_start_def new_daemon_def demo_join_def serve_msg_def
      on_connect_def pinned_Contains_def empty_pins_def window_verify_def window_open_def
      NewPairingWindow_def VerifyEnrollProof_def demo_env_def Let_def)

definition demo_authed :: daemon where
  "demo_authed = daemon_step plain_crypto demo_identity (demo_proof None) demo_joined"

lemma demo_authed_fields:
  "r_authed demo_authed" "r_authPub demo_authed = demo_key" "r_sess demo_authed = None"
  "r_objs demo_authed = []" "\<not> r_trickle demo_authed" "r_earlyCands demo_authed = []"
  by (simp_all add: demo_authed_def demo_proof_def serve_msg_def on_proof_def demo_joined_fields
      demo_key_nonempty demo_verify pinned_Add_def pinned_save_ok_iff demo_env_def Let_def case_prod_unfold)

lemma demo_run: "daemon_run plain_crypto demo_identity demo_history demo_start =
    daemon_step plain_crypto demo_identity demo_offer demo_authed"
  by (simp add: demo_history_def daemon_run_def demo_authed_def demo_joined_def)

lemma demo_answers:
  "signedAnswer plain_crypto (id_Priv demo_identity) ''sdp''
     \<in> set (r_sent (daemon_run plain_crypto demo_identity demo_history demo_start))"
  "m_type (signedAnswer plain_crypto (id_Priv demo_identity) ''sdp'') = TypeAnswer"
proof -
  let ?x = "signedAnswer plain_crypto (id_Priv demo_identity) ''sdp''"
  have "?x \<in> set (r_sent (daemon_step plain_crypto demo_identity demo_offer demo_authed))"
    by (simp add: demo_offer_def serve_msg_def on_offer_def demo_authed_fields demo_env_def Let_def
        session_Answer_def split: prod.split)
  then show "?x \<in> set (r_sent (daemon_run plain_crypto demo_identity demo_history demo_start))"
    by (simp add: demo_run)
  show "m_type ?x = TypeAnswer" by (simp add: signedAnswer_def)
qed

theorem answer_only_after_proof_witness:
  "\<exists>es1 env m es2 key enr. demo_history = es1 @ Recv env m # es2 \<and> m_type m = TypeOffer \<and>
     proven plain_crypto demo_identity demo_start es1 key enr"
  using answer_only_after_proof [of _ plain_crypto demo_identity demo_history empty_pins NewPairingWindow]
    demo_answers unfolding demo_start_def by blast

section \<open>What is pinned\<close>

lemma on_connect_kept:
  "r_pinned (on_connect C env m d) = r_pinned d" "r_objs (on_connect C env m d) = r_objs (cleanup d)"
  "r_sess (on_connect C env m d) = None" "\<not> r_trickle (on_connect C env m d)"
  "r_earlyCands (on_connect C env m d) = []" "\<not> r_authed (on_connect C env m d)"
  by (auto simp: on_connect_def Let_def split: option.splits prod.splits pairResult.splits if_splits)

lemma daemon_step_pinned:
  "r_pinned (daemon_step C me e d) = r_pinned d \<or>
     (\<exists>env m. e = Recv env m \<and> m_type m = TypeProof \<and> r_enrolling d \<and> r_authPub d \<noteq> [] \<and>
        Verify C (r_authPub d) (r_authNonce d) (m_sig m) \<and>
        r_pinned (daemon_step C me e d) = snd (pinned_Add (sv_save env) (r_authPub d) [] (r_pinned d)))"
proof (cases e)
  case (Recv env m)
  consider "m_type m = TypeProof" | "m_type m = TypeConnect" | "m_type m \<notin> {TypeProof, TypeConnect}" by blast
  then show ?thesis
  proof cases
    case 1
    then show ?thesis
      using Recv by (auto simp: serve_msg_def on_proof_def Let_def case_prod_unfold)
  next
    case 2
    then have "r_pinned (daemon_step C me e d) = r_pinned d"
      by (simp add: Recv serve_msg_def on_connect_kept)
    then show ?thesis by simp
  next
    case 3
    then show ?thesis
      by (simp add: Recv serve_msg_def on_iceServers_def on_candidate_def on_offer_def Let_def
          split: option.split prod.split sum.split)
  qed
qed (simp_all add: peer_died_def local_candidate_def reconnect_def)

text \<open>
  C7: a client is enrolled only by pairing.  A key pinned after any history was pinned before
  it, or the history holds a join of that key whose pairing proof opened the window, followed
  by its signature of the challenge, with no other join, departure or reconnect in between.
\<close>

theorem pinned_only_by_pairing:
  assumes "pinned_Contains k (r_pinned (daemon_run C me es (new_daemon ps w)))"
  shows "pinned_Contains k ps \<or>
     (\<exists>es1 es2. es = es1 @ es2 \<and> proven C me (new_daemon ps w) es1 k True)"
  using assms
proof (induction es rule: rev_induct)
  case Nil
  then show ?case by (simp add: daemon_run_def new_daemon_def)
next
  case (snoc e es)
  let ?d = "daemon_run C me es (new_daemon ps w)"
  show ?case
  proof (cases "pinned_Contains k (r_pinned ?d)")
    case True
    from snoc.IH [OF this] show ?thesis by (metis append_assoc)
  next
    case False
    with snoc.prems daemon_step_pinned [of C me e ?d]
    obtain env m where e: "e = Recv env m" "m_type m = TypeProof" "r_enrolling ?d" "r_authPub ?d \<noteq> []"
      "Verify C (r_authPub ?d) (r_authNonce ?d) (m_sig m)" and k: "k = r_authPub ?d"
      by (auto simp: daemon_run_snoc)
    have "challenged C me (new_daemon ps w) es k (r_authNonce ?d) True"
      using gate_inv_run [of C me ps w es] e(3,4) by (simp add: gate_inv_def k)
    then have "proven C me (new_daemon ps w) (es @ [e]) k True"
      unfolding proven_def using e
      by - (rule exI [of _ es], rule exI [of _ env], rule exI [of _ m], rule exI [of _ "[]"],
          rule exI [of _ "r_authNonce ?d"], simp add: k)
    then show ?thesis by blast
  qed
qed

lemma demo_authed_pinned: "pinned_Contains demo_key (r_pinned demo_authed)"
  by (simp add: demo_authed_def demo_proof_def serve_msg_def on_proof_def demo_joined_fields
      demo_key_nonempty demo_verify pinned_save_ok_iff demo_env_def Let_def case_prod_unfold)

theorem pinned_only_by_pairing_witness:
  "\<exists>es1 es2. [WindowOpen ''S'' 0 10, demo_join, demo_proof None] = es1 @ es2 \<and>
     proven plain_crypto demo_identity demo_start es1 demo_key True"
proof -
  have "daemon_run plain_crypto demo_identity [WindowOpen ''S'' 0 10, demo_join, demo_proof None] demo_start
      = demo_authed"
    by (simp add: daemon_run_def demo_authed_def demo_joined_def)
  moreover have "\<not> pinned_Contains demo_key empty_pins" by (simp add: pinned_Contains_def empty_pins_def)
  ultimately show ?thesis
    unfolding demo_start_def using pinned_only_by_pairing demo_authed_pinned by metis
qed

text \<open>
  The hello's pin acknowledgement.  As long as every save succeeds, a client past the gate
  has its key in the file, not only in memory.
\<close>

definition on_disk :: "PinnedStore \<Rightarrow> bool" where
  \<comment> \<open>a reload finds exactly the keys in memory\<close>
  "on_disk ps \<longleftrightarrow> (\<exists>t. LoadPinnedStore (ps_disk ps) = Some t \<and> (\<forall>k. pinned_Contains k t \<longleftrightarrow> pinned_Contains k ps))"

fun saves_ok :: "daemon_event \<Rightarrow> bool" where
  "saves_ok (Recv env m) \<longleftrightarrow> sv_save env = None"
| "saves_ok _ \<longleftrightarrow> True"

definition durable_inv :: "daemon \<Rightarrow> bool" where
  "durable_inv d \<longleftrightarrow> pinned_wf (r_pinned d) \<and> on_disk (r_pinned d) \<and>
     (r_authPub d \<noteq> [] \<and> \<not> r_enrolling d \<longrightarrow> pinned_Contains (r_authPub d) (r_pinned d)) \<and>
     (r_authed d \<longrightarrow> pinned_Contains (r_authPub d) (r_pinned d))"

lemma on_disk_Add:
  assumes "pinned_wf ps"
  shows "on_disk (snd (pinned_Add None k n ps))"
proof -
  have "fst (pinned_Add None k n ps)" by (simp add: pinned_Add_def pinned_save_ok_iff)
  from pin.add_durable [OF assms this] show ?thesis by (auto simp: on_disk_def)
qed

lemma proof_pins:
  assumes "e = Recv env m" and "m_type m = TypeProof" and "r_authPub d \<noteq> []" and "r_enrolling d"
    and "Verify C (r_authPub d) (r_authNonce d) (m_sig m)"
  shows "pinned_Contains (r_authPub d) (r_pinned (daemon_step C me e d))"
  using assms by (simp add: serve_msg_def on_proof_def Let_def case_prod_unfold)

lemma durable_inv_step:
  assumes inv: "durable_inv d" and ok: "saves_ok e"
  shows "durable_inv (daemon_step C me e d)"
proof -
  let ?d = "daemon_step C me e d"
  have wf: "pinned_wf (r_pinned ?d) \<and> on_disk (r_pinned ?d)"
    using daemon_step_pinned [of C me e d] inv ok
    by (auto simp: durable_inv_def inv_intros on_disk_Add)
  have keep: "pinned_Contains k (r_pinned d) \<Longrightarrow> pinned_Contains k (r_pinned ?d)" for k
    using daemon_step_pinned [of C me e d] pin.add_keeps by fastforce
  show ?thesis
  proof (cases rule: daemon_step_auth [OF refl, of C me e d, case_names reset joined proof_ok kept])
    case reset
    with wf show ?thesis by (simp add: durable_inv_def)
  next
    case (joined env m rnd)
    then have "\<not> r_enrolling ?d \<Longrightarrow> pinned_Contains (r_authPub ?d) (r_pinned d)"
      by (auto simp: admitted_def split: if_splits)
    with wf joined keep show ?thesis by (auto simp: durable_inv_def)
  next
    case (proof_ok env m)
    have "pinned_Contains (r_authPub d) (r_pinned ?d)"
    proof (cases "r_enrolling d")
      case True
      with proof_ok show ?thesis by (intro proof_pins [of e env m]) simp_all
    next
      case False
      with inv proof_ok keep show ?thesis by (simp add: durable_inv_def)
    qed
    with wf proof_ok show ?thesis by (simp add: durable_inv_def)
  next
    case kept
    with wf inv keep show ?thesis by (auto simp: durable_inv_def)
  qed
qed

text \<open>A client in the act of enrolling is past the gate only if its own save went through.\<close>

definition enrol_inv :: "daemon \<Rightarrow> bool" where
  "enrol_inv d \<longleftrightarrow> pinned_wf (r_pinned d) \<and>
     (r_authed d \<and> r_enrolling d \<longrightarrow> on_disk (r_pinned d) \<and> pinned_Contains (r_authPub d) (r_pinned d))"

lemma enrolling_proof_saves:
  assumes "e = Recv env m" "m_type m = TypeProof" "r_enrolling d" "r_authPub d \<noteq> []"
    "Verify C (r_authPub d) (r_authNonce d) (m_sig m)" "r_authed (daemon_step C me e d)"
  shows "r_pinned (daemon_step C me e d) = snd (pinned_Add None (r_authPub d) [] (r_pinned d))"
  using assms
  by (cases "sv_save env")
    (simp_all add: serve_msg_def on_proof_def Let_def case_prod_unfold pinned_Add_def pinned_save_ok_iff)

lemma enrol_inv_step [inv_intros]:
  assumes inv: "enrol_inv d"
  shows "enrol_inv (daemon_step C me e d)"
proof -
  let ?d = "daemon_step C me e d"
  have wf: "pinned_wf (r_pinned ?d)"
    using daemon_step_pinned [of C me e d] inv by (auto simp: enrol_inv_def inv_intros)
  have saved: "on_disk (r_pinned ?d) \<and> pinned_Contains (r_authPub d) (r_pinned ?d)"
    if "e = Recv env m" "m_type m = TypeProof" "r_enrolling d" "r_authPub d \<noteq> []"
      "Verify C (r_authPub d) (r_authNonce d) (m_sig m)" "r_authed ?d" for env m
    using enrolling_proof_saves [OF that] inv by (simp add: enrol_inv_def on_disk_Add)
  show ?thesis
  proof (cases rule: daemon_step_auth [OF refl, of C me e d, case_names reset joined proof_ok kept])
    case (proof_ok env m)
    with wf saved show ?thesis by (simp add: enrol_inv_def)
  next
    case kept
    with wf saved inv daemon_step_pinned [of C me e d] show ?thesis by (auto simp: enrol_inv_def)
  qed (use wf in \<open>simp_all add: enrol_inv_def\<close>)
qed

lemma enrol_inv_run: "pinned_wf ps \<Longrightarrow> enrol_inv (daemon_run C me es (new_daemon ps w))"
proof (induction es rule: rev_induct)
  case Nil
  then show ?case by (simp add: enrol_inv_def daemon_run_def new_daemon_def)
qed (simp add: daemon_run_snoc inv_intros)

lemma durable_inv_run:
  "pinned_wf ps \<Longrightarrow> on_disk ps \<Longrightarrow> \<forall>e \<in> set es. saves_ok e \<Longrightarrow>
     durable_inv (daemon_run C me es (new_daemon ps w))"
proof (induction es rule: rev_induct)
  case Nil
  then show ?case by (simp add: durable_inv_def daemon_run_def new_daemon_def)
qed (simp add: daemon_run_snoc durable_inv_step)

text \<open>
  C10: the greeting's \<open>paired: true\<close> is not a lie.  In any history a client that has just
  enrolled and passed the gate is found in the file by a restarted daemon, whatever saves
  failed for others before it; and a client that was already pinned is found there too, if the
  store agreed with its file at the start and no save has failed since.
\<close>

theorem authed_client_durably_pinned:
  assumes "pinned_wf ps" and "r_authed (daemon_run C me es (new_daemon ps w))"
    and "r_enrolling (daemon_run C me es (new_daemon ps w)) \<or> on_disk ps \<and> (\<forall>e \<in> set es. saves_ok e)"
  shows "\<exists>t. LoadPinnedStore (ps_disk (r_pinned (daemon_run C me es (new_daemon ps w)))) = Some t \<and>
           pinned_Contains (r_authPub (daemon_run C me es (new_daemon ps w))) t"
  using enrol_inv_run [OF assms(1), of C me es w] durable_inv_run [OF assms(1), of es C me w] assms(2,3)
  by (auto simp: enrol_inv_def durable_inv_def on_disk_def)

lemma on_disk_empty: "on_disk empty_pins"
  by (simp add: on_disk_def empty_pins_def LoadPinnedStore_def pinned_Contains_def)

theorem authed_client_durably_pinned_witness:
  "\<exists>t. LoadPinnedStore (ps_disk (r_pinned demo_authed)) = Some t \<and> pinned_Contains demo_key t"
proof -
  let ?es = "[WindowOpen ''S'' 0 10, demo_join, demo_proof None]"
  have run: "daemon_run plain_crypto demo_identity ?es (new_daemon empty_pins NewPairingWindow) = demo_authed"
    by (simp add: daemon_run_def demo_authed_def demo_joined_def demo_start_def)
  have "\<forall>e \<in> set ?es. saves_ok e" by (simp add: demo_join_def demo_proof_def demo_env_def)
  with on_disk_empty show ?thesis
    using authed_client_durably_pinned [OF empty_pins_wf, of plain_crypto demo_identity ?es NewPairingWindow]
    unfolding run by (simp add: demo_authed_fields)
qed

text \<open>
  When a save fails it is different: the key stays in the map in memory, so the next join of
  the same client is admitted as pinned, without a window, and the file knows nothing of it.
\<close>

definition demo_failed :: daemon where
  "demo_failed = daemon_step plain_crypto demo_identity (demo_proof (Some Rename)) demo_joined"

definition demo_lost :: daemon where
  "demo_lost = daemon_run plain_crypto demo_identity [demo_join, demo_proof None] demo_failed"

lemma demo_failed_fields:
  "r_sess demo_failed = None" "r_pinned demo_failed = snd (pinned_Add (Some Rename) demo_key [] empty_pins)"
  by (simp_all add: demo_failed_def demo_proof_def serve_msg_def on_proof_def demo_joined_fields
      demo_key_nonempty demo_verify pinned_Add_def pinned_save_ok_iff demo_env_def Let_def case_prod_unfold)

lemma failed_pin_still_admits:
  "r_authed demo_lost \<and> r_authPub demo_lost = demo_key \<and>
     \<not> (\<exists>t. LoadPinnedStore (ps_disk (r_pinned demo_lost)) = Some t \<and> pinned_Contains demo_key t)"
proof -
  have "pinned_Contains demo_key (r_pinned demo_failed)" by (simp add: demo_failed_fields)
  then have j: "r_authPub (daemon_step plain_crypto demo_identity demo_join demo_failed) = demo_key"
    "r_authNonce (daemon_step plain_crypto demo_identity demo_join demo_failed) = nonce_of ''r''"
    "\<not> r_enrolling (daemon_step plain_crypto demo_identity demo_join demo_failed)"
    "r_pinned (daemon_step plain_crypto demo_identity demo_join demo_failed) = r_pinned demo_failed"
    by (simp_all add: demo_join_def serve_msg_def on_connect_def demo_env_def Let_def)
  have l: "r_authed demo_lost" "r_authPub demo_lost = demo_key" "r_pinned demo_lost = r_pinned demo_failed"
    by (simp_all add: demo_lost_def daemon_run_def)
      (simp_all add: demo_proof_def serve_msg_def on_proof_def j demo_key_nonempty demo_verify)
  have "pd_file (ps_disk (r_pinned demo_failed)) = Missing"
    by (simp add: demo_failed_fields pinned_Add_def pd_file_save empty_pins_def)
  then show ?thesis using l by (simp add: LoadPinnedStore_def pinned_Contains_def)
qed

section \<open>One live session at a time\<close>

definition sole :: "daemon \<Rightarrow> bool" where
  "sole d \<longleftrightarrow> (\<forall>i < length (r_objs d). ls_cancelled (r_objs d ! i) \<or> r_sess d = Some i) \<and>
     (\<forall>i. r_sess d = Some i \<longrightarrow> i < length (r_objs d))"

fun polite :: "crypto \<Rightarrow> Identity \<Rightarrow> daemon_event list \<Rightarrow> daemon \<Rightarrow> bool" where
  \<comment> \<open>no offer is received while the session of an earlier one is current\<close>
  "polite C me [] d \<longleftrightarrow> True"
| "polite C me (e # es) d \<longleftrightarrow>
     (case e of Recv env m \<Rightarrow> m_type m = TypeOffer \<longrightarrow> r_sess d = None | _ \<Rightarrow> True)
     \<and> polite C me es (daemon_step C me e d)"

lemma live_close_cancelled [simp]: "ls_cancelled (live_close l)" "ls_cancelled (live_cancel l)"
  by (simp_all add: live_close_def live_cancel_def)

lemma cleanup_all_cancelled:
  assumes "sole d"
  shows "\<forall>i < length (r_objs (cleanup d)). ls_cancelled (r_objs (cleanup d) ! i)"
proof (cases "r_sess d")
  case None
  with assms show ?thesis by (simp add: sole_def)
next
  case (Some i)
  with assms show ?thesis
    by (auto simp: sole_def cleanup_def Let_def live_update_def nth_list_update)
qed

lemma sole_cleanup: "sole d \<Longrightarrow> sole (cleanup d)"
  using cleanup_all_cancelled [of d] by (simp add: sole_def)

lemma sole_cong: "sole d \<Longrightarrow> r_objs d' = r_objs d \<Longrightarrow> r_sess d' = r_sess d \<Longrightarrow> sole d'"
  by (simp add: sole_def)

lemma sole_live_update:
  assumes "sole d" and "\<And>l. ls_cancelled l \<Longrightarrow> ls_cancelled (f l)"
  shows "sole (live_update i f d)"
  using assms by (auto simp: sole_def live_update_def nth_list_update)

lemma sole_offer:
  assumes "sole d" and "r_sess d = None"
  shows "sole (on_offer C priv env m d)"
proof -
  have app: "sole (d\<lparr>r_objs := r_objs d @ [l], r_sess := Some (length (r_objs d)), r_earlyCands := []\<rparr>)" for l
    using assms by (auto simp: sole_def nth_append)
  have sent: "sole (send x d')" if "sole d'" for x d'
    using that by (rule sole_cong) simp_all
  show ?thesis
    using assms(1) app
    by (auto simp: on_offer_def Let_def intro!: sent sole_cleanup split: option.split sum.split prod.split)
qed

lemma sole_step:
  assumes "sole d" and "polite C me [e] d"
  shows "sole (daemon_step C me e d)"
proof (cases e)
  case (Recv env m)
  have pin: "sole (d\<lparr>r_pinned := ps\<rparr>)" for ps using assms(1) by (rule sole_cong) simp_all
  have sent: "sole (send x d')" if "sole d'" for x d' using that by (rule sole_cong) simp_all
  have conn: "sole (on_connect C env m d)"
    using sole_cleanup [OF assms(1)] by (rule sole_cong) (simp_all add: on_connect_kept)
  have prv: "sole (on_proof C env m d)"
    using assms(1) pin
    by (auto simp: on_proof_def Let_def intro!: sole_cleanup sent sole_cong [OF assms(1)] split: prod.split)
  have cand: "sole (on_candidate m d)"
    using assms(1)
    by (auto simp: on_candidate_def intro!: sole_live_update intro: sole_cong [OF assms(1)] split: option.split)
  have ice: "sole (on_iceServers m d)"
    using assms(1) by (rule sole_cong) (simp_all add: on_iceServers_def)
  show ?thesis
    using conn prv cand ice assms sole_offer [OF assms(1), of C "id_Priv me" env m]
    by (simp add: Recv serve_msg_def sole_cleanup)
next
  case (PeerDied i)
  have "ls_cancelled l \<Longrightarrow> ls_cancelled
      (let (fires, s) = session_fireClose (ls_sess l); l = l\<lparr>ls_sess := s\<rparr> in if fires then live_cancel l else l)" for l
    by (simp add: case_prod_unfold Let_def)
  then show ?thesis using PeerDied assms(1) by (simp add: peer_died_def sole_live_update)
next
  case (LocalCand i c)
  then show ?thesis using sole_cong [OF assms(1)] by (simp add: local_candidate_def)
next
  case Reconnect
  then show ?thesis using sole_cong [OF sole_cleanup [OF assms(1)]] by (simp add: reconnect_def)
qed (use sole_cong [OF assms(1)] in simp_all)

lemma sole_run: "polite C me es d \<Longrightarrow> sole d \<Longrightarrow> sole (daemon_run C me es d)"
proof (induction es arbitrary: d)
  case (Cons e es)
  then have "sole (daemon_step C me e d)" by (intro sole_step) simp_all
  with Cons show ?case by (simp add: daemon_run_def)
qed (simp add: daemon_run_def)



text \<open>
  A second offer on the same handshake, which the gate lets through, drops the reference to
  the first session without cancelling it: two sessions stay alive, one of them out of reach.
\<close>

lemma second_offer_strands_a_session:
  "\<exists>d. d = daemon_step plain_crypto demo_identity demo_offer
             (daemon_step plain_crypto demo_identity demo_offer demo_authed)
     \<and> length (r_objs d) = 2 \<and> \<not> ls_cancelled (r_objs d ! 0) \<and> r_sess d = Some 1"
  by (simp add: demo_offer_def serve_msg_def on_offer_def demo_authed_fields demo_env_def Let_def
      session_Answer_def startSession_def case_prod_unfold)

section \<open>Candidates, end to end\<close>

lemma early_candidates:
  assumes "r_authed d" and "r_trickle d" and "r_sess d = None" and "length (r_earlyCands d) \<le> maxEarlyCands"
  shows "fold on_candidate ms d =
     d\<lparr>r_earlyCands := take maxEarlyCands (r_earlyCands d @ map candidate_init_of ms)\<rparr>"
  using assms
proof (induction ms arbitrary: d)
  case (Cons m ms)
  let ?e = "if length (r_earlyCands d) < maxEarlyCands
            then r_earlyCands d @ [candidate_init_of m] else r_earlyCands d"
  have "on_candidate m d = d\<lparr>r_earlyCands := ?e\<rparr>"
    using Cons.prems by (simp add: on_candidate_def)
  moreover have "length ?e \<le> maxEarlyCands" using Cons.prems by simp
  ultimately show ?case using Cons by (auto simp: take_Cons')
qed simp

lemma late_candidates:
  assumes "r_authed d" and "r_trickle d" and "r_sess d = Some i" and "i < length (r_objs d)"
  shows "r_sess (fold on_candidate ms d) = Some i \<and>
     ls_sess (r_objs (fold on_candidate ms d) ! i) =
       fold session_AddCandidate (map candidate_init_of ms) (ls_sess (r_objs d ! i))"
  using assms
proof (induction ms arbitrary: d)
  case (Cons m ms)
  have step: "on_candidate m d =
      live_update i (\<lambda>l. l\<lparr>ls_sess := session_AddCandidate (candidate_init_of m) (ls_sess l)\<rparr>) d"
    using Cons.prems by (simp add: on_candidate_def)
  then show ?case
    using Cons.IH [of "on_candidate m d"] Cons.prems by (simp add: live_update_def)
qed simp

lemma session_before_offer:
  "session_inv (session_OnCandidate (session_OnClose (session_OnControlOpen new_session)))"
  "\<not> s_remoteSet (session_OnCandidate (session_OnClose (session_OnControlOpen new_session)))"
  "added (session_OnCandidate (session_OnClose (session_OnControlOpen new_session))) = []"
  "s_pending (session_OnCandidate (session_OnClose (session_OnControlOpen new_session))) = []"
  by (simp_all add: session_inv_def session_OnCandidate_def session_OnClose_def session_OnControlOpen_def
      new_session_def added_def List.map_filter_simps)

text \<open>
  Trickled candidates reach the session, in order.  For a client past the gate whose
  broker negotiated trickle, the candidates it sends ahead of its offer wait (the first 64 of
  them) and are given to the new session's peer connection once the offer is in, followed by
  every later one, none reordered and none lost to the race with the offer.
\<close>

theorem trickled_candidates_arrive:
  assumes "r_authed d" and "r_trickle d" and "r_sess d = None" and "r_earlyCands d = []"
    and "sv_start env = None" and "fst (session_Answer (sv_pc env) (m_sdp m) new_session) = Inr sdp"
    and "d2 = on_offer C priv env m (fold on_candidate early d)" and "d3 = fold on_candidate late d2"
  shows "r_sess d3 = Some (length (r_objs d)) \<and>
     added (ls_sess (r_objs d3 ! length (r_objs d))) =
       take maxEarlyCands (map candidate_init_of early) @ map candidate_init_of late"
proof -
  have pe: "pe_setRemote (sv_pc env) = None" "pe_createAnswer (sv_pc env) = None" "pe_setLocal (sv_pc env) = None"
    using assms(6) by (auto simp: session_Answer_def Let_def split: option.splits if_splits)
  let ?cs = "take maxEarlyCands (map candidate_init_of early)"
  let ?s0 = "session_OnCandidate (session_OnClose (session_OnControlOpen new_session))"
  let ?s1 = "fold session_AddCandidate ?cs ?s0"
  let ?s2 = "snd (session_Answer (sv_pc env) (m_sdp m) ?s1)"
  have s1: "session_inv ?s1" "\<not> s_remoteSet ?s1" "s_pending ?s1 = ?cs" "added ?s1 = []"
    using fold_AddCandidate_before [of ?s0 ?cs] session_before_offer
    by (simp_all add: maxPendingCands_def maxEarlyCands_def)
  have ans: "\<exists>x. fst (session_Answer (sv_pc env) (m_sdp m) ?s1) = Inr x"
    using pe by (simp add: session_Answer_def Let_def)
  have s2: "session_inv ?s2" "s_remoteSet ?s2" "taken ?s2 = ?cs"
    using s1 pe by (simp_all add: inv_intros remoteSet_Answer taken_Answer) (simp add: taken_def)
  then have a2: "added ?s2 = ?cs" by (simp add: taken_def session_inv_def)
  have early: "fold on_candidate early d = d\<lparr>r_earlyCands := ?cs\<rparr>"
    using early_candidates [of d early] assms(1-4) by simp
  have d2: "r_sess d2 = Some (length (r_objs d))" "r_authed d2" "r_trickle d2"
    "length (r_objs d2) = Suc (length (r_objs d))" "ls_sess (r_objs d2 ! length (r_objs d)) = ?s2"
    using assms(1,2,5) ans
    by (auto simp: assms(7) early on_offer_def Let_def startSession_def case_prod_unfold)
  have "r_sess d3 = Some (length (r_objs d)) \<and>
     ls_sess (r_objs d3 ! length (r_objs d)) = fold session_AddCandidate (map candidate_init_of late) ?s2"
    using late_candidates [of d2 "length (r_objs d)" late] d2 by (simp add: assms(8))
  then show ?thesis using fold_AddCandidate_after [OF s2(1,2)] a2 by simp
qed

theorem trickled_candidates_arrive_witness:
  "r_sess (on_offer plain_crypto ''P'' (demo_env None) (msg_of_type TypeOffer)
      (demo_authed\<lparr>r_trickle := True\<rparr>)) = Some 0"
proof -
  let ?d = "demo_authed\<lparr>r_trickle := True\<rparr>"
  have "fst (session_Answer (sv_pc (demo_env None)) (m_sdp (msg_of_type TypeOffer)) new_session) = Inr ''sdp''"
    by (simp add: session_Answer_def demo_env_def Let_def)
  moreover have "r_authed ?d" "r_trickle ?d" "r_sess ?d = None" "r_earlyCands ?d = []"
    by (simp_all add: demo_authed_fields)
  moreover have "sv_start (demo_env None) = None" by (simp add: demo_env_def)
  ultimately have "r_sess (fold on_candidate [] (on_offer plain_crypto ''P'' (demo_env None)
      (msg_of_type TypeOffer) (fold on_candidate [] ?d))) = Some (length (r_objs ?d))"
    using trickled_candidates_arrive by blast
  moreover have "length (r_objs ?d) = 0" by (simp add: demo_authed_fields)
  ultimately show ?thesis by (simp only: fold_Nil id_apply)
qed

section \<open>Identity and reconnects\<close>

text \<open>
  The daemon's identity is stable.  An existing key file is never rewritten, and the
  identity generated on the first run is the one every later run loads.
\<close>

theorem identity_stable:
  assumes "length priv = PrivateKeySize"
  shows "(f = KeyMissing \<or> snd (LoadOrCreateIdentity kg mk wr f) = f)
    \<and> (\<exists>me f'. LoadOrCreateIdentity (Some priv) None None KeyMissing = (Inr me, f')
         \<and> LoadOrCreateIdentity kg mk wr f' = (Inr me, f'))"
  using assms by (cases f) (auto simp: LoadOrCreateIdentity_def b64_decode_encode split: option.split)

theorem identity_stable_witness:
  "\<exists>me f'. LoadOrCreateIdentity (Some (replicate 64 CHR ''k'')) None None KeyMissing = (Inr me, f')
     \<and> LoadOrCreateIdentity None None None f' = (Inr me, f')"
  using identity_stable [of "replicate 64 CHR ''k''" KeyMissing None None None]
  by (simp add: PrivateKeySize_def)

lemma backoff_step_bounds:
  assumes "second \<le> b" and "b \<le> maxBackoff" and "backoff_step b up = (w, b')"
  shows "second \<le> w \<and> w \<le> maxBackoff \<and> second \<le> b' \<and> b' \<le> maxBackoff"
  using assms by (auto simp: backoff_step_def Let_def maxBackoff_def time_units split: if_splits)

lemma backoff_waits_bounds:
  "second \<le> b \<Longrightarrow> b \<le> maxBackoff \<Longrightarrow> w \<in> set (backoff_waits b ups) \<Longrightarrow> second \<le> w \<and> w \<le> maxBackoff"
proof (induction ups arbitrary: b)
  case (Cons up ups)
  obtain w1 b1 where s: "backoff_step b up = (w1, b1)" by fastforce
  with Cons backoff_step_bounds [OF Cons.prems(1,2) s] show ?case by auto
qed simp

lemma backoff_doubles:
  "(\<forall>u \<in> set ups. u \<le> maxBackoff) \<Longrightarrow>
     backoff_waits (min (2 ^ k * second) maxBackoff) ups =
       map (\<lambda>n. min (2 ^ (k + n) * second) maxBackoff) [0..<length ups]"
proof (induction ups arbitrary: k)
  case (Cons u ups)
  have "(if maxBackoff < min (2 ^ k * second) maxBackoff * 2 then maxBackoff
         else min (2 ^ k * second) maxBackoff * 2) = min (2 ^ Suc k * second) maxBackoff"
    by (auto simp: min_def maxBackoff_def second_def)
  then have "backoff_step (min (2 ^ k * second) maxBackoff) u =
      (min (2 ^ k * second) maxBackoff, min (2 ^ Suc k * second) maxBackoff)"
    using Cons.prems by (simp add: backoff_step_def Let_def)
  moreover have "map (\<lambda>n. min (2 ^ (k + n) * second) maxBackoff) [0..<Suc (length ups)] =
      min (2 ^ k * second) maxBackoff # map (\<lambda>n. min (2 ^ (Suc k + n) * second) maxBackoff) [0..<length ups]"
    by (simp add: map_upt_Suc del: upt_Suc)
  ultimately show ?case using Cons.IH [of "Suc k"] Cons.prems by simp
qed simp

text \<open>
  Reconnecting backs off and never hammers the broker.  Every wait is between one second
  and thirty, and while no connection lasts longer than the maximum the waits double from one
  second up to that maximum.
\<close>

theorem backoff_bounded:
  "(\<forall>w \<in> set (backoff_waits second ups). second \<le> w \<and> w \<le> maxBackoff) \<and>
   ((\<forall>u \<in> set ups. u \<le> maxBackoff) \<longrightarrow>
      backoff_waits second ups = map (\<lambda>n. min (2 ^ n * second) maxBackoff) [0..<length ups])"
proof -
  have b: "second \<le> maxBackoff" "min (2 ^ 0 * second) maxBackoff = second"
    by (simp_all add: maxBackoff_def time_units)
  have "\<forall>w \<in> set (backoff_waits second ups). second \<le> w \<and> w \<le> maxBackoff"
    using backoff_waits_bounds [OF order_refl b(1)] by blast
  moreover have "backoff_waits second ups = map (\<lambda>n. min (2 ^ n * second) maxBackoff) [0..<length ups]"
    if "\<forall>u \<in> set ups. u \<le> maxBackoff"
    using backoff_doubles [OF that, of 0] unfolding b(2) by simp
  ultimately show ?thesis by blast
qed

theorem backoff_bounded_witness:
  "backoff_waits second [0, 0, 0] = [second, 2 * second, 4 * second]"
proof -
  have "\<forall>u \<in> set [0, 0, 0]. u \<le> maxBackoff" by (simp add: maxBackoff_def time_units)
  then have "backoff_waits second [0, 0, 0] = map (\<lambda>n. min (2 ^ n * second) maxBackoff) [0..<length [0::int, 0, 0]]"
    using backoff_bounded [of "[0, 0, 0]"] by blast
  then show ?thesis by (simp add: maxBackoff_def time_units numeral_3_eq_3 upt_rec)
qed

datatype rl_event = ConnUp | ConnLost string duration

fun rl_run :: "rl_event list \<Rightarrow> reconnLog \<Rightarrow> log_line list" where
  "rl_run [] r = []"
| "rl_run (e # es) r =
     (let (ls, r') = (case e of ConnUp \<Rightarrow> rl_up r | ConnLost err b \<Rightarrow> rl_lost err b r) in ls @ rl_run es r')"

fun alternating :: "bool \<Rightarrow> log_line list \<Rightarrow> bool" where
  "alternating down [] \<longleftrightarrow> True"
| "alternating down (l # ls) \<longleftrightarrow> l = (if down then BackOnline else WentOffline) \<and> alternating (\<not> down) ls"

text \<open>
  The console reports transitions only.  Without the verbose flag, whatever the sequence
  of connections and failures, the lines alternate strictly between going offline and coming
  back, starting with the first drop.
\<close>

theorem reconnect_log_alternates:
  assumes "\<not> rl_verbose r"
  shows "alternating (rl_down r) (rl_run es r)"
  using assms
proof (induction es arbitrary: r)
  case (Cons e es)
  show ?case
  proof (cases e)
    case ConnUp
    have "\<not> rl_verbose (r\<lparr>rl_down := False\<rparr>)" using Cons.prems by simp
    from Cons.IH [OF this] Cons.IH [OF Cons.prems] show ?thesis
      by (auto simp: ConnUp rl_up_def)
  next
    case (ConnLost err b)
    have "\<not> rl_verbose (r\<lparr>rl_down := True\<rparr>)" using Cons.prems by simp
    from Cons.IH [OF this] Cons.IH [OF Cons.prems] show ?thesis
      using Cons.prems by (auto simp: ConnLost rl_lost_def)
  qed
qed simp

theorem reconnect_log_alternates_witness:
  "alternating False (rl_run [ConnLost ''e'' 1, ConnLost ''e'' 2, ConnUp] \<lparr>rl_verbose = False, rl_down = False\<rparr>)"
  using reconnect_log_alternates [of "\<lparr>rl_verbose = False, rl_down = False\<rparr>"
      "[ConnLost ''e'' 1, ConnLost ''e'' 2, ConnUp]"]
  by (simp del: rl_run.simps alternating.simps)

end
