(* ===== verification/Pair_Control.thy ===== *)
theory Pair_Control
  imports Pairing_Window Go_Json Go_Time
begin

text \<open>
  \<open>cmd/simbeamd/pairctl.go\<close>: the daemon's local control interface and the \<open>pair\<close> command on
  its other end.  The HTTP transport and the file system are arguments: a request is its
  method, path and \<open>Authorization\<close> header, and what the command's calls return is a list of
  outcomes.
\<close>

section \<open>The server side\<close>

record controlServer =
  cs_ttl :: duration
  cs_token :: string
  cs_lastClient :: string

definition noteEnrolled :: "string \<Rightarrow> controlServer \<Rightarrow> controlServer" where
  "noteEnrolled k c = c\<lparr>cs_lastClient := k\<rparr>"

record control_request =
  cq_method :: string
  cq_path :: string
  cq_auth :: string

record control_reply =
  cr_status :: nat
  cr_body :: string

text \<open>\<open>int(ttl.Seconds())\<close> rounds towards zero.\<close>

definition ttl_seconds :: "duration \<Rightarrow> int" where
  "ttl_seconds ttl = (if ttl < 0 then - (- ttl div second) else ttl div second)"

definition pairReply_json :: "string \<Rightarrow> int \<Rightarrow> string" where
  "pairReply_json url ttl =
     json_object [json_field ''url'' (json_string url), json_field ''ttl_seconds'' (itoa ttl)] @ nl"

definition pairState_json :: "string \<Rightarrow> string \<Rightarrow> string" where
  "pairState_json st client =
     json_object ([json_field ''state'' (json_string st)] @ opt_string ''client'' client) @ nl"

text \<open>
  The two routes, behind the token.  \<open>GET\<close> patterns also serve \<open>HEAD\<close>; another method on the
  path is 405, another path 404.  The secret is drawn, or the random source fails.
\<close>

definition pair_route ::
  "(string \<Rightarrow> string) \<Rightarrow> gotime \<Rightarrow> string + string \<Rightarrow> control_request \<Rightarrow> controlServer \<Rightarrow> pairingWindow
     \<Rightarrow> control_reply \<times> pairingWindow" where
  "pair_route buildURL now secret r c w =
     (if cq_path r \<noteq> ''/pair'' then (\<lparr>cr_status = 404, cr_body = ''404 page not found'' @ nl\<rparr>, w)
      else if cq_method r = ''POST'' then
        (case secret of
           Inl e \<Rightarrow> (\<lparr>cr_status = 500, cr_body = e @ nl\<rparr>, w)
         | Inr s \<Rightarrow>
             (\<lparr>cr_status = 200, cr_body = pairReply_json (buildURL s) (ttl_seconds (cs_ttl c))\<rparr>,
              window_open s now (cs_ttl c) w))
      else if cq_method r = ''GET'' \<or> cq_method r = ''HEAD'' then
        (let st = window_State now w in
         (\<lparr>cr_status = 200,
            cr_body = pairState_json st (if st = ''consumed'' then cs_lastClient c else [])\<rparr>, w))
      else (\<lparr>cr_status = 405, cr_body = ''Method Not Allowed'' @ nl\<rparr>, w))"

definition control_handler ::
  "(string \<Rightarrow> string) \<Rightarrow> gotime \<Rightarrow> string + string \<Rightarrow> control_request \<Rightarrow> controlServer \<Rightarrow> pairingWindow
     \<Rightarrow> control_reply \<times> pairingWindow" where
  "control_handler buildURL now secret r c w =
     (if cq_auth r \<noteq> ''Bearer '' @ cs_token c
      then (\<lparr>cr_status = 401, cr_body = ''unauthorized'' @ nl\<rparr>, w)
      else pair_route buildURL now secret r c w)"

text \<open>\<open>startControl\<close>: the address and the token that go to the 0600 file, or the first failure.\<close>

definition hex_lower :: "nat \<Rightarrow> char" where
  "hex_lower d = char_of (if d < 10 then 48 + d else 87 + d)"

definition hex_string :: "string \<Rightarrow> string" where
  "hex_string s = concat (map (\<lambda>c. let n = of_char c in [hex_lower (n div 16), hex_lower (n mod 16)]) s)"

definition controlInfo_json :: "string \<Rightarrow> string \<Rightarrow> string" where
  "controlInfo_json addr token =
     json_object [json_field ''addr'' (json_string addr), json_field ''token'' (json_string token)]"

definition startControl ::
  "string + string \<Rightarrow> string + string \<Rightarrow> string option \<Rightarrow> string option \<Rightarrow> duration \<Rightarrow> string + (controlServer \<times> string)" where
  "startControl listen random mkdirErr writeErr ttl =
     (case listen of
        Inl e \<Rightarrow> Inl e
      | Inr addr \<Rightarrow>
          (case random of
             Inl e \<Rightarrow> Inl e
           | Inr raw \<Rightarrow>
               (let c = \<lparr>cs_ttl = ttl, cs_token = hex_string raw, cs_lastClient = []\<rparr> in
                case mkdirErr of
                  Some e \<Rightarrow> Inl e
                | None \<Rightarrow>
                    (case writeErr of
                       Some e \<Rightarrow> Inl e
                     | None \<Rightarrow> Inr (c, controlInfo_json addr (cs_token c))))))"

section \<open>The \<open>pair\<close> command\<close>

record pairReply =
  pr_URL :: string
  pr_TTLSeconds :: int

record pairState =
  ps_State :: string
  ps_Client :: string

text \<open>What one HTTP call of the command meets.\<close>

datatype 'a call_outcome =
    Unreachable
  | BadStatus string
  | BadBody string
  | Replied 'a

definition call :: "'a call_outcome \<Rightarrow> string + 'a" where
  "call out =
     (case out of
        Unreachable \<Rightarrow> Inl (''daemon not responding'' @ em_dash @ ''is the service running? (simbeamd service status)'')
      | BadStatus st \<Rightarrow> Inl (''daemon control API: '' @ st)
      | BadBody e \<Rightarrow> Inl e
      | Replied a \<Rightarrow> Inr a)"

text \<open>Reading the control file: missing, not JSON (its path and the error), or its address and token.\<close>

datatype info_outcome = NoFile | Corrupt string string | Info string string

text \<open>
  One attempt to arm the window: the control file, the call and the clock after it.  The loop
  ends with the first success, or with the first failure past the deadline; \<open>None\<close> says it is
  still trying.
\<close>

type_synonym attempt = "info_outcome \<times> pairReply call_outcome \<times> gotime"

definition try_arm :: "info_outcome \<Rightarrow> pairReply call_outcome \<Rightarrow> string + pairReply" where
  "try_arm info post =
     (case info of
        NoFile \<Rightarrow>
          Inl (''no running daemon found'' @ em_dash @
            ''start one with 'simbeamd service install' (or 'simbeamd serve')'')
      | Corrupt path e \<Rightarrow> Inl (''control file corrupt ('' @ path @ ''): '' @ e)
      | Info addr token \<Rightarrow> call post)"

fun arm_loop :: "gotime \<Rightarrow> attempt list \<Rightarrow> (string + pairReply) option" where
  "arm_loop deadline [] = None"
| "arm_loop deadline ((info, post, now) # as) =
     (case try_arm info post of
        Inr rep \<Rightarrow> Some (Inr rep)
      | Inl e \<Rightarrow> if now > deadline then Some (Inl e) else arm_loop deadline as)"

definition armTimeout :: duration where "armTimeout = 5 * second"

definition paired_text :: "string \<Rightarrow> string" where
  "paired_text client =
     [CHR 0xE2, CHR 0x9C, CHR 0x93] @ '' paired '' @ take 16 client @ [CHR 0xE2, CHR 0x80, CHR 0xA6] @ nl"

fun poll_loop :: "pairState call_outcome list \<Rightarrow> (string + string) option" where
  "poll_loop [] = None"
| "poll_loop (p # ps) =
     (case call p of
        Inl e \<Rightarrow> Some (Inl e)
      | Inr st \<Rightarrow>
          (if ps_State st = ''consumed'' then Some (Inr (paired_text (ps_Client st)))
           else if ps_State st = ''expired'' \<or> ps_State st = ''none''
           then Some (Inl (''pairing window expired'' @ em_dash @ ''run 'simbeamd pair' again''))
           else poll_loop ps))"

definition runPair ::
  "string list \<Rightarrow> gotime \<Rightarrow> attempt list \<Rightarrow> pairState call_outcome list \<Rightarrow> (string + string) option" where
  "runPair argv start attempts polls =
     (if argv \<noteq> [] then Some (Inl ''pair takes no arguments'')
      else
        (case arm_loop (start + armTimeout) attempts of
           None \<Rightarrow> None
         | Some (Inl e) \<Rightarrow> Some (Inl e)
         | Some (Inr rep) \<Rightarrow> poll_loop polls))"

section \<open>Facts\<close>

text \<open>
  The control interface opens no window without the token.  A request whose header is not
  exactly the bearer token is answered 401 and changes nothing; a request with the token opens
  the window only as a POST of \<open>/pair\<close>, with the secret whose link it returns.
\<close>

theorem control_needs_token:
  "(cq_auth r \<noteq> ''Bearer '' @ cs_token c \<longrightarrow>
      control_handler url now secret r c w = (\<lparr>cr_status = 401, cr_body = ''unauthorized'' @ nl\<rparr>, w)) \<and>
   (snd (control_handler url now secret r c w) \<noteq> w \<longrightarrow>
      cq_auth r = ''Bearer '' @ cs_token c \<and> cq_method r = ''POST'' \<and> cq_path r = ''/pair'' \<and>
      (\<exists>s. secret = Inr s \<and> snd (control_handler url now secret r c w) = window_open s now (cs_ttl c) w \<and>
         cr_body (fst (control_handler url now secret r c w)) = pairReply_json (url s) (ttl_seconds (cs_ttl c))))"
  by (auto simp: control_handler_def pair_route_def Let_def split: sum.splits if_splits)

theorem control_needs_token_witness:
  "\<exists>s. window_State 7 (snd (control_handler (\<lambda>s. s) 5 (Inr ''S'')
      \<lparr>cq_method = ''POST'', cq_path = ''/pair'', cq_auth = ''Bearer t''\<rparr>
      \<lparr>cs_ttl = 10, cs_token = ''t'', cs_lastClient = []\<rparr> NewPairingWindow)) = ''open'' \<and> s = ''S''"
proof -
  let ?r = "\<lparr>cq_method = ''POST'', cq_path = ''/pair'', cq_auth = ''Bearer t''\<rparr>"
  let ?c = "\<lparr>cs_ttl = 10, cs_token = ''t'', cs_lastClient = []\<rparr>"
  have "snd (control_handler (\<lambda>s. s) 5 (Inr ''S'') ?r ?c NewPairingWindow) \<noteq> NewPairingWindow"
    by (simp add: control_handler_def pair_route_def window_defs)
  then have "snd (control_handler (\<lambda>s. s) 5 (Inr ''S'') ?r ?c NewPairingWindow) =
      window_open ''S'' 5 10 NewPairingWindow"
    using control_needs_token [of ?r ?c "\<lambda>s. s" 5 "Inr ''S''" NewPairingWindow] by auto
  then show ?thesis by (simp add: window_defs)
qed

text \<open>Each loop settles with the first decisive outcome.\<close>

lemma arm_loop_settles: "deadline < now \<Longrightarrow> (i, p, now) \<in> set as \<Longrightarrow> arm_loop deadline as \<noteq> None"
  by (induction deadline as rule: arm_loop.induct) (auto split: sum.splits)

lemma poll_loop_settles:
  "p \<in> set ps \<Longrightarrow> (\<And>st. p = Replied st \<Longrightarrow> ps_State st \<in> {''consumed'', ''expired'', ''none''}) \<Longrightarrow> poll_loop ps \<noteq> None"
  by (induction ps) (auto simp: call_def split: call_outcome.splits)

text \<open>The polls of a window nobody touches, at the given times.\<close>

definition polls_of :: "string \<Rightarrow> pairingWindow \<Rightarrow> gotime list \<Rightarrow> pairState call_outcome list" where
  "polls_of client w ts =
     map (\<lambda>t. Replied \<lparr>ps_State = window_State t w, ps_Client = (if window_State t w = ''consumed'' then client else [])\<rparr>) ts"



end
