(* ===== verification/Console.thy ===== *)
theory Console
  imports Remote Pair_Control
begin

text \<open>
  \<open>cmd/simbeamd/main.go\<close>, the pairing side: the interactive console of \<open>serve\<close> (\<open>runRemote\<close>,
  \<open>pairUI\<close>, \<open>watchKeys\<close>) and the unattended \<open>demo\<close>, each on top of the daemon of theory
  \<open>Remote\<close>.  The enrolment callback runs inside the handling of the proof that enrols.  A TTL
  timer is armed by \<open>show\<close>; when it has fired, its callback runs as a goroutine of its own,
  which \<open>Timer.Stop\<close> no longer reaches.  The QR renderer is an argument.
\<close>

section \<open>Text on a raw terminal\<close>

definition CR :: char where "CR = CHR 0x0D"
definition LF :: char where "LF = CHR 0x0A"
definition ESC :: char where "ESC = CHR 0x1B"
definition crlf :: string where "crlf = [CR, LF]"

text \<open>\<open>crlfWriter.Write\<close>: what reaches the underlying writer, and the count reported.\<close>

definition crlf_text :: "string \<Rightarrow> string" where
  "crlf_text p = replace_char LF crlf p"

definition crlf_Write :: "string option \<Rightarrow> string \<Rightarrow> (string + nat) \<times> string" where
  "crlf_Write err p = (case err of Some e \<Rightarrow> (Inl e, []) | None \<Rightarrow> (Inr (length p), crlf_text p))"

definition ansiReset :: string where "ansiReset = ESC # ''[0m''"
definition ansiFaint :: string where "ansiFaint = ESC # ''[2m''"
definition ansiRed :: string where "ansiRed = ESC # ''[31m''"
definition ansiGreen :: string where "ansiGreen = ESC # ''[32m''"

definition ellipsis :: string where "ellipsis = [CHR 0xE2, CHR 0x80, CHR 0xA6]"

definition expired_status :: string where
  "expired_status = ansiFaint @ [CHR 0xE2, CHR 0x8F, CHR 0xB2] @ ''  pairing window EXPIRED'' @ em_dash @
     ''code above is dead'' @ ansiReset"

definition cancelled_status :: string where
  "cancelled_status = ansiRed @ [CHR 0xE2, CHR 0x9C, CHR 0x97] @ ''  pairing CANCELLED'' @ em_dash @
     ''code above is dead'' @ ansiReset"

definition paired_status :: "string \<Rightarrow> string" where
  "paired_status key = ansiGreen @ [CHR 0xE2, CHR 0x9C, CHR 0x93] @ ''  paired '' @ take 16 key @ ellipsis @ em_dash @
     ''enrollment window closed'' @ ansiReset"

definition printPairingQR :: "(string \<Rightarrow> string) \<Rightarrow> string \<Rightarrow> string" where
  "printPairingQR qr url = crlf_text (qr url)"

definition renderPairBlock :: "(string \<Rightarrow> string) \<Rightarrow> string \<Rightarrow> duration \<Rightarrow> string \<times> nat" where
  "renderPairBlock qr pairURL ttl =
     (let s = crlf @ ''Pair this device (window open '' @ duration_string ttl @ '')'' @ em_dash @
              ''scan with the iPad camera,'' @ crlf @ ''or open the URL below:'' @ crlf @ crlf @
              printPairingQR qr pairURL @ crlf @ ''  '' @ pairURL @ crlf
      in (s, length (filter (\<lambda>c. c = LF) s)))"

section \<open>The pairing link\<close>

text \<open>What is fixed for a run: the flags and build-time defaults, and the daemon's key.\<close>

record console_config =
  cc_signalURL :: string
  cc_base :: string
  cc_pairTTL :: duration
  cc_omitSignal :: string        \<comment> \<open>\<open>omitSignalInPairURL\<close>\<close>
  cc_defaultSignal :: string     \<comment> \<open>\<open>defaultSignalURL\<close>\<close>
  cc_pubKey :: string

definition pairSignalArg :: "console_config \<Rightarrow> string" where
  "pairSignalArg cf =
     (if cc_omitSignal cf \<noteq> [] \<and> cc_signalURL cf = cc_defaultSignal cf then [] else cc_signalURL cf)"

definition client_base :: "string \<Rightarrow> string \<Rightarrow> string" where
  "client_base clientURL addr = (if clientURL = [] then ''http://localhost'' @ addr @ ''/'' else clientURL)"

definition pair_link :: "console_config \<Rightarrow> string \<Rightarrow> string" where
  "pair_link cf secret = PairingURL (cc_base cf) (pairSignalArg cf) (cc_pubKey cf) secret"

section \<open>The block on screen\<close>

record pairUI =
  ui_block :: string
  ui_rows :: nat
  ui_active :: bool
  ui_timer :: "nat option"

text \<open>
  The console: the daemon and its window, the screen, the control interface (absent when it
  could not start), the armed timers with their deadlines, the timers whose callback has
  started, and what was printed.  \<open>cn_dead\<close> is history: the status line and the secret of each
  block that was greyed out, the newest first; \<open>cn_shown\<close> the secret of the block last shown.
\<close>

record console =
  cn_daemon :: daemon
  cn_ui :: pairUI
  cn_ctrl :: "controlServer option"
  cn_timers :: "(nat \<times> gotime) list"
  cn_fired :: "nat list"
  cn_next :: nat
  cn_out :: "string list"
  cn_done :: bool
  cn_shown :: string
  cn_dead :: "(string \<times> string) list"

definition cprint :: "string \<Rightarrow> console \<Rightarrow> console" where
  "cprint s c = c\<lparr>cn_out := cn_out c @ [s]\<rparr>"

definition set_window :: "(pairingWindow \<Rightarrow> pairingWindow) \<Rightarrow> console \<Rightarrow> console" where
  "set_window f c = c\<lparr>cn_daemon := (cn_daemon c)\<lparr>r_win := f (r_win (cn_daemon c))\<rparr>\<rparr>"

text \<open>\<open>u.timer.Stop()\<close>\<close>

definition stop_timer :: "console \<Rightarrow> console" where
  "stop_timer c =
     (case ui_timer (cn_ui c) of
        None \<Rightarrow> c
      | Some i \<Rightarrow> c\<lparr>cn_timers := filter (\<lambda>(j, d). j \<noteq> i) (cn_timers c)\<rparr>)"

definition show_block :: "string \<Rightarrow> nat \<Rightarrow> gotime \<Rightarrow> duration \<Rightarrow> string \<Rightarrow> console \<Rightarrow> console" where
  "show_block block rows now ttl secret c =
     (let c = stop_timer c in
      cprint block
        (c\<lparr>cn_ui := \<lparr>ui_block = block, ui_rows = rows, ui_active = True, ui_timer = Some (cn_next c)\<rparr>,
           cn_timers := cn_timers c @ [(cn_next c, now + ttl)], cn_next := Suc (cn_next c),
           cn_shown := secret\<rparr>))"

definition redraw :: "pairUI \<Rightarrow> string \<Rightarrow> string" where
  "redraw u status =
     ESC # ''['' @ dec_digits (ui_rows u) @ ''A'' @ [CR] @ ansiFaint @ ui_block u @ ansiReset @
     status @ (ESC # ''[K'') @ crlf"

definition retire :: "string \<Rightarrow> console \<Rightarrow> console" where
  "retire status c =
     (if \<not> ui_active (cn_ui c) then c
      else
        (let u = cn_ui c; c = stop_timer c in
         cprint (redraw u status)
           (c\<lparr>cn_ui := u\<lparr>ui_active := False, ui_timer := None\<rparr>, cn_dead := (status, cn_shown c) # cn_dead c\<rparr>)))"

section \<open>Keys, timers, the control interface and the daemon\<close>

definition onPair :: "(string \<Rightarrow> string) \<Rightarrow> console_config \<Rightarrow> gotime \<Rightarrow> string + string \<Rightarrow> console \<Rightarrow> console" where
  "onPair qr cf now secret c =
     (case secret of
        Inl e \<Rightarrow> cprint (CR # ''pairing error: '' @ e @ crlf) c
      | Inr s \<Rightarrow>
          (let c = set_window (window_open s now (cc_pairTTL cf)) c;
               (block, rows) = renderPairBlock qr (pair_link cf s) (cc_pairTTL cf)
           in show_block block rows now (cc_pairTTL cf) s c))"

definition onCancel :: "console \<Rightarrow> console" where
  "onCancel c = retire cancelled_status (set_window window_Close c)"

definition onExpire :: "console \<Rightarrow> console" where
  "onExpire c = retire expired_status (set_window window_Close c)"

definition console_onEnroll :: "string \<Rightarrow> console \<Rightarrow> console" where
  "console_onEnroll key c =
     (let c = retire (paired_status key) c
      in c\<lparr>cn_ctrl := map_option (noteEnrolled key) (cn_ctrl c)\<rparr>)"

text \<open>\<open>watchKeys\<close>: one byte read, with the clock and the secret drawn if it is P.\<close>

definition key_byte :: "(string \<Rightarrow> string) \<Rightarrow> console_config \<Rightarrow> gotime \<Rightarrow> string + string \<Rightarrow> char \<Rightarrow> console \<Rightarrow> console" where
  "key_byte qr cf now secret b c =
     (if b \<in> {CHR ''p'', CHR ''P''} then onPair qr cf now secret c
      else if b \<in> {CHR ''c'', CHR ''C''} then onCancel c
      else if b \<in> {CHR ''q'', CHR ''Q'', CHR 0x03} then c\<lparr>cn_done := True\<rparr>
      else c)"

text \<open>The keys enrolled while the daemon handled one event: none or one.\<close>

definition newly_enrolled :: "daemon \<Rightarrow> daemon \<Rightarrow> string list" where
  "newly_enrolled d d' = drop (length (r_enrolled d)) (r_enrolled d')"

definition console_serve :: "crypto \<Rightarrow> Identity \<Rightarrow> daemon_event \<Rightarrow> console \<Rightarrow> console" where
  "console_serve C me e c =
     (let d' = daemon_step C me e (cn_daemon c)
      in fold console_onEnroll (newly_enrolled (cn_daemon c) d') (c\<lparr>cn_daemon := d'\<rparr>))"

datatype console_event =
    KeyByte gotime "string + string" char
  | KeysEnd                                   \<comment> \<open>the read fails or returns nothing\<close>
  | TimerFires gotime nat
  | CallbackRuns nat
  | Control gotime "string + string" control_request
  | Daemon daemon_event

fun console_step :: "crypto \<Rightarrow> Identity \<Rightarrow> (string \<Rightarrow> string) \<Rightarrow> console_config \<Rightarrow> console_event \<Rightarrow> console \<Rightarrow> console" where
  "console_step C me qr cf (KeyByte now secret b) c = key_byte qr cf now secret b c"
| "console_step C me qr cf KeysEnd c = c\<lparr>cn_done := True\<rparr>"
| "console_step C me qr cf (TimerFires now i) c =
     (case map_of (cn_timers c) i of
        None \<Rightarrow> c
      | Some due \<Rightarrow>
          if due \<le> now then c\<lparr>cn_timers := filter (\<lambda>(j, d). j \<noteq> i) (cn_timers c), cn_fired := cn_fired c @ [i]\<rparr> else c)"
| "console_step C me qr cf (CallbackRuns i) c =
     (if i \<in> set (cn_fired c) then onExpire (c\<lparr>cn_fired := remove1 i (cn_fired c)\<rparr>) else c)"
| "console_step C me qr cf (Control now secret r) c =
     (case cn_ctrl c of
        None \<Rightarrow> c
      | Some cs \<Rightarrow> set_window (\<lambda>w. snd (control_handler (pair_link cf) now secret r cs w)) c)"
| "console_step C me qr cf (Daemon e) c = console_serve C me e c"

definition console_run ::
  "crypto \<Rightarrow> Identity \<Rightarrow> (string \<Rightarrow> string) \<Rightarrow> console_config \<Rightarrow> console_event list \<Rightarrow> console \<Rightarrow> console" where
  "console_run C me qr cf es c = fold (console_step C me qr cf) es c"

definition new_console :: "PinnedStore \<Rightarrow> controlServer option \<Rightarrow> console" where
  "new_console pinned ctrl =
     \<lparr>cn_daemon = new_daemon pinned NewPairingWindow,
      cn_ui = \<lparr>ui_block = [], ui_rows = 0, ui_active = False, ui_timer = None\<rparr>,
      cn_ctrl = ctrl, cn_timers = [], cn_fired = [], cn_next = 0, cn_out = [], cn_done = False,
      cn_shown = [], cn_dead = []\<rparr>"

section \<open>What the operations leave alone\<close>

lemma cprint_fields [simp]:
  "cn_daemon (cprint s c) = cn_daemon c" "cn_ui (cprint s c) = cn_ui c" "cn_ctrl (cprint s c) = cn_ctrl c"
  "cn_timers (cprint s c) = cn_timers c" "cn_fired (cprint s c) = cn_fired c" "cn_next (cprint s c) = cn_next c"
  "cn_shown (cprint s c) = cn_shown c" "cn_dead (cprint s c) = cn_dead c"
  by (simp_all add: cprint_def)

lemma set_window_fields [simp]:
  "r_win (cn_daemon (set_window f c)) = f (r_win (cn_daemon c))" "cn_ui (set_window f c) = cn_ui c"
  "cn_ctrl (set_window f c) = cn_ctrl c" "cn_timers (set_window f c) = cn_timers c"
  "cn_fired (set_window f c) = cn_fired c" "cn_next (set_window f c) = cn_next c"
  "cn_shown (set_window f c) = cn_shown c" "cn_dead (set_window f c) = cn_dead c"
  "r_enrolling (cn_daemon (set_window f c)) = r_enrolling (cn_daemon c)"
  by (simp_all add: set_window_def)

lemma stop_timer_fields [simp]:
  "cn_daemon (stop_timer c) = cn_daemon c" "cn_ui (stop_timer c) = cn_ui c" "cn_ctrl (stop_timer c) = cn_ctrl c"
  "cn_fired (stop_timer c) = cn_fired c" "cn_next (stop_timer c) = cn_next c"
  "cn_shown (stop_timer c) = cn_shown c" "cn_dead (stop_timer c) = cn_dead c"
  by (simp_all add: stop_timer_def split: option.split)

lemma retire_fields [simp]:
  "cn_daemon (retire st c) = cn_daemon c" "cn_ctrl (retire st c) = cn_ctrl c"
  "cn_fired (retire st c) = cn_fired c" "cn_next (retire st c) = cn_next c" "cn_shown (retire st c) = cn_shown c"
  "ui_active (cn_ui (retire st c)) = False"
  "cn_dead (retire st c) = (if ui_active (cn_ui c) then [(st, cn_shown c)] else []) @ cn_dead c"
  by (simp_all add: retire_def Let_def)

lemma onEnroll_fields [simp]:
  "cn_daemon (console_onEnroll k c) = cn_daemon c" "cn_shown (console_onEnroll k c) = cn_shown c"
  "ui_active (cn_ui (console_onEnroll k c)) = False"
  "cn_dead (console_onEnroll k c) = (if ui_active (cn_ui c) then [(paired_status k, cn_shown c)] else []) @ cn_dead c"
  by (simp_all add: console_onEnroll_def Let_def)

text \<open>A daemon event that is not the console's own window operation can only use a window up.\<close>

fun outside_event :: "daemon_event \<Rightarrow> bool" where
  "outside_event (WindowOpen s now ttl) \<longleftrightarrow> False"
| "outside_event WindowClose \<longleftrightarrow> False"
| "outside_event _ \<longleftrightarrow> True"

lemma on_connect_win:
  "r_win (on_connect C env m d) =
     (if pinned_Contains (m_pubkey m) (r_pinned d) then r_win d
      else snd (window_verify C (m_pubkey m) (m_nonce m) (m_pair m) (sv_now env) (r_win d)))"
  by (simp add: on_connect_def Let_def case_prod_unfold split: option.split pairResult.split)

lemma other_handlers_win [simp]:
  "r_win (on_iceServers m d) = r_win d" "r_win (on_candidate m d) = r_win d"
  "r_win (on_proof C env m d) = r_win d" "r_win (on_offer C priv env m d) = r_win d"
  by (simp_all add: on_iceServers_def on_candidate_def on_proof_def on_offer_def Let_def case_prod_unfold
      split: option.split sum.split)

lemma daemon_step_win:
  assumes "outside_event e"
  shows "r_win (daemon_step C me e d) = r_win d \<or>
    (\<exists>k n pr now. r_win (daemon_step C me e d) = snd (window_verify C k n pr now (r_win d)))"
proof (cases e)
  case (Recv env m)
  show ?thesis
  proof (cases "m_type m = TypeConnect")
    case True
    then show ?thesis by (auto simp: Recv serve_msg_def on_connect_win)
  next
    case False
    then show ?thesis by (simp add: Recv serve_msg_def)
  qed
qed (use assms in \<open>simp_all add: peer_died_def local_candidate_def reconnect_def\<close>)

lemma window_verify_secret:
  "pw_secret (snd (window_verify C k n pr now w)) \<in> {pw_secret w, []}"
  by (simp add: window_verify_def)

lemma daemon_step_secret:
  "outside_event e \<Longrightarrow> pw_secret (r_win (daemon_step C me e d)) \<in> {pw_secret (r_win d), []}"
  using daemon_step_win [of e C me d] window_verify_secret by fastforce

section \<open>A code shown as dead is dead\<close>

text \<open>
  The secrets drawn in a run, by a key press or by the control interface, all different and
  none empty; the daemon's own events are those of the network.
\<close>

fun drawn :: "console_event \<Rightarrow> string list" where
  "drawn (KeyByte now (Inr s) b) = [s]"
| "drawn (Control now (Inr s) r) = [s]"
| "drawn _ = []"

fun console_event_ok :: "console_event \<Rightarrow> bool" where
  "console_event_ok (Daemon e) \<longleftrightarrow> outside_event e"
| "console_event_ok _ \<longleftrightarrow> True"

definition fresh_secrets :: "console_event list \<Rightarrow> bool" where
  "fresh_secrets es \<longleftrightarrow>
     list_all console_event_ok es \<and> distinct (concat (map drawn es)) \<and> [] \<notin> set (concat (map drawn es))"

definition dead_statuses :: "string set" where "dead_statuses = {expired_status, cancelled_status}"

text \<open>The invariant, with the secrets drawn so far.\<close>

definition console_inv :: "string list \<Rightarrow> console \<Rightarrow> bool" where
  "console_inv used c \<longleftrightarrow>
     [] \<notin> set used \<and>
     (pw_secret (r_win (cn_daemon c)) = [] \<or> pw_secret (r_win (cn_daemon c)) \<in> set used) \<and>
     (ui_active (cn_ui c) \<longrightarrow> cn_shown c \<in> set used \<and> cn_shown c \<notin> snd ` set (cn_dead c)) \<and>
     snd ` set (cn_dead c) \<subseteq> set used \<and> distinct (map snd (cn_dead c)) \<and>
     (\<forall>(st, s) \<in> set (cn_dead c). st \<in> dead_statuses \<longrightarrow> pw_secret (r_win (cn_daemon c)) \<noteq> s)"

lemma paired_not_dead: "paired_status k \<notin> dead_statuses"
  by (simp add: dead_statuses_def paired_status_def expired_status_def cancelled_status_def
      ansiGreen_def ansiFaint_def ansiRed_def)

lemma inv_enroll: "console_inv used c \<Longrightarrow> console_inv used (console_onEnroll k c)"
  using paired_not_dead [of k] by (auto simp: console_inv_def)

lemma inv_close:
  assumes "console_inv used c"
  shows "console_inv used (retire st (set_window window_Close c))"
  using assms by (auto simp: console_inv_def window_defs)

lemma inv_mono: "console_inv used c \<Longrightarrow> set used \<subseteq> set used' \<Longrightarrow> [] \<notin> set used' \<Longrightarrow> console_inv used' c"
  by (auto simp: console_inv_def)

lemma inv_same:
  assumes "console_inv used c" "cn_daemon c' = cn_daemon c" "ui_active (cn_ui c') = ui_active (cn_ui c)"
    "cn_shown c' = cn_shown c" "cn_dead c' = cn_dead c"
  shows "console_inv used c'"
  using assms by (simp add: console_inv_def)

lemma console_inv_open:
  assumes "console_inv used c" "s \<notin> set used" "s \<noteq> []"
  shows "console_inv (s # used) (set_window (window_open s now ttl) c)"
  using assms by (auto simp: console_inv_def window_defs)

lemma inv_show:
  assumes "console_inv used c" "s \<in> set used" "s \<notin> snd ` set (cn_dead c)"
  shows "console_inv used (show_block block rows now ttl s c)"
  using assms by (auto simp: console_inv_def show_block_def Let_def)

lemma console_step_inv:
  assumes inv: "console_inv used c" and ok: "console_event_ok e"
    and fresh: "set (drawn e) \<inter> set used = {}" "[] \<notin> set (drawn e)"
  shows "console_inv (drawn e @ used) (console_step C me qr cf e c)"
proof -
  have wider: "console_inv (drawn e @ used) c"
    using inv fresh by (intro inv_mono [OF inv]) (auto simp: console_inv_def)
  show ?thesis
  proof (cases e)
    case (KeyByte now secret b)
    have same: "console_inv (drawn e @ used) (c\<lparr>cn_done := True\<rparr>)" by (rule inv_same [OF wider]) simp_all
    have cancel: "console_inv (drawn e @ used) (onCancel c)" unfolding onCancel_def by (rule inv_close [OF wider])
    have pair: "console_inv (drawn e @ used) (onPair qr cf now secret c)"
    proof (cases secret)
      case (Inl err)
      then show ?thesis unfolding onPair_def by (simp, intro inv_same [OF wider]) simp_all
    next
      case (Inr s)
      then have s: "drawn e = [s]" "s \<notin> set used" "s \<noteq> []" using fresh KeyByte by auto
      have "s \<notin> snd ` set (cn_dead c)" using inv s(2) by (auto simp: console_inv_def)
      then show ?thesis
        using console_inv_open [OF inv s(2,3), of now "cc_pairTTL cf"] s(1) unfolding onPair_def Inr
        by (auto simp: Let_def intro!: inv_show split: prod.split)
    qed
    show ?thesis using same cancel pair wider by (simp add: KeyByte key_byte_def)
  next
    case KeysEnd
    then show ?thesis using inv_same [OF wider, of "c\<lparr>cn_done := True\<rparr>"] by simp
  next
    case (TimerFires now i)
    show ?thesis by (rule inv_same [OF wider]) (auto simp: TimerFires split: option.split)
  next
    case (CallbackRuns i)
    have "console_inv (drawn e @ used) (c\<lparr>cn_fired := remove1 i (cn_fired c)\<rparr>)"
      by (rule inv_same [OF wider]) simp_all
    then show ?thesis using wider by (simp add: CallbackRuns onExpire_def inv_close)
  next
    case (Control now secret r)
    show ?thesis
    proof (cases "cn_ctrl c")
      case None
      then show ?thesis using wider by (simp add: Control)
    next
      case (Some cs)
      let ?f = "\<lambda>w. snd (control_handler (pair_link cf) now secret r cs w)"
      consider "?f = (\<lambda>w. w)" | s where "secret = Inr s" "?f = window_open s now (cs_ttl cs)"
        by (cases secret) (fastforce simp: control_handler_def pair_route_def Let_def)+
      then show ?thesis
      proof cases
        case 1
        then have "set_window ?f c = c" by (simp add: set_window_def)
        then show ?thesis using wider Some by (simp add: Control)
      next
        case (2 s)
        then have "drawn e = [s]" "s \<notin> set used" "s \<noteq> []" using fresh Control by auto
        then show ?thesis using console_inv_open [OF inv, of s now "cs_ttl cs"] 2 Some by (simp add: Control)
      qed
    qed
  next
    case (Daemon ev)
    let ?d = "daemon_step C me ev (cn_daemon c)"
    have "pw_secret (r_win ?d) \<in> {pw_secret (r_win (cn_daemon c)), []}"
      using ok Daemon by (intro daemon_step_secret) simp
    then have "console_inv (drawn e @ used) (c\<lparr>cn_daemon := ?d\<rparr>)"
      using wider by (auto simp: console_inv_def)
    moreover have "console_inv used' (fold console_onEnroll ks c')" if "console_inv used' c'" for used' ks c'
      using that by (induction ks arbitrary: c') (simp_all add: inv_enroll)
    ultimately show ?thesis by (simp add: Daemon console_serve_def Let_def)
  qed
qed

lemma console_run_snoc:
  "console_run C me qr cf (es @ [e]) c = console_step C me qr cf e (console_run C me qr cf es c)"
  by (simp add: console_run_def)

lemma console_run_append:
  "console_run C me qr cf (xs @ ys) c = console_run C me qr cf ys (console_run C me qr cf xs c)"
  by (simp add: console_run_def)

lemma console_run_inv:
  assumes "fresh_secrets es"
  shows "console_inv (concat (map drawn (rev es))) (console_run C me qr cf es (new_console pinned ctrl))"
  using assms
proof (induction es rule: rev_induct)
  case Nil
  show ?case
    by (simp add: console_run_def console_inv_def new_console_def new_daemon_def window_defs)
next
  case (snoc e es)
  then have "fresh_secrets es" by (auto simp: fresh_secrets_def)
  moreover have "console_event_ok e" "set (drawn e) \<inter> set (concat (map drawn (rev es))) = {}" "[] \<notin> set (drawn e)"
    using snoc.prems by (auto simp: fresh_secrets_def)
  ultimately have "console_inv (drawn e @ concat (map drawn (rev es)))
      (console_step C me qr cf e (console_run C me qr cf es (new_console pinned ctrl)))"
    by (intro console_step_inv snoc.IH)
  then show ?case by (simp add: console_run_snoc)
qed


definition cs_conf :: console_config where
  "cs_conf = \<lparr>cc_signalURL = ''wss://b'', cc_base = ''https://c/'', cc_pairTTL = 300, cc_omitSignal = [],
     cc_defaultSignal = [], cc_pubKey = ''D''\<rparr>"

lemmas console_eval = console_run_def new_console_def new_daemon_def key_byte_def onPair_def onCancel_def onExpire_def
  set_window_def show_block_def stop_timer_def retire_def cprint_def Let_def case_prod_unfold window_defs


text \<open>While a block is active its timer is armed, or has fired with its callback still to run.\<close>

definition timer_inv :: "console \<Rightarrow> bool" where
  "timer_inv c \<longleftrightarrow>
     (ui_active (cn_ui c) \<longrightarrow>
        (\<exists>i. ui_timer (cn_ui c) = Some i \<and> (i \<in> fst ` set (cn_timers c) \<or> i \<in> set (cn_fired c))))"

lemma timer_inv_inactive: "\<not> ui_active (cn_ui c) \<Longrightarrow> timer_inv c"
  by (simp add: timer_inv_def)

lemma timer_inv_retire: "timer_inv (retire st c)"
  by (rule timer_inv_inactive) simp

lemma timer_inv_show: "timer_inv (show_block b r now ttl s c)"
  by (simp add: timer_inv_def show_block_def Let_def)

lemma timer_inv_same:
  "timer_inv c \<Longrightarrow> cn_ui c' = cn_ui c \<Longrightarrow> cn_timers c' = cn_timers c \<Longrightarrow> cn_fired c' = cn_fired c \<Longrightarrow> timer_inv c'"
  by (simp add: timer_inv_def)

lemma timer_inv_step: "timer_inv c \<Longrightarrow> timer_inv (console_step C me qr cf e c)"
proof (cases e)
  case (KeyByte now secret b)
  assume inv: "timer_inv c"
  have "timer_inv (onPair qr cf now secret c)"
  proof (cases secret)
    case (Inl err)
    then show ?thesis unfolding onPair_def by (simp, intro timer_inv_same [OF inv]) simp_all
  next
    case (Inr s)
    then show ?thesis by (simp add: onPair_def Let_def timer_inv_show split: prod.split)
  qed
  moreover have "timer_inv (c\<lparr>cn_done := True\<rparr>)" by (rule timer_inv_same [OF inv]) simp_all
  ultimately show ?thesis
    using inv by (simp add: KeyByte key_byte_def onCancel_def timer_inv_retire)
next
  case (TimerFires now i)
  assume "timer_inv c"
  then show ?thesis by (auto simp: TimerFires timer_inv_def split: option.split) force+
next
  case (Daemon ev)
  assume inv: "timer_inv c"
  have *: "timer_inv (fold console_onEnroll ks c')" if "timer_inv c'" for ks c'
    using that by (induction ks arbitrary: c') (simp_all add: timer_inv_inactive)
  have "timer_inv (c\<lparr>cn_daemon := daemon_step C me ev (cn_daemon c)\<rparr>)"
    by (rule timer_inv_same [OF inv]) simp_all
  then show ?thesis by (simp add: Daemon console_serve_def Let_def *)
qed (auto simp: onExpire_def timer_inv_retire intro: timer_inv_same split: option.split)

lemma timer_inv_run: "timer_inv (console_run C me qr cf es (new_console pinned ctrl))"
proof (induction es rule: rev_induct)
  case Nil
  show ?case by (rule timer_inv_inactive) (simp add: console_run_def new_console_def)
qed (simp add: console_run_snoc timer_inv_step)

lemma callback_closes:
  assumes "i \<in> set (cn_fired c)"
  shows "\<not> ui_active (cn_ui (console_step C me qr cf (CallbackRuns i) c)) \<and>
    pw_secret (r_win (cn_daemon (console_step C me qr cf (CallbackRuns i) c))) = []"
  using assms by (simp add: onExpire_def window_Close_def)

text \<open>No armed timer is due later than the pairing time after the last key.\<close>

definition pressed_by :: "gotime \<Rightarrow> console_event \<Rightarrow> bool" where
  "pressed_by t e \<longleftrightarrow> (case e of KeyByte now secret b \<Rightarrow> now \<le> t | _ \<Rightarrow> True)"

definition due_by :: "gotime \<Rightarrow> console \<Rightarrow> bool" where
  "due_by u c \<longleftrightarrow> list_all (\<lambda>(i, due). due \<le> u) (cn_timers c)"

lemma due_by_same: "due_by u c \<Longrightarrow> set (cn_timers c') \<subseteq> set (cn_timers c) \<Longrightarrow> due_by u c'"
  by (auto simp: due_by_def list_all_iff)

lemma timers_stop: "set (cn_timers (stop_timer c)) \<subseteq> set (cn_timers c)"
  by (auto simp: stop_timer_def split: option.split)

lemma timers_retire: "set (cn_timers (retire st c)) \<subseteq> set (cn_timers c)"
  using timers_stop [of c] by (auto simp: retire_def Let_def cprint_def)

lemma timers_enrol: "set (cn_timers (fold console_onEnroll ks c)) \<subseteq> set (cn_timers c)"
proof (induction ks arbitrary: c)
  case (Cons k ks)
  then show ?case using timers_retire [of "paired_status k" c] by (fastforce simp: console_onEnroll_def Let_def)
qed simp

lemma due_by_pair:
  assumes "due_by (t + cc_pairTTL cf) c" "now \<le> t"
  shows "due_by (t + cc_pairTTL cf) (onPair qr cf now secret c)"
proof (cases secret)
  case (Inl e)
  then show ?thesis by (intro due_by_same [OF assms(1)]) (simp add: onPair_def)
next
  case (Inr s)
  have "set (cn_timers (onPair qr cf now secret c)) \<subseteq>
      insert (cn_next (stop_timer (set_window (window_open s now (cc_pairTTL cf)) c)), now + cc_pairTTL cf) (set (cn_timers c))"
    using timers_stop [of "set_window (window_open s now (cc_pairTTL cf)) c"] Inr
    by (auto simp: onPair_def show_block_def Let_def cprint_def set_window_def case_prod_unfold)
  then show ?thesis using assms by (fastforce simp: due_by_def list_all_iff)
qed

lemma due_by_step:
  assumes "due_by (t + cc_pairTTL cf) c" "pressed_by t e"
  shows "due_by (t + cc_pairTTL cf) (console_step C me qr cf e c)"
proof (cases e)
  case (KeyByte now secret b)
  have "due_by (t + cc_pairTTL cf) (onPair qr cf now secret c)"
    using due_by_pair [OF assms(1)] assms(2) KeyByte by (simp add: pressed_by_def)
  moreover have "due_by (t + cc_pairTTL cf) (onCancel c)"
    using timers_retire [of cancelled_status "set_window window_Close c"]
    by (intro due_by_same [OF assms(1)]) (auto simp: onCancel_def set_window_def)
  moreover have "due_by (t + cc_pairTTL cf) (c\<lparr>cn_done := True\<rparr>)"
    by (rule due_by_same [OF assms(1)]) simp
  ultimately show ?thesis using assms(1) by (simp add: KeyByte key_byte_def)
next
  case (CallbackRuns i)
  have "due_by (t + cc_pairTTL cf) (onExpire (c\<lparr>cn_fired := remove1 i (cn_fired c)\<rparr>))"
    using timers_retire [of expired_status "set_window window_Close (c\<lparr>cn_fired := remove1 i (cn_fired c)\<rparr>)"]
    by (intro due_by_same [OF assms(1)]) (auto simp: onExpire_def set_window_def)
  then show ?thesis using assms(1) by (simp add: CallbackRuns)
next
  case (Daemon ev)
  then show ?thesis
    using timers_enrol [of _ "c\<lparr>cn_daemon := daemon_step C me ev (cn_daemon c)\<rparr>"]
    by (intro due_by_same [OF assms(1)]) (simp add: console_serve_def Let_def)
qed (auto simp: set_window_def intro!: due_by_same [OF assms(1)] split: option.split)

lemma due_by_run:
  "list_all (pressed_by t) es \<Longrightarrow>
     due_by (t + cc_pairTTL cf) (console_run C me qr cf es (new_console pinned ctrl))"
proof (induction es rule: rev_induct)
  case Nil
  show ?case by (simp add: console_run_def new_console_def due_by_def)
qed (simp add: console_run_snoc due_by_step)



section \<open>Interleavings the console gets wrong\<close>

text \<open>
  An expired code on screen closes the window of another.  The callback of the timer
  armed by P disarms whatever window is open when it runs.  If the control interface opened a
  window in the meantime, for \<open>simbeamd pair\<close>, that window is closed before its time, although
  its caller was told how long it would stay open.
\<close>

theorem console_timer_closes_pair_window:
  assumes "map_of (cn_timers c) i = Some due" "cn_ctrl c = Some cs"
    and "cq_method r = ''POST''" "cq_path r = ''/pair''" "cq_auth r = ''Bearer '' @ cs_token cs"
    and "due \<le> now + cs_ttl cs" "now + cs_ttl cs \<noteq> 0" "s \<noteq> []"
  shows "window_State due (r_win (cn_daemon (console_run C me qr cf [Control now (Inr s) r] c))) = ''open'' \<and>
    window_State due (r_win (cn_daemon (console_run C me qr cf
       [Control now (Inr s) r, TimerFires due i, CallbackRuns i] c))) = ''expired''"
  using assms
  by (simp add: console_run_def control_handler_def pair_route_def onExpire_def window_defs)

definition pair_post :: control_request where
  "pair_post = \<lparr>cq_method = ''POST'', cq_path = ''/pair'', cq_auth = ''Bearer t''\<rparr>"

definition pair_get :: control_request where
  "pair_get = \<lparr>cq_method = ''GET'', cq_path = ''/pair'', cq_auth = ''Bearer t''\<rparr>"

definition demo_ctrl :: controlServer where
  "demo_ctrl = \<lparr>cs_ttl = 300, cs_token = ''t'', cs_lastClient = []\<rparr>"

theorem console_timer_closes_pair_window_witness:
  "\<exists>c. window_State 301 (r_win (cn_daemon (console_run plain_crypto demo_identity (\<lambda>s. s) cs_conf
       [Control 300 (Inr ''B'') pair_post, TimerFires 301 0, CallbackRuns 0] c))) = ''expired''"
proof -
  let ?c = "console_run plain_crypto demo_identity (\<lambda>s. s) cs_conf [KeyByte 1 (Inr ''A'') CHR ''p'']
      (new_console empty_pins (Some demo_ctrl))"
  have "map_of (cn_timers ?c) 0 = Some 301" "cn_ctrl ?c = Some demo_ctrl"
    by (simp_all add: console_eval cs_conf_def)
  then show ?thesis
    using console_timer_closes_pair_window [of ?c 0 301 demo_ctrl pair_post 300 "''B''" plain_crypto demo_identity
        "\<lambda>s. s" cs_conf]
    by (auto simp: pair_post_def demo_ctrl_def)
qed

text \<open>
  \<open>simbeamd pair\<close> can report a pairing that never happened.  The window counts as consumed
  from the join that presents its secret, before the client has proved its key; a poll that
  arrives then is told \<open>consumed\<close> with whatever client paired last, and the command prints
  that as its success, although nobody new is pinned.
\<close>

theorem pair_reports_unproven_client:
  assumes "pw_consumed (r_win (cn_daemon c))" "cn_ctrl c = Some cs"
    and "cq_method r = ''GET''" "cq_path r = ''/pair''" "cq_auth r = ''Bearer '' @ cs_token cs"
  shows "cr_body (fst (control_handler (pair_link cf) now secret r cs (r_win (cn_daemon c)))) =
      pairState_json ''consumed'' (cs_lastClient cs) \<and>
    poll_loop [Replied \<lparr>ps_State = ''consumed'', ps_Client = cs_lastClient cs\<rparr>] =
      Some (Inr (paired_text (cs_lastClient cs)))"
  using assms by (simp add: control_handler_def pair_route_def window_State_def call_def)

theorem pair_reports_unproven_client_witness:
  "\<exists>c. c = console_run plain_crypto demo_identity (\<lambda>s. s) cs_conf
        [Control 0 (Inr ''S'') pair_post, Daemon demo_join] (new_console empty_pins (Some demo_ctrl)) \<and>
     r_enrolled (cn_daemon c) = [] \<and>
     cr_body (fst (control_handler (pair_link cs_conf) 6 (Inl []) pair_get demo_ctrl (r_win (cn_daemon c)))) =
       pairState_json ''consumed'' []"
proof -
  let ?c = "console_run plain_crypto demo_identity (\<lambda>s. s) cs_conf
      [Control 0 (Inr ''S'') pair_post, Daemon demo_join] (new_console empty_pins (Some demo_ctrl))"
  have c: "pw_consumed (r_win (cn_daemon ?c))" "r_enrolled (cn_daemon ?c) = []" "cn_ctrl ?c = Some demo_ctrl"
    by (simp_all add: console_run_def new_console_def new_daemon_def pair_post_def demo_ctrl_def control_handler_def
        pair_route_def set_window_def console_serve_def newly_enrolled_def demo_join_def serve_msg_def on_connect_def
        pinned_Contains_def empty_pins_def window_defs VerifyEnrollProof_def demo_env_def Let_def cleanup_def send_def)
  have "cq_method pair_get = ''GET''" "cq_path pair_get = ''/pair''" "cq_auth pair_get = ''Bearer '' @ cs_token demo_ctrl"
    by (simp_all add: pair_get_def demo_ctrl_def)
  from pair_reports_unproven_client [OF c(1,3) this] c(2) show ?thesis
    by (auto simp: demo_ctrl_def)
qed

end
