(* ===== verification/Demo_Mode.thy ===== *)
theory Demo_Mode
  imports Console
begin

text \<open>
  \<open>cmd/simbeamd/main.go\<close>, \<open>runDemo\<close>: the unattended daemon of the demo device.  Its window is
  armed at start-up with a secret that lives for a hundred years, and armed again with the
  same secret by the enrolment callback, so that one printed link pairs any number of clients.
\<close>

definition demoTTL :: duration where "demoTTL = 100 * 365 * 24 * hour"

text \<open>The flags are checked first; then the identity, the store and the secret are obtained.\<close>

definition demo_secret :: "string \<Rightarrow> string \<Rightarrow> string + string \<Rightarrow> string + string" where
  "demo_secret flag env generated =
     (if flag \<noteq> [] then Inr flag else if env \<noteq> [] then Inr env
      else (case generated of Inl e \<Rightarrow> Inl (''pairing secret: '' @ e) | Inr s \<Rightarrow> Inr s))"

definition start_demo ::
  "string \<Rightarrow> string \<Rightarrow> string + Identity \<Rightarrow> string + PinnedStore \<Rightarrow> string + string \<Rightarrow> gotime
     \<Rightarrow> string + (Identity \<times> string \<times> daemon)" where
  "start_demo signalURL demoURL identity pinned secret now =
     (if signalURL = [] then Inl ''demo needs a broker: pass --signal wss://host/ws''
      else if demoURL = [] then Inl ''demo needs a page to render: pass --url https://...''
      else (case identity of
        Inl e \<Rightarrow> Inl (''identity: '' @ e)
      | Inr me \<Rightarrow>
          (case pinned of
             Inl e \<Rightarrow> Inl (''pinned store: '' @ e)
           | Inr ps \<Rightarrow>
               (case secret of
                  Inl e \<Rightarrow> Inl e
                | Inr s \<Rightarrow> Inr (me, s, new_daemon ps (window_open s now demoTTL NewPairingWindow))))))"

text \<open>The listener of \<open>--web\<close>, the only thing between these and the broker that can fail.\<close>

definition local_http :: "string \<Rightarrow> string \<Rightarrow> string option \<Rightarrow> string option" where
  "local_http webDir addr listenErr =
     (if webDir = [] then None
      else map_option (\<lambda>e. ''local http listen on '' @ addr @ '': '' @ e) listenErr)"

definition demo_ready ::
  "string + (Identity \<times> string \<times> daemon) \<Rightarrow> string \<Rightarrow> string \<Rightarrow> string option
     \<Rightarrow> string + (Identity \<times> string \<times> daemon)" where
  "demo_ready started webDir addr listenErr =
     (case started of
        Inl e \<Rightarrow> Inl e
      | Inr d \<Rightarrow> (case local_http webDir addr listenErr of Some e \<Rightarrow> Inl e | None \<Rightarrow> Inr d))"

text \<open>What is printed before serving; the QR code only to a terminal.\<close>

definition demo_banner :: "(string \<Rightarrow> string) \<Rightarrow> bool \<Rightarrow> console_config \<Rightarrow> string \<Rightarrow> string \<Rightarrow> string" where
  "demo_banner qr terminal cf demoURL secret =
     (let url = pair_link cf secret in
      ''simbeamd demo mode'' @ em_dash @ ''broker: '' @ cc_signalURL cf @ nl @
      ''daemonID: '' @ cc_pubKey cf @ nl @
      ''demo page: '' @ demoURL @ nl @
      nl @ ''Pairing URL (multi-use, survives restarts only with a fixed --pair-secret):'' @ nl @ nl @
      ''  '' @ url @ nl @ nl @
      (if terminal then printPairingQR qr url else []))"

definition demo_onEnroll :: "string \<Rightarrow> gotime \<Rightarrow> string \<Rightarrow> daemon \<Rightarrow> daemon" where
  "demo_onEnroll secret now key d = d\<lparr>r_win := window_open secret now demoTTL (r_win d)\<rparr>"

text \<open>One event, with the clock the callback would read.\<close>

definition demo_step :: "crypto \<Rightarrow> Identity \<Rightarrow> string \<Rightarrow> gotime \<times> daemon_event \<Rightarrow> daemon \<Rightarrow> daemon" where
  "demo_step C me secret te d =
     (let d' = daemon_step C me (snd te) d
      in fold (demo_onEnroll secret (fst te)) (newly_enrolled d d') d')"

definition demo_run :: "crypto \<Rightarrow> Identity \<Rightarrow> string \<Rightarrow> (gotime \<times> daemon_event) list \<Rightarrow> daemon \<Rightarrow> daemon" where
  "demo_run C me secret tes d = fold (demo_step C me secret) tes d"

section \<open>The link stays good while every client that joins also proves its key\<close>

text \<open>A client's visit: its join and its proof, the environment of each, and the clock at the end.\<close>

record visit =
  vs_env :: serve_env
  vs_join :: signal_msg
  vs_env' :: serve_env
  vs_proof :: signal_msg
  vs_time :: gotime

definition visit_events :: "visit \<Rightarrow> (gotime \<times> daemon_event) list" where
  "visit_events v = [(0, Recv (vs_env v) (vs_join v)), (vs_time v, Recv (vs_env' v) (vs_proof v))]"

text \<open>
  The client knows the secret and owns its key, the random source and the disk work, and the
  clock is between \<open>t0\<close> and a hundred years later.
\<close>

definition good_visit :: "crypto \<Rightarrow> string \<Rightarrow> gotime \<Rightarrow> visit \<Rightarrow> bool" where
  "good_visit C secret t0 v \<longleftrightarrow>
     m_type (vs_join v) = TypeConnect \<and> m_type (vs_proof v) = TypeProof \<and>
     VerifyEnrollProof C secret (m_pubkey (vs_join v)) (m_nonce (vs_join v)) (m_pair (vs_join v)) \<and>
     (case sv_random (vs_env v) of
        None \<Rightarrow> False
      | Some rnd \<Rightarrow> Verify C (m_pubkey (vs_join v)) (nonce_of rnd) (m_sig (vs_proof v))) \<and>
     sv_save (vs_env' v) = None \<and>
     t0 \<le> sv_now (vs_env v) \<and> sv_now (vs_env v) \<le> t0 + demoTTL \<and> t0 \<le> vs_time v"

definition demo_open :: "string \<Rightarrow> gotime \<Rightarrow> daemon \<Rightarrow> bool" where
  "demo_open secret t0 d \<longleftrightarrow>
     \<not> pw_consumed (r_win d) \<and> \<not> pw_cancelled (r_win d) \<and> pw_secret (r_win d) = secret \<and>
     t0 + demoTTL \<le> pw_expires (r_win d)"

lemma demo_open_State:
  "demo_open secret t0 d \<Longrightarrow> secret \<noteq> [] \<Longrightarrow> t0 \<le> t \<Longrightarrow> t \<le> t0 + demoTTL \<Longrightarrow> window_State t (r_win d) = ''open''"
  by (simp add: demo_open_def window_State_def)

lemma cleanup_keeps [simp]: "r_pinned (cleanup d) = r_pinned d" "r_win (cleanup d) = r_win d"
  "r_enrolled (cleanup d) = r_enrolled d"
  by (simp_all add: cleanup_def Let_def live_update_def split: option.split)

lemma join_admitted:
  assumes "good_visit C secret t0 v" "demo_open secret t0 d" "secret \<noteq> []"
    and d1_def: "d1 = daemon_step C me (Recv (vs_env v) (vs_join v)) d"
  shows "r_authPub d1 = m_pubkey (vs_join v)" "r_pinned d1 = r_pinned d" "r_enrolled d1 = r_enrolled d"
    "Verify C (r_authPub d1) (r_authNonce d1) (m_sig (vs_proof v))"
    "\<not> pinned_Contains (m_pubkey (vs_join v)) (r_pinned d) \<Longrightarrow> r_enrolling d1"
    "pinned_Contains (m_pubkey (vs_join v)) (r_pinned d) \<Longrightarrow> \<not> r_enrolling d1 \<and> r_win d1 = r_win d"
proof -
  from assms(1) obtain rnd where rnd: "sv_random (vs_env v) = Some rnd"
    "Verify C (m_pubkey (vs_join v)) (nonce_of rnd) (m_sig (vs_proof v))"
    by (auto simp: good_visit_def split: option.splits)
  have ok: "window_verify C (m_pubkey (vs_join v)) (m_nonce (vs_join v)) (m_pair (vs_join v)) (sv_now (vs_env v)) (r_win d) =
      (pairOK, (r_win d)\<lparr>pw_consumed := True, pw_secret := []\<rparr>)"
    using assms(1-3) by (auto simp: window_verify_def good_visit_def demo_open_def)
  show "r_authPub d1 = m_pubkey (vs_join v)" "r_pinned d1 = r_pinned d" "r_enrolled d1 = r_enrolled d"
    "Verify C (r_authPub d1) (r_authNonce d1) (m_sig (vs_proof v))"
    "\<not> pinned_Contains (m_pubkey (vs_join v)) (r_pinned d) \<Longrightarrow> r_enrolling d1"
    "pinned_Contains (m_pubkey (vs_join v)) (r_pinned d) \<Longrightarrow> \<not> r_enrolling d1 \<and> r_win d1 = r_win d"
    using assms(1) rnd ok
    by (simp_all add: d1_def good_visit_def serve_msg_def on_connect_def Let_def send_def)
qed

lemma visit_pairs:
  assumes "good_visit C secret t0 v" "demo_open secret t0 d" "secret \<noteq> []"
  shows "demo_open secret t0 (demo_run C me secret (visit_events v) d) \<and>
    (\<forall>k. pinned_Contains k (r_pinned (demo_run C me secret (visit_events v) d)) \<longleftrightarrow>
         k = m_pubkey (vs_join v) \<or> pinned_Contains k (r_pinned d)) \<and>
    r_authed (demo_run C me secret (visit_events v) d)"
proof -
  define d1 where "d1 = daemon_step C me (Recv (vs_env v) (vs_join v)) d"
  note j = join_admitted [OF assms d1_def]
  have first: "demo_step C me secret (0, Recv (vs_env v) (vs_join v)) d = d1"
    using j(3) by (simp add: demo_step_def d1_def newly_enrolled_def Let_def)
  have ne: "r_authPub d1 \<noteq> []" using Verify_no_separator(3) [OF j(4)] .
  have ty: "m_type (vs_proof v) = TypeProof" and sv: "sv_save (vs_env' v) = None" and t: "t0 \<le> vs_time v"
    using assms(1) by (simp_all add: good_visit_def)
  show ?thesis
  proof (cases "pinned_Contains (m_pubkey (vs_join v)) (r_pinned d)")
    case True
    have "demo_step C me secret (vs_time v, Recv (vs_env' v) (vs_proof v)) d1 = d1\<lparr>r_authed := True\<rparr>"
      using j(4) j(6) [OF True] ne ty
      by (simp add: demo_step_def newly_enrolled_def serve_msg_def on_proof_def Let_def)
    then have "demo_run C me secret (visit_events v) d = d1\<lparr>r_authed := True\<rparr>"
      by (simp add: demo_run_def visit_events_def first)
    then show ?thesis
      using j(2) j(6) [OF True] assms(2) True by (auto simp: demo_open_def)
  next
    case False
    obtain ps where add: "pinned_Add None (r_authPub d1) [] (r_pinned d1) = (True, ps)"
      by (metis pinned_Add_def pinned_save_ok_iff prod.collapse)
    then have ps: "pinned_Contains k ps \<longleftrightarrow> k = r_authPub d1 \<or> pinned_Contains k (r_pinned d1)" for k
      using Contains_Add [of k None "r_authPub d1" "[]" "r_pinned d1"] by simp
    have "demo_step C me secret (vs_time v, Recv (vs_env' v) (vs_proof v)) d1 =
        demo_onEnroll secret (vs_time v) (r_authPub d1)
          (d1\<lparr>r_pinned := ps, r_enrolled := r_enrolled d1 @ [r_authPub d1], r_authed := True\<rparr>)"
      using j(4) j(5) [OF False] ne ty sv add
      by (simp add: demo_step_def newly_enrolled_def serve_msg_def on_proof_def Let_def)
    then have "demo_run C me secret (visit_events v) d =
        demo_onEnroll secret (vs_time v) (r_authPub d1)
          (d1\<lparr>r_pinned := ps, r_enrolled := r_enrolled d1 @ [r_authPub d1], r_authed := True\<rparr>)"
      by (simp add: demo_run_def visit_events_def first)
    then show ?thesis
      using j(1,2) t ps by (simp add: demo_onEnroll_def demo_open_def window_open_def)
  qed
qed

text \<open>
  C30: The demo's link pairs any number of clients.  Starting with the window armed, whatever
  clients visit one after the other, each knowing the secret and proving its key, every one
  of them ends up pinned, and the window is open for the next one for a hundred years.
\<close>

theorem demo_admits_everyone:
  assumes "list_all (good_visit C secret t0) vs" "secret \<noteq> []"
    and "demo_run C me secret (concat (map visit_events vs))
           (new_daemon ps (window_open secret t0 demoTTL NewPairingWindow)) = d"
  shows "list_all (\<lambda>v. pinned_Contains (m_pubkey (vs_join v)) (r_pinned d)) vs \<and>
    window_State t0 (r_win d) = ''open'' \<and> window_State (t0 + demoTTL) (r_win d) = ''open''"
proof -
  have "demo_open secret t0 d \<and> list_all (\<lambda>v. pinned_Contains (m_pubkey (vs_join v)) (r_pinned d)) vs"
    using assms(1,3)
  proof (induction vs arbitrary: d rule: rev_induct)
    case Nil
    then show ?case by (auto simp: demo_run_def new_daemon_def demo_open_def window_open_def)
  next
    case (snoc v vs)
    let ?d0 = "demo_run C me secret (concat (map visit_events vs))
        (new_daemon ps (window_open secret t0 demoTTL NewPairingWindow))"
    have d: "d = demo_run C me secret (visit_events v) ?d0"
      using snoc.prems(2) by (simp add: demo_run_def)
    have IH: "demo_open secret t0 ?d0" "list_all (\<lambda>v. pinned_Contains (m_pubkey (vs_join v)) (r_pinned ?d0)) vs"
      using snoc.IH [OF _ refl] snoc.prems(1) by simp_all
    have "good_visit C secret t0 v" using snoc.prems(1) by simp
    from visit_pairs [OF this IH(1) assms(2), of me] IH(2) show ?case
      unfolding d by (auto simp: list_all_iff)
  qed
  then show ?thesis using assms(2) demo_open_State [of secret t0 d] by (simp add: demoTTL_def time_units)
qed

definition demo_visit :: visit where
  "demo_visit =
     \<lparr>vs_env = demo_env None,
      vs_join = (msg_of_type TypeConnect)\<lparr>m_pubkey := demo_key, m_nonce := ''n'',
        m_pair := EnrollProof plain_crypto ''S'' demo_key ''n''\<rparr>,
      vs_env' = demo_env None,
      vs_proof = (msg_of_type TypeProof)\<lparr>m_sig := b64_encode (demo_raw @ nonce_of ''r'')\<rparr>,
      vs_time = 6\<rparr>"

lemma demo_visit_good: "good_visit plain_crypto ''S'' 1 demo_visit"
  by (simp add: good_visit_def demo_visit_def VerifyEnrollProof_def demo_env_def demo_verify demoTTL_def time_units)

theorem demo_admits_everyone_witness:
  "\<exists>d. d = demo_run plain_crypto demo_identity ''S'' (visit_events demo_visit @ visit_events demo_visit)
         (new_daemon empty_pins (window_open ''S'' 1 demoTTL NewPairingWindow)) \<and>
     pinned_Contains demo_key (r_pinned d) \<and> window_State 1 (r_win d) = ''open''"
proof -
  have "list_all (good_visit plain_crypto ''S'' 1) [demo_visit, demo_visit]" by (simp add: demo_visit_good)
  from demo_admits_everyone [OF this _ refl, of demo_identity empty_pins] show ?thesis
    by (auto simp: demo_visit_def)
qed

section \<open>One client that leaves too early locks everybody out\<close>

text \<open>
  a demo daemon whose window was used up without a pairing never pairs again.  Once a
  client has joined with the secret and gone away before proving its key, the window is
  consumed and nothing arms it: whatever arrives afterwards, nobody is enrolled, and every
  client not already pinned is told that the code was used, until the process is restarted.
\<close>

definition locked_out :: "daemon \<Rightarrow> bool" where
  "locked_out d \<longleftrightarrow> pw_consumed (r_win d) \<and> \<not> r_enrolling d"

lemma handlers_enrolling:
  "r_enrolling (on_iceServers m d) = r_enrolling d" "r_enrolling (on_candidate m d) = r_enrolling d"
  "r_enrolling (cleanup d) = False" "r_enrolling (send m d) = r_enrolling d"
  "r_enrolling (live_update i f d) = r_enrolling d"
  by (simp_all add: on_iceServers_def on_candidate_def cleanup_def send_def live_update_def Let_def split: option.split)

lemma locked_connect:
  assumes "pw_consumed (r_win d)"
  shows "\<not> r_enrolling (on_connect C env m d) \<and> r_enrolled (on_connect C env m d) = r_enrolled d \<and>
    (\<not> pinned_Contains (m_pubkey m) (r_pinned d) \<longrightarrow>
       r_sent (on_connect C env m d) = r_sent (cleanup d) @ [error_msg CodePairUsed ''not paired''])"
  using assms
  by (auto simp: on_connect_def window_verify_def Let_def handlers_enrolling send_def split: option.split)

lemma locked_offer:
  "\<not> r_enrolling d \<Longrightarrow> \<not> r_enrolling (on_offer C priv env m d) \<and> r_enrolled (on_offer C priv env m d) = r_enrolled d"
  by (auto simp: on_offer_def Let_def handlers_enrolling case_prod_unfold split: option.split sum.split)

lemma locked_proof:
  "\<not> r_enrolling d \<Longrightarrow> \<not> r_enrolling (on_proof C env m d) \<and> r_enrolled (on_proof C env m d) = r_enrolled d"
  by (auto simp: on_proof_def handlers_enrolling)

lemma locked_step:
  assumes "locked_out d" "outside_event (snd te)"
  shows "locked_out (demo_step C me secret te d) \<and> r_enrolled (demo_step C me secret te d) = r_enrolled d"
proof -
  let ?d' = "daemon_step C me (snd te) d"
  have used: "pw_consumed (snd (window_verify C k n pr now w))" if "pw_consumed w" for k n pr now w
    using that by (simp add: window_verify_def)
  have "pw_consumed (r_win ?d')"
    using daemon_step_win [OF assms(2), of C me d] assms(1) used by (auto simp: locked_out_def)
  moreover have "\<not> r_enrolling ?d' \<and> r_enrolled ?d' = r_enrolled d"
  proof (cases "snd te")
    case (Recv env m)
    have "r_enrolled (on_iceServers m d) = r_enrolled d" "r_enrolled (on_candidate m d) = r_enrolled d"
      by (simp_all add: on_iceServers_def on_candidate_def live_update_def split: option.split)
    then show ?thesis
      using assms(1) locked_connect [of d C env m] locked_offer [of d C "id_Priv me" env m] locked_proof [of d C env m]
      by (auto simp: Recv serve_msg_def locked_out_def handlers_enrolling)
  next
    case (PeerDied i)
    then show ?thesis using assms(1) by (simp add: peer_died_def locked_out_def handlers_enrolling)
  next
    case (LocalCand i c)
    then show ?thesis using assms(1) by (simp add: local_candidate_def locked_out_def handlers_enrolling)
  next
    case Reconnect
    then show ?thesis by (simp add: reconnect_def handlers_enrolling)
  qed (use assms(2) in simp_all)
  ultimately show ?thesis by (simp add: demo_step_def newly_enrolled_def Let_def locked_out_def)
qed

theorem demo_locked_out:
  assumes "pw_consumed (r_win d)" "\<not> r_enrolling d" "list_all (outside_event \<circ> snd) tes"
    and "demo_run C me secret tes d = d'"
  shows "r_enrolled d' = r_enrolled d \<and> window_State t (r_win d') = ''consumed'' \<and>
    (m_type m = TypeConnect \<and> \<not> pinned_Contains (m_pubkey m) (r_pinned d') \<longrightarrow>
       last (r_sent (demo_step C me secret (t, Recv env m) d')) = error_msg CodePairUsed ''not paired'')"
proof -
  have "locked_out d' \<and> r_enrolled d' = r_enrolled d"
    using assms(3,4)
  proof (induction tes arbitrary: d' rule: rev_induct)
    case Nil
    then show ?case using assms(1,2) by (simp add: demo_run_def locked_out_def)
  next
    case (snoc te tes)
    then show ?case
      using locked_step [of "demo_run C me secret tes d" te C me secret] by (auto simp: demo_run_def)
  qed
  then have l: "pw_consumed (r_win d')" "r_enrolled d' = r_enrolled d" by (simp_all add: locked_out_def)
  show ?thesis
    using l locked_connect [OF l(1), of C env m]
    by (auto simp: window_State_def demo_step_def newly_enrolled_def serve_msg_def Let_def)
qed

theorem demo_locked_out_witness:
  "\<exists>d. d = demo_run plain_crypto demo_identity ''S'' [(2, demo_join), (3, Reconnect)]
         (new_daemon empty_pins (window_open ''S'' 1 demoTTL NewPairingWindow)) \<and>
     last (r_sent (demo_step plain_crypto demo_identity ''S'' (9, demo_join) d)) = error_msg CodePairUsed ''not paired''"
proof -
  let ?d = "demo_run plain_crypto demo_identity ''S'' [(2, demo_join), (3, Reconnect)]
      (new_daemon empty_pins (window_open ''S'' 1 demoTTL NewPairingWindow))"
  have d: "pw_consumed (r_win ?d)" "\<not> r_enrolling ?d" "r_pinned ?d = empty_pins"
    by (simp_all add: demo_run_def demo_step_def demo_join_def serve_msg_def on_connect_def new_daemon_def
        pinned_Contains_def empty_pins_def window_defs VerifyEnrollProof_def demo_env_def newly_enrolled_def
        reconnect_def handlers_enrolling demoTTL_def time_units Let_def)
  have "\<not> pinned_Contains demo_key empty_pins" by (simp add: pinned_Contains_def empty_pins_def)
  then show ?thesis
    using demo_locked_out [OF d(1,2), of "[]" plain_crypto demo_identity "''S''" ?d 9
        "(msg_of_type TypeConnect)\<lparr>m_pubkey := demo_key, m_nonce := ''n'',
          m_pair := EnrollProof plain_crypto ''S'' demo_key ''n''\<rparr>" "demo_env None"] d(3)
    by (auto simp: demo_run_def demo_join_def)
qed

end
