(* ===== verification/Service.thy ===== *)
theory Service
  imports Go_Strings
begin

text \<open>
  \<open>cmd/simbeamd/service.go\<close> and \<open>update.go\<close>: the launchd agent and the self-update.  What the
  operating system answers (the executable's path, the home directory, the outcomes of file
  operations and of \<open>launchctl\<close>) is an argument; the state is the agent's property list on
  disk, and every call of \<open>launchctl\<close> is recorded.
\<close>

section \<open>Paths (\<open>path/filepath\<close>)\<close>

definition clean_component :: "bool \<Rightarrow> string \<Rightarrow> string list \<Rightarrow> string list" where
  "clean_component rooted c acc =
     (if c = [] \<or> c = ''.'' then acc
      else if c = ''..'' then
        (if acc \<noteq> [] \<and> last acc \<noteq> ''..'' then butlast acc else if rooted then acc else acc @ [c])
      else acc @ [c])"

definition path_clean :: "string \<Rightarrow> string" where
  "path_clean p =
     (let rooted = has_prefix ''/'' p;
          cs = fold (clean_component rooted) (split_on CHR ''/'' p) []
      in if rooted then ''/'' @ join_with ''/'' cs else if cs = [] then ''.'' else join_with ''/'' cs)"

definition path_join :: "string list \<Rightarrow> string" where
  "path_join es =
     (case dropWhile (\<lambda>e. e = []) es of [] \<Rightarrow> [] | fs \<Rightarrow> path_clean (join_with ''/'' fs))"

definition path_dir :: "string \<Rightarrow> string" where
  "path_dir p = path_clean (rev (dropWhile (\<lambda>c. c \<noteq> CHR ''/'') (rev p)))"

section \<open>The property list\<close>

definition serviceLabel :: string where "serviceLabel = ''dev.simbeam.simbeamd''"

text \<open>\<open>esc\<close>, the \<open>strings.Replacer\<close> of \<open>servicePlist\<close>.\<close>

definition esc_char :: "char \<Rightarrow> string" where
  "esc_char c =
     (if c = CHR ''&'' then ''&amp;'' else if c = CHR ''<'' then ''&lt;'' else if c = CHR ''>'' then ''&gt;'' else [c])"

definition esc :: "string \<Rightarrow> string" where "esc s = concat (map esc_char s)"

definition xml_tag :: "string \<Rightarrow> string \<Rightarrow> string" where
  "xml_tag t s = ''<'' @ t @ ''>'' @ s @ ''</'' @ t @ ''>''"

definition line :: "nat \<Rightarrow> string \<Rightarrow> string" where
  "line tabs s = replicate tabs (CHR 0x09) @ s @ [CHR 0x0A]"

definition service_path :: "string \<Rightarrow> string" where
  "service_path exe = join_with '':'' [path_dir exe, ''/opt/homebrew/bin'', ''/usr/local/bin'', ''/usr/bin'', ''/bin'']"

definition servicePlist :: "string \<Rightarrow> string \<Rightarrow> string" where
  "servicePlist exe logPath =
     line 0 (''<?xml version='' @ [CHR 0x22] @ ''1.0'' @ [CHR 0x22] @ '' encoding='' @ [CHR 0x22] @ ''UTF-8'' @ [CHR 0x22] @ ''?>'') @
     line 0 (''<!DOCTYPE plist PUBLIC '' @ [CHR 0x22] @ ''-//Apple//DTD PLIST 1.0//EN'' @ [CHR 0x22] @ '' '' @ [CHR 0x22] @
       ''http://www.apple.com/DTDs/PropertyList-1.0.dtd'' @ [CHR 0x22] @ ''>'') @
     line 0 (''<plist version='' @ [CHR 0x22] @ ''1.0'' @ [CHR 0x22] @ ''>'') @
     line 0 ''<dict>'' @
     line 1 (xml_tag ''key'' ''Label'' @ xml_tag ''string'' serviceLabel) @
     line 1 (xml_tag ''key'' ''ProgramArguments'') @
     line 1 ''<array>'' @
     line 2 (xml_tag ''string'' (esc exe)) @
     line 2 (xml_tag ''string'' ''serve'') @
     line 1 ''</array>'' @
     line 1 (xml_tag ''key'' ''RunAtLoad'' @ ''<true/>'') @
     line 1 (xml_tag ''key'' ''KeepAlive'' @ ''<true/>'') @
     line 1 (xml_tag ''key'' ''EnvironmentVariables'') @
     line 1 ''<dict>'' @
     line 2 (xml_tag ''key'' ''PATH'' @ xml_tag ''string'' (esc (service_path exe))) @
     line 1 ''</dict>'' @
     line 1 (xml_tag ''key'' ''StandardOutPath'' @ xml_tag ''string'' (esc logPath)) @
     line 1 (xml_tag ''key'' ''StandardErrorPath'' @ xml_tag ''string'' (esc logPath)) @
     line 0 ''</dict>'' @
     line 0 ''</plist>''"

text \<open>A reader of such a list: the character data of its \<open>string\<close> elements, in order.\<close>

fun xml_unescape :: "string \<Rightarrow> string" where
  "xml_unescape [] = []"
| "xml_unescape (c # cs) =
     (if c \<noteq> CHR ''&'' then c # xml_unescape cs
      else if has_prefix ''amp;'' cs then CHR ''&'' # xml_unescape (drop 4 cs)
      else if has_prefix ''lt;'' cs then CHR ''<'' # xml_unescape (drop 3 cs)
      else if has_prefix ''gt;'' cs then CHR ''>'' # xml_unescape (drop 3 cs)
      else c # xml_unescape cs)"

definition plist_strings :: "string \<Rightarrow> string list" where
  "plist_strings s =
     map (\<lambda>e. xml_unescape (drop 7 e)) (filter (has_prefix ''string>'') (split_on CHR ''<'' s))"

lemma esc_no_lt [simp]: "CHR ''<'' \<notin> set (esc s)"
  by (auto simp: esc_def esc_char_def)

lemma unescape_esc [simp]: "xml_unescape (esc s) = s"
proof (induction s)
  case Nil
  then show ?case by (simp add: esc_def)
next
  case (Cons c s)
  have "xml_unescape (esc_char c @ r) = c # xml_unescape r" for r
    by (simp add: esc_char_def has_prefix_def)
  with Cons show ?case by (simp add: esc_def)
qed

lemma split_on_chunks:
  "list_all (\<lambda>x. c \<notin> set x) xs \<Longrightarrow> split_on c (concat (map ((#) c) xs)) = [] # xs"
proof (induction xs)
  case (Cons x xs)
  show ?case
  proof (cases xs)
    case Nil
    then show ?thesis using Cons.prems by (simp add: split_on_no_sep)
  next
    case (Cons y ys)
    then have "split_on c (x @ c # y @ concat (map ((#) c) ys)) = x # split_on c (y @ concat (map ((#) c) ys))"
      using Cons.prems by (intro split_on_append) simp
    then show ?thesis using Cons.IH Cons.prems Cons by simp
  qed
qed simp

text \<open>The list, cut at its \<open><\<close> characters.\<close>

definition open_chunk :: "string \<Rightarrow> string \<Rightarrow> string" where "open_chunk t s = t @ ''>'' @ s"
definition close_chunk :: "string \<Rightarrow> string \<Rightarrow> string" where "close_chunk t s = ''/'' @ t @ ''>'' @ s"

definition plist_chunks :: "string \<Rightarrow> string \<Rightarrow> string list" where
  "plist_chunks exe logPath =
     (let nl = (\<lambda>n. CHR 0x0A # replicate n (CHR 0x09)); q = [CHR 0x22] in
      [''?xml version='' @ q @ ''1.0'' @ q @ '' encoding='' @ q @ ''UTF-8'' @ q @ ''?>'' @ nl 0,
       ''!DOCTYPE plist PUBLIC '' @ q @ ''-//Apple//DTD PLIST 1.0//EN'' @ q @ '' '' @ q @
         ''http://www.apple.com/DTDs/PropertyList-1.0.dtd'' @ q @ ''>'' @ nl 0,
       ''plist version='' @ q @ ''1.0'' @ q @ ''>'' @ nl 0,
       open_chunk ''dict'' (nl 1),
       open_chunk ''key'' ''Label'', close_chunk ''key'' [],
       open_chunk ''string'' serviceLabel, close_chunk ''string'' (nl 1),
       open_chunk ''key'' ''ProgramArguments'', close_chunk ''key'' (nl 1),
       open_chunk ''array'' (nl 2),
       open_chunk ''string'' (esc exe), close_chunk ''string'' (nl 2),
       open_chunk ''string'' ''serve'', close_chunk ''string'' (nl 1),
       close_chunk ''array'' (nl 1),
       open_chunk ''key'' ''RunAtLoad'', close_chunk ''key'' [], open_chunk ''true/'' (nl 1),
       open_chunk ''key'' ''KeepAlive'', close_chunk ''key'' [], open_chunk ''true/'' (nl 1),
       open_chunk ''key'' ''EnvironmentVariables'', close_chunk ''key'' (nl 1),
       open_chunk ''dict'' (nl 2),
       open_chunk ''key'' ''PATH'', close_chunk ''key'' [],
       open_chunk ''string'' (esc (service_path exe)), close_chunk ''string'' (nl 1),
       close_chunk ''dict'' (nl 1),
       open_chunk ''key'' ''StandardOutPath'', close_chunk ''key'' [],
       open_chunk ''string'' (esc logPath), close_chunk ''string'' (nl 1),
       open_chunk ''key'' ''StandardErrorPath'', close_chunk ''key'' [],
       open_chunk ''string'' (esc logPath), close_chunk ''string'' (nl 0),
       close_chunk ''dict'' (nl 0), close_chunk ''plist'' (nl 0)])"

lemma servicePlist_chunks: "servicePlist exe logPath = concat (map ((#) CHR ''<'') (plist_chunks exe logPath))"
  unfolding servicePlist_def plist_chunks_def line_def xml_tag_def open_chunk_def close_chunk_def Let_def
  by (simp add: numeral_2_eq_2)

lemma chunks_no_lt: "list_all (\<lambda>x. CHR ''<'' \<notin> set x) (plist_chunks exe logPath)"
  by (simp add: plist_chunks_def open_chunk_def close_chunk_def serviceLabel_def Let_def)

lemma string_chunk: "has_prefix ''string>'' (open_chunk ''string'' s)" "drop 7 (open_chunk ''string'' s) = s"
  by (simp_all add: open_chunk_def has_prefix_def)

lemma string_chunks:
  "filter (has_prefix ''string>'') (plist_chunks exe logPath) =
     map (open_chunk ''string'') [serviceLabel, esc exe, ''serve'', esc (service_path exe), esc logPath, esc logPath]"
proof -
  have no: "\<not> has_prefix ''string>'' (close_chunk t s)" "\<not> has_prefix ''string>'' (CHR ''?'' # s)"
    "\<not> has_prefix ''string>'' (CHR ''!'' # s)" "\<not> has_prefix ''string>'' (CHR ''p'' # s)" for t s
    by (simp_all add: close_chunk_def has_prefix_def)
  have other: "\<not> has_prefix ''string>'' (open_chunk (c # t) s)" if "c \<noteq> CHR ''s''" for c t s
    using that by (simp add: open_chunk_def has_prefix_def)
  show ?thesis by (simp add: plist_chunks_def Let_def no other string_chunk)
qed


section \<open>The service commands\<close>

text \<open>
  What the system answers: the executable and home lookups, the failures of the file calls
  (\<open>sv_stat\<close> and \<open>sv_remove\<close>: one other than \<open>not exists\<close>), and the outcome of each \<open>launchctl\<close>
  verb.  The state is the installed property list and the calls of \<open>launchctl\<close> made so far,
  each with whether the list was on disk.
\<close>

record service_env =
  se_darwin :: bool
  se_uid :: nat
  se_exe :: "string + string"
  se_home :: "string + string"
  se_mkdir :: "string option"
  se_write :: "string option"
  se_stat :: bool
  se_remove :: "string option"
  se_bootout :: "string option"
  se_bootstrap :: "string option"
  se_print :: "string option"

record service =
  sc_plist :: "string option"
  sc_calls :: "(string list \<times> bool) list"

definition servicePaths :: "service_env \<Rightarrow> string + (string \<times> string)" where
  "servicePaths env =
     (case se_home env of
        Inl e \<Rightarrow> Inl (''resolve home: '' @ e)
      | Inr home \<Rightarrow>
          Inr (path_join [home, ''Library'', ''LaunchAgents'', serviceLabel @ ''.plist''],
               path_join [home, ''Library'', ''Logs'', ''simbeamd.log'']))"

definition gui_domain :: "service_env \<Rightarrow> string" where "gui_domain env = ''gui/'' @ dec_digits (se_uid env)"

definition serviceTarget :: "service_env \<Rightarrow> string" where
  "serviceTarget env = gui_domain env @ ''/'' @ serviceLabel"

definition launchctl :: "string list \<Rightarrow> string option \<Rightarrow> service \<Rightarrow> string option \<times> service" where
  "launchctl args out s =
     (map_option (\<lambda>e. ''launchctl '' @ join_with '' '' args @ '': '' @ e) out,
      s\<lparr>sc_calls := sc_calls s @ [(args, sc_plist s \<noteq> None)]\<rparr>)"

definition bootout :: "service_env \<Rightarrow> service \<Rightarrow> string option \<times> service" where
  "bootout env s = launchctl [''bootout'', serviceTarget env] (se_bootout env) s"

definition bootstrap :: "service_env \<Rightarrow> string \<Rightarrow> service \<Rightarrow> string option \<times> service" where
  "bootstrap env plist s = launchctl [''bootstrap'', gui_domain env, plist] (se_bootstrap env) s"

text \<open>A command's result: an error, or the lines it prints.\<close>

definition serviceInstall :: "service_env \<Rightarrow> service \<Rightarrow> (string + string list) \<times> service" where
  "serviceInstall env s =
     (case se_exe env of
        Inl e \<Rightarrow> (Inl (''resolve executable: '' @ e), s)
      | Inr exe \<Rightarrow>
     (case servicePaths env of
        Inl e \<Rightarrow> (Inl e, s)
      | Inr (plist, logPath) \<Rightarrow>
     (case se_mkdir env of
        Some e \<Rightarrow> (Inl e, s)
      | None \<Rightarrow>
     (case se_write env of
        Some e \<Rightarrow> (Inl e, s)
      | None \<Rightarrow>
          (let s = s\<lparr>sc_plist := Some (servicePlist exe logPath)\<rparr>;
               (ignored, s) = bootout env s;
               (err, s) = bootstrap env plist s
           in case err of
                Some e \<Rightarrow> (Inl e, s)
              | None \<Rightarrow>
                  (Inr [''service installed and started ('' @ serviceLabel @ '')'', ''logs: '' @ logPath,
                        ''pair a device any time with: simbeamd pair''], s))))))"

definition not_installed :: "service_env \<Rightarrow> service \<Rightarrow> bool" where
  "not_installed env s \<longleftrightarrow> \<not> se_stat env \<and> sc_plist s = None"

definition serviceStart :: "service_env \<Rightarrow> service \<Rightarrow> (string + string list) \<times> service" where
  "serviceStart env s =
     (case servicePaths env of
        Inl e \<Rightarrow> (Inl e, s)
      | Inr (plist, logPath) \<Rightarrow>
          (if not_installed env s then (Inl ''service not installed (run: simbeamd service install)'', s)
           else
             (let (err, s) = bootstrap env plist s
              in case err of Some e \<Rightarrow> (Inl e, s) | None \<Rightarrow> (Inr [''service started''], s))))"

definition serviceStop :: "service_env \<Rightarrow> service \<Rightarrow> (string + string list) \<times> service" where
  "serviceStop env s =
     (case servicePaths env of
        Inl e \<Rightarrow> (Inl e, s)
      | Inr (plist, logPath) \<Rightarrow>
          (if not_installed env s then (Inl ''service not installed (run: simbeamd service install)'', s)
           else
             (let (err, s) = bootout env s
              in case err of
                   Some e \<Rightarrow> (Inl e, s)
                 | None \<Rightarrow> (Inr [''service stopped (starts again at next login or simbeamd service start)''], s))))"

definition serviceUninstall :: "service_env \<Rightarrow> service \<Rightarrow> (string + string list) \<times> service" where
  "serviceUninstall env s =
     (case servicePaths env of
        Inl e \<Rightarrow> (Inl e, s)
      | Inr (plist, logPath) \<Rightarrow>
          (let (ignored, s) = bootout env s
           in case se_remove env of
                Some e \<Rightarrow> (Inl e, s)
              | None \<Rightarrow> (Inr [''service stopped and removed''], s\<lparr>sc_plist := None\<rparr>)))"

text \<open>The first line of \<open>launchctl print\<close> that names the state.\<close>

fun state_line :: "string list \<Rightarrow> string" where
  "state_line [] = ''unknown''"
| "state_line (l # ls) =
     (let t = trim_space l in
      if has_prefix ''state = '' t then trim_prefix ''state = '' t else state_line ls)"

definition serviceStatus :: "service_env \<Rightarrow> service \<Rightarrow> (string + string list) \<times> service" where
  "serviceStatus env s =
     (case servicePaths env of
        Inl e \<Rightarrow> (Inl e, s)
      | Inr (plist, logPath) \<Rightarrow>
          (if not_installed env s then (Inr [''service not installed''], s)
           else
             (let s = s\<lparr>sc_calls := sc_calls s @ [([''print'', serviceTarget env], sc_plist s \<noteq> None)]\<rparr>
              in case se_print env of
                   None \<Rightarrow> (Inr [''service installed but not loaded (try: simbeamd service install)''], s)
                 | Some out \<Rightarrow>
                     (Inr [''service '' @ serviceLabel @ '': '' @ state_line (split_on CHR 0x0A out), ''logs: '' @ logPath], s))))"

definition runService :: "service_env \<Rightarrow> string list \<Rightarrow> service \<Rightarrow> (string + string list) \<times> service" where
  "runService env argv s =
     (if \<not> se_darwin env then (Inl ''service is macOS-only (launchd)'', s)
      else (case argv of
        [] \<Rightarrow> (Inl ''usage: simbeamd service install|uninstall|start|stop|status'', s)
      | c # rest \<Rightarrow>
          (if c = ''install'' then serviceInstall env s
           else if c = ''uninstall'' then serviceUninstall env s
           else if c = ''start'' then serviceStart env s
           else if c = ''stop'' then serviceStop env s
           else if c = ''status'' then serviceStatus env s
           else (Inl (''unknown service command '' @ c), s))))"

text \<open>The state over a sequence of commands, and what \<open>bootstrap\<close> may have been given.\<close>

definition service_run :: "(service_env \<times> string list) list \<Rightarrow> service \<Rightarrow> service" where
  "service_run cs s = fold (\<lambda>(env, argv) s. snd (runService env argv s)) cs s"

definition loads_installed :: "service \<Rightarrow> bool" where
  "loads_installed s \<longleftrightarrow> list_all (\<lambda>(args, present). hd args \<noteq> ''bootstrap'' \<or> present) (sc_calls s)"

definition plist_of :: "service_env \<times> string list \<Rightarrow> string list" where
  "plist_of c =
     (case (snd c, se_exe (fst c), servicePaths (fst c)) of
        (''install'' # rest, Inr exe, Inr (plist, logPath)) \<Rightarrow> [servicePlist exe logPath]
      | _ \<Rightarrow> [])"

definition written_plists :: "(service_env \<times> string list) list \<Rightarrow> string list" where
  "written_plists cs = concat (map plist_of cs)"

text \<open>What one command does to the list and the calls.\<close>

definition service_ok :: "service_env \<times> string list \<Rightarrow> service \<Rightarrow> service \<Rightarrow> bool" where
  "service_ok c s s' \<longleftrightarrow>
     loads_installed s' \<and> (case sc_plist s' of None \<Rightarrow> True | Some p \<Rightarrow> sc_plist s = Some p \<or> p \<in> set (plist_of c))"

lemma service_ok_refl: "loads_installed s \<Longrightarrow> service_ok c s s"
  by (simp add: service_ok_def split: option.split)

lemma service_ok_kept:
  "loads_installed s' \<Longrightarrow> sc_plist s' = sc_plist s \<or> sc_plist s' = None \<Longrightarrow> service_ok c s s'"
  by (auto simp: service_ok_def split: option.split)

lemma launchctl_effect [simp]:
  "sc_plist (snd (launchctl args out s)) = sc_plist s"
  "loads_installed (snd (launchctl args out s)) \<longleftrightarrow>
     loads_installed s \<and> (hd args \<noteq> ''bootstrap'' \<or> sc_plist s \<noteq> None)"
  by (auto simp: launchctl_def loads_installed_def)

lemma service_ok_stop: "loads_installed s \<Longrightarrow> service_ok c s (snd (serviceStop env s))"
  by (rule service_ok_kept)
    (simp_all add: serviceStop_def bootout_def case_prod_unfold Let_def split: sum.split option.split)

lemma service_ok_uninstall: "loads_installed s \<Longrightarrow> service_ok c s (snd (serviceUninstall env s))"
  by (rule service_ok_kept)
    (simp_all add: serviceUninstall_def bootout_def case_prod_unfold Let_def loads_installed_def launchctl_def
      split: sum.split option.split)

lemma service_ok_status: "loads_installed s \<Longrightarrow> service_ok c s (snd (serviceStatus env s))"
  by (rule service_ok_kept)
    (simp_all add: serviceStatus_def case_prod_unfold Let_def loads_installed_def split: sum.split option.split)

lemma service_ok_start: "loads_installed s \<Longrightarrow> \<not> se_stat env \<Longrightarrow> service_ok c s (snd (serviceStart env s))"
  by (rule service_ok_kept)
    (simp_all add: serviceStart_def not_installed_def bootstrap_def case_prod_unfold Let_def split: sum.split option.split)

lemma service_ok_install:
  assumes "loads_installed s"
  shows "service_ok (env, ''install'' # rest) s (snd (serviceInstall env s))"
proof (cases "serviceInstall env s = (fst (serviceInstall env s), s)")
  case True
  then show ?thesis using service_ok_refl [OF assms] by (metis snd_conv)
next
  case False
  then obtain exe plist logPath where w: "se_exe env = Inr exe" "servicePaths env = Inr (plist, logPath)"
    "se_mkdir env = None" "se_write env = None"
    by (auto simp: serviceInstall_def split: sum.splits option.splits)
  have "loads_installed (s\<lparr>sc_plist := x\<rparr>)" for x using assms by (simp add: loads_installed_def)
  then show ?thesis
    by (simp add: serviceInstall_def w bootout_def bootstrap_def case_prod_unfold Let_def service_ok_def plist_of_def
        split: option.split)
qed

lemma runService_step:
  assumes "loads_installed s" "\<not> se_stat env"
  shows "service_ok (env, argv) s (snd (runService env argv s))"
proof (cases "\<exists>rest. argv = ''install'' # rest")
  case True
  then show ?thesis
    using service_ok_install [OF assms(1)] service_ok_refl [OF assms(1)] by (auto simp: runService_def)
next
  case False
  have mem: "snd (runService env argv s) \<in> {s, snd (serviceUninstall env s), snd (serviceStart env s),
      snd (serviceStop env s), snd (serviceStatus env s)}"
    using False by (cases argv) (simp_all add: runService_def)
  have "\<forall>x \<in> {s, snd (serviceUninstall env s), snd (serviceStart env s),
      snd (serviceStop env s), snd (serviceStatus env s)}. service_ok (env, argv) s x"
    using service_ok_stop [OF assms(1)] service_ok_uninstall [OF assms(1)] service_ok_status [OF assms(1)]
      service_ok_start [OF assms] service_ok_refl [OF assms(1)]
    by simp
  then show ?thesis using mem by (rule bspec)
qed


definition demo_service_env :: service_env where
  "demo_service_env = \<lparr>se_darwin = True, se_uid = 501, se_exe = Inr ''/opt/x'', se_home = Inr ''/Users/u'',
     se_mkdir = None, se_write = None, se_stat = False, se_remove = None, se_bootout = Some ''not loaded'',
     se_bootstrap = None, se_print = None\<rparr>"


section \<open>The update command (update.go)\<close>

definition isBrewPath :: "string \<Rightarrow> bool" where
  "isBrewPath p \<longleftrightarrow> contains ''/Caskroom/'' p \<or> contains ''/Cellar/'' p"

text \<open>\<open>os.Executable\<close> and \<open>filepath.EvalSymlinks\<close> may each fail.\<close>

definition updateHint :: "string + string \<Rightarrow> string + string \<Rightarrow> string" where
  "updateHint exe resolved =
     (case (exe, resolved) of
        (Inr e, Inr r) \<Rightarrow>
          (if isBrewPath r then ''brew upgrade --cask simbeamd && brew upgrade simbeam-control'' else ''simbeamd update'')
      | _ \<Rightarrow> ''simbeamd update'')"

datatype update_result =
    UpdateFailed string
  | DeferredToBrew
  | RanInstaller "string list" "string option"    \<comment> \<open>variables added to the environment; how the script ended\<close>

definition runUpdate ::
  "service_env \<Rightarrow> string list \<Rightarrow> string + string \<Rightarrow> string option \<Rightarrow> service \<Rightarrow> update_result" where
  "runUpdate env argv resolved script s =
     (if argv \<noteq> [] then UpdateFailed ''update takes no arguments''
      else (case se_exe env of
        Inl e \<Rightarrow> UpdateFailed e
      | Inr exe0 \<Rightarrow>
          (let exe = (case resolved of Inl e \<Rightarrow> exe0 | Inr r \<Rightarrow> r) in
           if isBrewPath exe then DeferredToBrew
           else if \<not> se_darwin env then UpdateFailed ''update is for the macOS install''
           else
             RanInstaller
               ([''SIMBEAM_INSTALL_DIR='' @ path_dir exe, ''SIMBEAM_NO_PAIR=1''] @
                (case servicePaths env of
                   Inl e \<Rightarrow> []
                 | Inr p \<Rightarrow> if not_installed env s then [''SIMBEAM_NO_SERVICE=1''] else []))
               script)))"

text \<open>An update never installs a service that was not there, and never opens a pairing window.\<close>

lemma update_is_quiet:
  assumes "runUpdate env [] resolved script s = RanInstaller vars out"
  shows "''SIMBEAM_NO_PAIR=1'' \<in> set vars \<and>
    (se_home env = Inr home \<longrightarrow> not_installed env s \<longrightarrow> ''SIMBEAM_NO_SERVICE=1'' \<in> set vars)"
  using assms
  by (auto simp: runUpdate_def servicePaths_def Let_def split: sum.splits if_splits)

end
