(* ===== verification/Update_Check.thy ===== *)
theory Update_Check
  imports Go_Strings "HOL-Library.Product_Lexorder"
begin

text \<open>
  \<open>internal/updatecheck/updatecheck.go\<close>: the daily look for a newer release.  The release
  service's answer, the clock and the fate of the cache file's reads and writes are
  arguments; what is modelled is when a request is made, what is remembered and when the
  user is told.
\<close>

section \<open>Versions\<close>

text \<open>The three numbers \<open>parseVersion\<close> returns, ordered from the most significant one.\<close>

datatype version = Version (major: int) (minor: int) (patch: int)

definition version_key :: "version \<Rightarrow> int \<times> int \<times> int" where
  "version_key v = (major v, minor v, patch v)"

lemma version_key_simp [simp]: "version_key (Version a b c) = (a, b, c)"
  by (simp add: version_key_def)

lemma version_key_inject: "version_key v = version_key w \<longleftrightarrow> v = w"
  by (cases v; cases w) simp

instantiation version :: linorder
begin

definition less_eq_version :: "version \<Rightarrow> version \<Rightarrow> bool" where
  "v \<le> w \<longleftrightarrow> version_key v \<le> version_key w"

definition less_version :: "version \<Rightarrow> version \<Rightarrow> bool" where
  "v < w \<longleftrightarrow> version_key v < version_key w"

instance
  by intro_classes (auto simp only: less_eq_version_def less_version_def version_key_inject [symmetric])

end

text \<open>\<open>parseVersion\<close>: up to three numbers, the missing ones 0.\<close>

fun version_numbers :: "string list \<Rightarrow> int list option" where
  "version_numbers [] = Some []"
| "version_numbers (p # ps) =
     (case atoi p of
        None \<Rightarrow> None
      | Some n \<Rightarrow> if n < 0 then None else map_option ((#) n) (version_numbers ps))"

definition parseVersion :: "string \<Rightarrow> version option" where
  "parseVersion s =
     (let s = trim_prefix ''v'' (trim_space s);
          parts = split_on CHR ''.'' (cut_any ''-+'' s)
      in if 3 < length parts then None
         else map_option
                (\<lambda>ns. let v = ns @ replicate (3 - length ns) 0 in Version (v ! 0) (v ! 1) (v ! 2))
                (version_numbers parts))"

definition newer :: "string \<Rightarrow> string \<Rightarrow> bool" where
  "newer a b =
     (case (parseVersion a, parseVersion b) of
        (Some (Version a0 a1 a2), Some (Version b0 b1 b2)) \<Rightarrow>
          (if a0 \<noteq> b0 then a0 > b0 else if a1 \<noteq> b1 then a1 > b1 else if a2 \<noteq> b2 then a2 > b2 else False)
      | _ \<Rightarrow> False)"

section \<open>The checker\<close>

record Checker =
  ck_Current :: string
  ck_CachePath :: string
  ck_TTL :: duration

record cache =
  CheckedAt :: gotime
  Latest :: string

definition checker_ttl :: "Checker \<Rightarrow> duration" where
  "checker_ttl c = (if ck_TTL c > 0 then ck_TTL c else 24 * hour)"

text \<open>
  The answer of the release service: a failed exchange, or a status with the tag of the
  decoded body.
\<close>

datatype release_reply = ReleaseFailed string | ReleaseReply nat string "string option"

definition fetch :: "release_reply \<Rightarrow> string + string" where
  "fetch resp =
     (case resp of
        ReleaseFailed e \<Rightarrow> Inl e
      | ReleaseReply status reason tag \<Rightarrow>
          (if status \<noteq> 200 then Inl (''github: '' @ reason)
           else (case tag of
                   None \<Rightarrow> Inl ''decode''
                 | Some t \<Rightarrow> if t = [] then Inl ''github: empty tag_name'' else Inr t)))"

text \<open>The cache file: \<open>None\<close> when it is missing, unreadable or not the expected JSON.\<close>

definition readCache :: "Checker \<Rightarrow> cache option \<Rightarrow> cache option" where
  "readCache c disk = (if ck_CachePath c = [] then None else disk)"

definition writeCache :: "Checker \<Rightarrow> bool \<Rightarrow> cache \<Rightarrow> cache option \<Rightarrow> cache option" where
  "writeCache c writable v disk = (if ck_CachePath c = [] \<or> \<not> writable then disk else Some v)"

text \<open>
  What one wake-up meets: the clock before and after the exchange, the service's answer and
  whether the cache can be written.
\<close>

record wakeup =
  wk_now :: gotime
  wk_later :: gotime
  wk_reply :: release_reply
  wk_writable :: bool

text \<open>\<open>check\<close>, with whether it asked the service.\<close>

definition check :: "Checker \<Rightarrow> wakeup \<Rightarrow> cache option \<Rightarrow> string \<times> bool \<times> cache option" where
  "check c w disk =
     (let cached = readCache c disk; known = (case cached of None \<Rightarrow> [] | Some v \<Rightarrow> Latest v) in
      if cached \<noteq> None \<and> wk_now w - CheckedAt (the cached) < checker_ttl c then (known, False, disk)
      else (case fetch (wk_reply w) of
              Inl e \<Rightarrow> (known, True, disk)
            | Inr latest \<Rightarrow>
                (latest, True,
                 writeCache c (wk_writable w) \<lparr>CheckedAt = wk_later w, Latest = latest\<rparr> disk)))"

text \<open>
  \<open>Run\<close>: one iteration of the loop, and the iterations of a life of the process until it is
  cancelled, with the versions passed to \<open>notify\<close>.
\<close>

record run_state =
  rs_file :: "cache option"
  rs_notified :: string
  rs_told :: "string list"
  rs_requests :: "gotime list"

definition run_iteration :: "Checker \<Rightarrow> wakeup \<Rightarrow> run_state \<Rightarrow> run_state" where
  "run_iteration c w s =
     (let (latest, asked, disk) = check c w (rs_file s);
          s = s\<lparr>rs_file := disk, rs_requests := rs_requests s @ (if asked then [wk_now w] else [])\<rparr>
      in if latest \<noteq> [] \<and> latest \<noteq> rs_notified s \<and> newer latest (ck_Current c)
         then s\<lparr>rs_notified := latest, rs_told := rs_told s @ [trim_prefix ''v'' latest]\<rparr>
         else s)"

definition run_loop :: "Checker \<Rightarrow> wakeup list \<Rightarrow> cache option \<Rightarrow> run_state" where
  "run_loop c ws disk =
     fold (run_iteration c) ws \<lparr>rs_file = disk, rs_notified = [], rs_told = [], rs_requests = []\<rparr>"

section \<open>The order of versions\<close>

lemma newer_lex:
  "newer a b =
     (case (parseVersion a, parseVersion b) of (Some v, Some w) \<Rightarrow> w < v | _ \<Rightarrow> False)"
  by (auto simp: newer_def less_version_def less_prod_simp split: option.split version.split)

text \<open>
  \<open>newer\<close> is a strict order that no odd tag enters.  No version is newer than itself, two
  are never newer than each other, the relation is transitive, two versions neither of which
  is newer are the same three numbers, and whatever does not parse is neither newer nor older
  than anything.
\<close>

theorem newer_strict_order:
  "\<not> newer a a \<and> (newer a b \<longrightarrow> \<not> newer b a) \<and> (newer a b \<and> newer b c \<longrightarrow> newer a c) \<and>
   (parseVersion a \<noteq> None \<and> parseVersion b \<noteq> None \<and> \<not> newer a b \<and> \<not> newer b a \<longrightarrow>
      parseVersion a = parseVersion b) \<and>
   (parseVersion a = None \<longrightarrow> \<not> newer a b \<and> \<not> newer b a)"
  unfolding newer_lex
  by (cases "parseVersion a"; cases "parseVersion b"; cases "parseVersion c") auto

theorem newer_strict_order_witness:
  "newer ''v0.11.0'' ''0.10.1'' \<and> \<not> newer ''0.10.1'' ''v0.11.0''"
proof -
  have "newer ''v0.11.0'' ''0.10.1''"
    by (simp add: newer_def parseVersion_def trim_space_def space_units_def trim_left_units.simps leading_space_def
        trim_prefix_def has_prefix_def cut_any_def atoi_def read_unsigned_def digit_value_def in_int64_def
        max_int64_def min_int64_def)
  then show ?thesis using newer_strict_order [of "''v0.11.0''" "''0.10.1''" "''0''"] by blast
qed

lemma run_loop_snoc: "run_loop c (ws @ [w]) disk = run_iteration c w (run_loop c ws disk)"
  by (simp add: run_loop_def)

definition told_ok :: "Checker \<Rightarrow> string list \<Rightarrow> bool" where
  "told_ok c tags \<longleftrightarrow> list_all (\<lambda>t. t \<noteq> [] \<and> newer t (ck_Current c)) tags \<and> distinct_adj tags"

lemma run_loop_tags:
  "\<exists>tags. rs_told (run_loop c ws disk) = map (trim_prefix ''v'') tags \<and> told_ok c tags \<and>
     rs_notified (run_loop c ws disk) = (if tags = [] then [] else last tags)"
proof (induction ws rule: rev_induct)
  case Nil
  show ?case by (intro exI [of _ "[]"]) (simp add: run_loop_def told_ok_def)
next
  case (snoc w ws)
  let ?s = "run_loop c ws disk"
  from snoc obtain tags where tags: "rs_told ?s = map (trim_prefix ''v'') tags" "told_ok c tags"
    "rs_notified ?s = (if tags = [] then [] else last tags)" by blast
  obtain latest asked f where ch: "check c w (rs_file ?s) = (latest, asked, f)" by (metis prod_cases3)
  show ?case
  proof (cases "latest \<noteq> [] \<and> latest \<noteq> rs_notified ?s \<and> newer latest (ck_Current c)")
    case True
    then show ?thesis
      using tags ch unfolding run_loop_snoc
      by (intro exI [of _ "tags @ [latest]"])
        (cases "tags = []"; auto simp: run_iteration_def told_ok_def distinct_adj_append_iff Let_def)
  next
    case False
    then show ?thesis
      using tags ch unfolding run_loop_snoc
      by (intro exI [of _ tags]) (cases "tags = []"; auto simp: run_iteration_def Let_def)
  qed
qed

text \<open>
  The user is told of newer releases only.  In any life of the process, whatever the
  service answers and the cache holds, the versions announced are tags newer than the running
  version without their \<open>v\<close>, no announcement repeats the one just before it, and the service
  is asked only when the cached answer is missing or at least a TTL old.
\<close>

theorem only_newer_announced:
  "(\<exists>tags. rs_told (run_loop c ws disk) = map (trim_prefix ''v'') tags \<and> told_ok c tags) \<and>
   (fst (snd (check c w f)) \<longleftrightarrow>
      (case readCache c f of None \<Rightarrow> True | Some v \<Rightarrow> checker_ttl c \<le> wk_now w - CheckedAt v))"
  using run_loop_tags [where c = c and ws = ws and disk = disk]
  by (auto simp: check_def Let_def split: option.split sum.split)

text \<open>A failure leaves what is known and what is cached as they were.\<close>

lemma failure_is_silent:
  assumes "fetch (wk_reply w) = Inl e"
  shows "check c w f = (case readCache c f of None \<Rightarrow> [] | Some v \<Rightarrow> Latest v,
                        fst (snd (check c w f)), f)"
  using assms by (auto simp: check_def Let_def split: option.split)

text \<open>
  The comment on \<open>Run\<close> promises at most one announcement per distinct newer version; the loop
  only compares with the last one.  When the latest release goes back and forth, as after a
  release is withdrawn and published again, the same version is announced twice.
\<close>

definition back_and_forth :: "wakeup list" where
  "back_and_forth =
     map (\<lambda>(t, tag). \<lparr>wk_now = t, wk_later = t, wk_reply = ReleaseReply 200 ''OK'' (Some tag), wk_writable = True\<rparr>)
       [(0, ''v2''), (100, ''v3''), (200, ''v2'')]"

lemma single_digit_versions:
  "parseVersion ''1'' = Some (Version 1 0 0)" "parseVersion ''v2'' = Some (Version 2 0 0)" "parseVersion ''v3'' = Some (Version 3 0 0)"
  by (simp_all add: parseVersion_def trim_space_def space_units_def trim_left_units.simps leading_space_def
        trim_prefix_def has_prefix_def cut_any_def atoi_def read_unsigned_def digit_value_def in_int64_def
        max_int64_def min_int64_def numeral_2_eq_2 numeral_3_eq_3)

theorem announced_twice:
  "rs_told (run_loop \<lparr>ck_Current = ''1'', ck_CachePath = ''c'', ck_TTL = 50\<rparr> back_and_forth None) =
     [''2'', ''3'', ''2'']"
  by (simp add: run_loop_def back_and_forth_def run_iteration_def check_def readCache_def writeCache_def fetch_def
      checker_ttl_def newer_def single_digit_versions trim_prefix_def has_prefix_def)

end
