(* ===== verification/Companion.thy ===== *)
theory Companion
  imports Go_Strings "HOL-Library.List_Lexorder" "HOL-Library.Product_Lexorder"
    "HOL-Library.Char_ord" "HOL-Library.Multiset"
begin

text \<open>
  \<open>internal/companion/companion.go\<close>: the simulator list and lifecycle through
  \<open>xcrun simctl\<close>.  The command itself is outside the repository; a run of it is its
  standard output, standard error and exit error (\<open>None\<close> on success).  Device lists arrive
  as the decoded JSON, the runtimes in whatever order Go iterates the map.
\<close>

record Simulator =
  sim_udid :: string
  sim_name :: string
  sim_model :: string
  sim_osVersion :: string
  sim_state :: string
  sim_architecture :: string
  sim_type :: string

record simctlDevice =
  dev_udid :: string
  dev_name :: string
  dev_state :: string
  dev_isAvailable :: bool
  dev_typeIdentifier :: string

definition ascii_lower :: "char \<Rightarrow> char" where
  "ascii_lower c = (let n = of_char c :: nat in if 65 \<le> n \<and> n \<le> 90 then char_of (n + 32) else c)"

definition Booted :: "Simulator \<Rightarrow> bool" where
  "Booted s \<longleftrightarrow> map ascii_lower (sim_state s) = ''booted''"

definition runtime_prefix :: string where
  "runtime_prefix = ''com.apple.CoreSimulator.SimRuntime.''"

definition device_prefix :: string where
  "device_prefix = ''com.apple.CoreSimulator.SimDeviceType.''"

definition osVersionFromRuntime :: "string \<Rightarrow> string" where
  "osVersionFromRuntime runtime =
     (let ident = trim_prefix runtime_prefix runtime;
          parts = split_on CHR ''-'' ident
      in if length parts \<le> 1 then ident else join_with ''.'' (drop 1 parts))"

definition modelFromDeviceType :: "string \<Rightarrow> string" where
  "modelFromDeviceType ident = replace_char CHR ''-'' '' '' (trim_prefix device_prefix ident)"

definition simulator_of :: "string \<Rightarrow> simctlDevice \<Rightarrow> Simulator" where
  "simulator_of osVersion d =
     \<lparr>sim_udid = dev_udid d, sim_name = dev_name d, sim_model = modelFromDeviceType (dev_typeIdentifier d),
      sim_osVersion = osVersion, sim_state = dev_state d, sim_architecture = [],
      sim_type = ''Simulator''\<rparr>"

definition sim_key :: "Simulator \<Rightarrow> string \<times> string \<times> string" where
  "sim_key s = (sim_name s, sim_osVersion s, sim_udid s)"

definition collect_devices :: "(string \<times> simctlDevice list) list \<Rightarrow> Simulator list" where
  "collect_devices devices =
     concat (map (\<lambda>(runtime, ds).
       map (simulator_of (osVersionFromRuntime runtime))
         (filter (\<lambda>d. dev_udid d \<noteq> [] \<and> dev_isAvailable d) ds)) devices)"

definition parseSimctlDevices :: "(string \<times> simctlDevice list) list option \<Rightarrow> Simulator list option" where
  "parseSimctlDevices out =
     (case out of None \<Rightarrow> None | Some devices \<Rightarrow> Some (sort_key sim_key (collect_devices devices)))"

section \<open>Running simctl\<close>

record cmd_result =
  cmd_stdout :: string
  cmd_stderr :: string
  cmd_err :: "string option"

definition failure_text :: "string \<Rightarrow> string \<Rightarrow> string \<Rightarrow> string" where
  "failure_text what err stderr =
     (let msg = trim_space stderr in
      if msg \<noteq> [] then what @ '': '' @ err @ '': '' @ msg else what @ '': '' @ err)"

definition simctl_Boot :: "string \<Rightarrow> cmd_result \<Rightarrow> string option" where
  "simctl_Boot udid r =
     (case cmd_err r of
        None \<Rightarrow> None
      | Some e \<Rightarrow>
          if contains ''current state: Booted'' (cmd_stderr r) then None
          else Some (failure_text (''simctl boot '' @ udid) e (cmd_stderr r)))"

definition simctl_Shutdown :: "string \<Rightarrow> cmd_result \<Rightarrow> string option" where
  "simctl_Shutdown udid r =
     (case cmd_err r of
        None \<Rightarrow> None
      | Some e \<Rightarrow>
          if contains ''current state: Shutdown'' (cmd_stderr r) then None
          else Some (failure_text (''simctl shutdown '' @ udid) e (cmd_stderr r)))"

definition runSimctl :: "string list \<Rightarrow> cmd_result \<Rightarrow> string + string" where
  "runSimctl args r =
     (case cmd_err r of
        None \<Rightarrow> Inr (cmd_stdout r)
      | Some e \<Rightarrow> Inl (failure_text (''simctl '' @ join_with '' '' args) e (cmd_stderr r)))"

definition shake_args :: "string \<Rightarrow> string list" where
  "shake_args udid = [''spawn'', udid, ''notifyutil'', ''-p'', ''com.apple.UIKit.SimulatorShake'']"

definition simctl_Shake :: "string \<Rightarrow> cmd_result \<Rightarrow> string option" where
  "simctl_Shake udid r = (case runSimctl (shake_args udid) r of Inl e \<Rightarrow> Some e | Inr _ \<Rightarrow> None)"

text \<open>
  \<open>Screenshot\<close>: the temporary file, the capture, the read back; an empty file is an error.
\<close>

definition simctl_Screenshot ::
  "string \<Rightarrow> string option \<Rightarrow> string \<Rightarrow> cmd_result \<Rightarrow> string + string \<Rightarrow> string + string" where
  "simctl_Screenshot udid tmp_err path r readback =
     (case tmp_err of
        Some e \<Rightarrow> Inl (''screenshot temp file: '' @ e)
      | None \<Rightarrow>
          (case runSimctl [''io'', udid, ''screenshot'', ''--type=png'', path] r of
             Inl e \<Rightarrow> Inl e
           | Inr _ \<Rightarrow>
               (case readback of
                  Inl e \<Rightarrow> Inl (''screenshot read: '' @ e)
                | Inr data \<Rightarrow>
                    (if data = [] then Inl (''screenshot '' @ udid @ '': empty capture'') else Inr data))))"

section \<open>Lemmas and properties\<close>

lemma sort_mset_cong: "mset xs = mset ys \<Longrightarrow> sort xs = sort ys"
  by (metis mset_sort properties_for_sort sorted_sort)

lemma map_sort_key: "map f (sort_key f xs) = sort (map f xs)"
  by (rule properties_for_sort [symmetric]) simp_all

lemma sort_key_mset_cong:
  assumes "mset xs = mset ys" and "inj_on f (set xs)"
  shows "sort_key f xs = sort_key f ys"
proof -
  have "mset (map f xs) = mset (map f ys)" using assms(1) by simp
  then have "map f (sort_key f xs) = map f (sort_key f ys)"
    by (simp add: map_sort_key sort_mset_cong)
  moreover have "set xs = set ys" using assms(1) by (rule mset_eq_setD)
  ultimately show ?thesis
    using assms(2) by (intro map_inj_on [where f = f]) auto
qed

lemma mset_concat_map: "mset (concat (map g xs)) = \<Sum>\<^sub># (image_mset (\<lambda>x. mset (g x)) (mset xs))"
  by (induction xs) auto

lemma mset_collect_cong:
  "mset devices = mset devices' \<Longrightarrow> mset (collect_devices devices) = mset (collect_devices devices')"
  by (simp add: collect_devices_def mset_concat_map)

lemma set_collect_devices:
  "s \<in> set (collect_devices devices) \<longleftrightarrow>
     (\<exists>runtime ds d. (runtime, ds) \<in> set devices \<and> d \<in> set ds \<and>
        dev_udid d \<noteq> [] \<and> dev_isAvailable d \<and> s = simulator_of (osVersionFromRuntime runtime) d)"
  by (simp add: collect_devices_def Bex_def image_iff) blast

text \<open>
  The simulator list is stable between calls.  Whatever order Go iterates the runtime
  map in, the parsed list is the same, as long as no two listed simulators share name,
  version and UDID; it is sorted by that key and holds exactly the available devices that
  have a UDID.
\<close>

theorem device_list_deterministic:
  assumes "mset devices = mset devices'" and "inj_on sim_key (set (collect_devices devices))"
  shows "parseSimctlDevices (Some devices) = parseSimctlDevices (Some devices')
    \<and> sorted (map sim_key (the (parseSimctlDevices (Some devices))))
    \<and> (\<forall>s. s \<in> set (the (parseSimctlDevices (Some devices))) \<longleftrightarrow>
         (\<exists>runtime ds d. (runtime, ds) \<in> set devices \<and> d \<in> set ds \<and>
            dev_udid d \<noteq> [] \<and> dev_isAvailable d \<and>
            s = simulator_of (osVersionFromRuntime runtime) d))"
proof (intro conjI)
  show "parseSimctlDevices (Some devices) = parseSimctlDevices (Some devices')"
    using sort_key_mset_cong [OF mset_collect_cong [OF assms(1)] assms(2)]
    by (simp add: parseSimctlDevices_def)
  show "sorted (map sim_key (the (parseSimctlDevices (Some devices))))"
    by (simp add: parseSimctlDevices_def)
  show "\<forall>s. s \<in> set (the (parseSimctlDevices (Some devices))) \<longleftrightarrow>
         (\<exists>runtime ds d. (runtime, ds) \<in> set devices \<and> d \<in> set ds \<and>
            dev_udid d \<noteq> [] \<and> dev_isAvailable d \<and>
            s = simulator_of (osVersionFromRuntime runtime) d)"
    by (simp add: parseSimctlDevices_def set_collect_devices)
qed

definition sample_device :: "string \<Rightarrow> string \<Rightarrow> simctlDevice" where
  "sample_device u n =
     \<lparr>dev_udid = u, dev_name = n, dev_state = ''Shutdown'', dev_isAvailable = True,
      dev_typeIdentifier = device_prefix @ ''iPhone-17-Pro''\<rparr>"

theorem device_list_deterministic_witness:
  "parseSimctlDevices (Some [(runtime_prefix @ ''iOS-26-4'', [sample_device ''B'' ''b'']),
                             (runtime_prefix @ ''iOS-18-0'', [sample_device ''A'' ''a''])])
   = parseSimctlDevices (Some [(runtime_prefix @ ''iOS-18-0'', [sample_device ''A'' ''a'']),
                               (runtime_prefix @ ''iOS-26-4'', [sample_device ''B'' ''b''])])"
proof -
  let ?x = "(runtime_prefix @ ''iOS-26-4'', [sample_device ''B'' ''b''])"
  let ?y = "(runtime_prefix @ ''iOS-18-0'', [sample_device ''A'' ''a''])"
  have "mset [?x, ?y] = mset [?y, ?x]" by simp
  moreover have "inj_on sim_key (set (collect_devices [?x, ?y]))"
    by (simp add: collect_devices_def sample_device_def simulator_of_def sim_key_def)
  ultimately show ?thesis using device_list_deterministic [of "[?x, ?y]" "[?y, ?x]"] by blast
qed

text \<open>The version is what follows the platform token, dashes read as dots.\<close>

lemma osVersionFromRuntime_parts:
  assumes "CHR ''-'' \<notin> set platform"
  shows "osVersionFromRuntime (runtime_prefix @ platform @ ''-'' @ v) =
     join_with ''.'' (split_on CHR ''-'' v)"
proof -
  have "split_on CHR ''-'' (platform @ ''-'' @ v) = platform # split_on CHR ''-'' v"
    using split_on_append [OF assms, of v] by simp
  then show ?thesis
    by (simp add: osVersionFromRuntime_def trim_prefix_def Let_def)
qed

end
