(* ===== verification/Daemon_Main.thy ===== *)
theory Daemon_Main
  imports Demo_Mode Service Update_Check Companion "HOL-Library.Word"
begin

unbundle bit_operations_syntax

text \<open>
  \<open>internal/server/server.go\<close> and the rest of \<open>cmd/simbeamd/main.go\<close>: the server's settings and
  what a hello carries of them, the order of \<open>serve\<close>'s start-up, revoking a client from
  another process, the terminal state handed back, and the exit code of the command line.
\<close>

section \<open>The server's settings (server.go)\<close>

record Server =
  sr_webDir :: string
  sr_hostName :: string
  sr_osVersion :: string
  sr_version :: string
  sr_caps :: "string list"
  sr_verbose :: bool
  sr_latest :: "string option"

definition new_Server :: "string \<Rightarrow> Server" where
  "new_Server webDir =
     \<lparr>sr_webDir = webDir, sr_hostName = [], sr_osVersion = [], sr_version = [], sr_caps = [],
      sr_verbose = False, sr_latest = None\<rparr>"

definition WithHost :: "string \<Rightarrow> string \<Rightarrow> Server \<Rightarrow> Server" where
  "WithHost name osVersion s = s\<lparr>sr_hostName := name, sr_osVersion := osVersion\<rparr>"

definition WithVerbose :: "bool \<Rightarrow> Server \<Rightarrow> Server" where "WithVerbose v s = s\<lparr>sr_verbose := v\<rparr>"

definition WithDaemonInfo :: "string \<Rightarrow> string list \<Rightarrow> Server \<Rightarrow> Server" where
  "WithDaemonInfo version caps s = s\<lparr>sr_version := version, sr_caps := caps\<rparr>"

definition SetLatestVersion :: "string \<Rightarrow> Server \<Rightarrow> Server" where
  "SetLatestVersion v s = s\<lparr>sr_latest := Some v\<rparr>"

definition latestVersion :: "Server \<Rightarrow> string" where
  "latestVersion s = (case sr_latest s of None \<Rightarrow> [] | Some v \<Rightarrow> v)"

text \<open>What \<open>sendHello\<close> reads of the server at that moment.\<close>

definition hello_info :: "Server \<Rightarrow> host_info" where
  "hello_info s =
     \<lparr>hi_hostName = sr_hostName s, hi_osVersion = sr_osVersion s, hi_version = sr_version s,
      hi_caps = sr_caps s, hi_latest = latestVersion s\<rparr>"

definition CapTouch :: string where "CapTouch = ''touch''"
definition CapAppSwitcher :: string where "CapAppSwitcher = ''app_switcher''"
definition CapLifecycle :: string where "CapLifecycle = ''lifecycle''"
definition CapTrickle :: string where "CapTrickle = ''trickle''"

text \<open>\<open>macHostInfo\<close>: each command's output, or nothing if it failed.\<close>

definition macHostInfo :: "string option \<Rightarrow> string option \<Rightarrow> string \<times> string" where
  "macHostInfo scutil sw_vers =
     (let run = (\<lambda>out. case out of None \<Rightarrow> [] | Some s \<Rightarrow> trim_space s) in (run scutil, run sw_vers))"

text \<open>\<open>Handler\<close>: the file of \<open>--web\<close> a request is answered from, if any.\<close>

definition server_Handler :: "string \<Rightarrow> Server \<Rightarrow> string option" where
  "server_Handler path s = (if sr_webDir s = [] then None else Some (path_join [sr_webDir s, path]))"

section \<open>Starting \<open>serve\<close> and \<open>demo\<close>\<close>

definition defaultStatePath :: "string + string \<Rightarrow> string \<Rightarrow> string" where
  "defaultStatePath home name =
     (case home of
        Inl e \<Rightarrow> path_join [''.simbeam'', name]
      | Inr h \<Rightarrow> if h = [] then path_join [''.simbeam'', name] else path_join [h, ''.simbeam'', name])"

record serve_flags =
  sf_addr :: string
  sf_webDir :: string
  sf_signalURL :: string
  sf_verbose :: bool
  sf_noUpdateCheck :: bool

text \<open>The preflight checks in their order, and what is then run.\<close>

datatype serve_start =
    ServeFailed string
  | ServeRemote Server bool        \<comment> \<open>with or without the update check\<close>
  | ServeLocal Server bool

definition runServe ::
  "serve_flags \<Rightarrow> string \<Rightarrow> string option \<Rightarrow> string + string \<Rightarrow> string option \<Rightarrow> string option \<Rightarrow> string option
     \<Rightarrow> serve_start" where
  "runServe fl version toolchain control protocol scutil sw_vers =
     (case toolchain of
        Some e \<Rightarrow> ServeFailed e
      | None \<Rightarrow>
     (case control of
        Inl e \<Rightarrow> ServeFailed e
      | Inr path \<Rightarrow>
     (case protocol of
        Some e \<Rightarrow> ServeFailed e
      | None \<Rightarrow>
          (let (name, os) = macHostInfo scutil sw_vers;
               srv = WithVerbose (sf_verbose fl)
                       (WithDaemonInfo version [CapTouch, CapAppSwitcher, CapLifecycle, CapTrickle]
                         (WithHost name os (new_Server (sf_webDir fl))));
               chk = (\<not> sf_noUpdateCheck fl \<and> version \<noteq> ''dev'')
           in if sf_signalURL fl \<noteq> [] then ServeRemote srv chk else ServeLocal srv chk))))"

definition demo_Server :: "string \<Rightarrow> string \<Rightarrow> bool \<Rightarrow> string \<Rightarrow> Server" where
  "demo_Server name version verbose webDir =
     WithVerbose verbose (WithDaemonInfo version [CapLifecycle, CapTrickle] (WithHost name ''demo'' (new_Server webDir)))"

text \<open>
  The update check's callback: what it prints, and the version every later hello carries.
  The whole life of a checker applied to the server.
\<close>

definition update_notify :: "string \<Rightarrow> string list \<times> Server \<Rightarrow> string list \<times> Server" where
  "update_notify latest p = (fst p @ [latest], SetLatestVersion latest (snd p))"

definition with_update_check :: "Checker \<Rightarrow> wakeup list \<Rightarrow> cache option \<Rightarrow> Server \<Rightarrow> Server" where
  "with_update_check c ws disk s = snd (fold update_notify (rs_told (run_loop c ws disk)) ([], s))"

lemma fold_notify:
  "snd (fold update_notify ls ([], s)) = (if ls = [] then s else SetLatestVersion (last ls) s)"
proof -
  have "snd (fold update_notify ls (os, s)) = (if ls = [] then s else SetLatestVersion (last ls) s)" for os
    by (induction ls arbitrary: os s) (simp_all add: update_notify_def SetLatestVersion_def)
  then show ?thesis .
qed

text \<open>
  A hello names a newer release or none.  Whatever the update check has seen since the
  daemon started, the latest version its hellos carry is empty or the bare form of a release
  tag that is newer than the running version, and nothing else of the hello changes.
\<close>

theorem hello_names_newer_release:
  assumes "sr_latest s = None"
  shows "(latestVersion (with_update_check c ws disk s) = [] \<or>
      (\<exists>tag. latestVersion (with_update_check c ws disk s) = trim_prefix ''v'' tag \<and> newer tag (ck_Current c))) \<and>
    hello_info (with_update_check c ws disk s) =
      (hello_info s)\<lparr>hi_latest := latestVersion (with_update_check c ws disk s)\<rparr>"
proof -
  obtain tags where tags: "rs_told (run_loop c ws disk) = map (trim_prefix ''v'') tags" "told_ok c tags"
    using run_loop_tags [of c ws disk] by blast
  show ?thesis
  proof (cases "tags = []")
    case True
    then show ?thesis
      using tags assms by (simp add: with_update_check_def fold_notify latestVersion_def hello_info_def)
  next
    case False
    then have "last tags \<in> set tags" by simp
    then have "newer (last tags) (ck_Current c)" using tags(2) by (simp add: told_ok_def list_all_iff)
    then show ?thesis
      using False tags(1)
      by (auto simp: with_update_check_def fold_notify latestVersion_def hello_info_def SetLatestVersion_def last_map)
  qed
qed

theorem hello_names_newer_release_witness:
  "newer ''v3'' ''1'' \<and>
   hi_latest (hello_info (with_update_check \<lparr>ck_Current = ''1'', ck_CachePath = ''c'', ck_TTL = 50\<rparr> [] None
     (WithHost ''mac'' ''26'' (new_Server [])))) = []"
proof -
  let ?s = "WithHost ''mac'' ''26'' (new_Server [])"
  let ?c = "\<lparr>ck_Current = ''1'', ck_CachePath = ''c'', ck_TTL = 50\<rparr>"
  have "sr_latest ?s = None" by (simp add: WithHost_def new_Server_def)
  from hello_names_newer_release [OF this, of ?c "[]" None]
  have "hello_info (with_update_check ?c [] None ?s) = (hello_info ?s)\<lparr>hi_latest := latestVersion (with_update_check ?c [] None ?s)\<rparr>"
    by blast
  moreover have "with_update_check ?c [] None ?s = ?s" by (simp add: with_update_check_def run_loop_def)
  ultimately show ?thesis
    by (simp add: newer_def single_digit_versions latestVersion_def WithHost_def new_Server_def hello_info_def)
qed

section \<open>Revoking a client (\<open>unpair\<close>)\<close>

text \<open>
  \<open>runUnpair\<close> is another process on the same directory: it loads the store, removes the key
  and saves.  The running daemon's own set is untouched.
\<close>

definition runUnpair :: "string list \<Rightarrow> save_call option \<Rightarrow> pin_disk \<Rightarrow> (string + string) \<times> pin_disk" where
  "runUnpair args fault disk =
     (case args of
        [k] \<Rightarrow>
          (case LoadPinnedStore disk of
             None \<Rightarrow> (Inl ''load'', disk)
           | Some ps \<Rightarrow>
               (let (ok, ps) = pinned_Remove fault k ps
                in (if ok then Inr (''revoked '' @ k) else Inl ''save'', ps_disk ps)))
      | _ \<Rightarrow> (Inl ''usage: simbeamd unpair [--clients path] <clientPubKey>'', disk))"

definition unpair_beside :: "string \<Rightarrow> daemon \<Rightarrow> daemon" where
  "unpair_beside k d = d\<lparr>r_pinned := (r_pinned d)\<lparr>ps_disk := snd (runUnpair [k] None (ps_disk (r_pinned d)))\<rparr>\<rparr>"

lemma unpair_removes:
  assumes "runUnpair [k] fault disk = (Inr m, disk')"
  shows "\<exists>t. LoadPinnedStore disk' = Some t \<and> \<not> pinned_Contains k t"
proof -
  from assms obtain ps where ps: "LoadPinnedStore disk = Some ps" "fst (pinned_Remove fault k ps)"
    "disk' = ps_disk (snd (pinned_Remove fault k ps))"
    by (auto simp: runUnpair_def case_prod_unfold Let_def split: option.splits if_splits)
  show ?thesis
    using pin.remove_survives_restart [OF pinned_wf_Load [OF ps(1)], of fault k] ps(2,3) by auto
qed

text \<open>
  A daemon that differs only in what is on disk.  Every step of the daemon preserves the
  likeness: the store is consulted in memory and saved from memory.
\<close>

definition on_file :: "pin_disk \<Rightarrow> daemon \<Rightarrow> daemon" where
  "on_file x d = d\<lparr>r_pinned := (r_pinned d)\<lparr>ps_disk := x\<rparr>\<rparr>"

lemma on_file_fields [simp]:
  "r_authPub (on_file x d) = r_authPub d" "r_authNonce (on_file x d) = r_authNonce d"
  "r_enrolling (on_file x d) = r_enrolling d" "r_authed (on_file x d) = r_authed d"
  "r_win (on_file x d) = r_win d" "r_objs (on_file x d) = r_objs d"
  "r_sess (on_file x d) = r_sess d" "r_trickle (on_file x d) = r_trickle d"
  "r_earlyCands (on_file x d) = r_earlyCands d" "r_iceServers (on_file x d) = r_iceServers d"
  "r_enrolled (on_file x d) = r_enrolled d" "r_sent (on_file x d) = r_sent d"
  "pinned_Contains k (r_pinned (on_file x d)) = pinned_Contains k (r_pinned d)"
  by (simp_all add: on_file_def pinned_Contains_def)

lemma on_file_send: "send m (on_file x d) = on_file x (send m d)"
  by (simp add: send_def on_file_def)

lemma on_file_live_update: "live_update i f (on_file x d) = on_file x (live_update i f d)"
  by (simp add: live_update_def on_file_def)

lemma on_file_cleanup: "cleanup (on_file x d) = on_file x (cleanup d)"
  by (simp add: cleanup_def on_file_def live_update_def split: option.splits)

lemma on_file_update:
  "(on_file x d)\<lparr>r_win := w\<rparr> = on_file x (d\<lparr>r_win := w\<rparr>)"
  "(on_file x d)\<lparr>r_authed := b\<rparr> = on_file x (d\<lparr>r_authed := b\<rparr>)"
  "(on_file x d)\<lparr>r_earlyCands := cs\<rparr> = on_file x (d\<lparr>r_earlyCands := cs\<rparr>)"
  "(on_file x d)\<lparr>r_iceServers := ss, r_trickle := b\<rparr> = on_file x (d\<lparr>r_iceServers := ss, r_trickle := b\<rparr>)"
  "(on_file x d)\<lparr>r_authPub := p, r_authNonce := n, r_enrolling := e, r_authed := b\<rparr> =
     on_file x (d\<lparr>r_authPub := p, r_authNonce := n, r_enrolling := e, r_authed := b\<rparr>)"
  "(on_file x d)\<lparr>r_objs := os, r_sess := i, r_earlyCands := cs\<rparr> =
     on_file x (d\<lparr>r_objs := os, r_sess := i, r_earlyCands := cs\<rparr>)"
  by (simp_all add: on_file_def)

lemmas on_file_moves = on_file_send on_file_live_update on_file_cleanup on_file_update

lemma on_file_connect: "on_connect C env m (on_file x d) = on_file x (on_connect C env m d)"
proof -
  let ?v = "window_verify C (m_pubkey m) (m_nonce m) (m_pair m) (sv_now env) (r_win (cleanup d))"
  show ?thesis
    by (cases "pinned_Contains (m_pubkey m) (r_pinned (cleanup d))"; cases "fst ?v"; cases "sv_random env")
      (simp_all add: on_connect_def Let_def on_file_moves case_prod_unfold)
qed

lemma on_file_adds:
  "(on_file x d)\<lparr>r_pinned := ps\<lparr>ps_disk := y\<rparr>\<rparr> = on_file y (d\<lparr>r_pinned := ps\<rparr>)"
  "send msg ((on_file y (d\<lparr>r_pinned := ps\<rparr>))) = on_file y (send msg (d\<lparr>r_pinned := ps\<rparr>))"
  "cleanup (on_file y d) = on_file y (cleanup d)"
  "(on_file y d)\<lparr>r_enrolled := l, r_authed := b\<rparr> = on_file y (d\<lparr>r_enrolled := l, r_authed := b\<rparr>)"
  "(on_file x d)\<lparr>r_pinned := ps\<lparr>ps_disk := y\<rparr>, r_enrolled := l, r_authed := b\<rparr> =
     on_file y (d\<lparr>r_pinned := ps, r_enrolled := l, r_authed := b\<rparr>)"
  by (simp_all add: on_file_def send_def cleanup_def live_update_def split: option.split)

lemma on_file_proof: "\<exists>y. on_proof C env m (on_file x d) = on_file y (on_proof C env m d)"
proof -
  let ?a = "pinned_Add (sv_save env) (r_authPub d) []"
  have set: "ps_set (snd (?a (r_pinned (on_file x d)))) = ps_set (snd (?a (r_pinned d)))"
    "fst (?a (r_pinned (on_file x d))) = fst (?a (r_pinned d))"
    by (simp_all add: pinned_Add_def on_file_def pinned_save_ok_iff)
  then obtain y where y: "snd (?a (r_pinned (on_file x d))) = (snd (?a (r_pinned d)))\<lparr>ps_disk := y\<rparr>"
    by (metis PinnedStore.surjective PinnedStore.update_convs(2) old.unit.exhaust)
  consider (bad) "r_authPub d = [] \<or> \<not> Verify C (r_authPub d) (r_authNonce d) (m_sig m)"
    | (enrol) "\<not> (r_authPub d = [] \<or> \<not> Verify C (r_authPub d) (r_authNonce d) (m_sig m))" "r_enrolling d"
    | (known) "\<not> (r_authPub d = [] \<or> \<not> Verify C (r_authPub d) (r_authNonce d) (m_sig m))" "\<not> r_enrolling d"
    by blast
  then show ?thesis
  proof cases
    case bad
    then show ?thesis by (auto simp: on_proof_def on_file_moves)
  next
    case enrol
    then have "on_proof C env m (on_file x d) = on_file y (on_proof C env m d)"
      using set(2) y
      by (simp add: on_proof_def Let_def case_prod_unfold on_file_adds)
    then show ?thesis ..
  next
    case known
    then have "on_proof C env m (on_file x d) = on_file x (on_proof C env m d)"
      by (simp add: on_proof_def on_file_moves)
    then show ?thesis ..
  qed
qed

text \<open>The session an offer builds, apart from the daemon it is built in.\<close>

definition built :: "serve_env \<Rightarrow> signal_msg \<Rightarrow> ice_server list \<Rightarrow> string \<Rightarrow> bool \<Rightarrow> ice_candidate_init list \<Rightarrow> (string + string) \<times> live" where
  "built env m ice key trickle early =
     (let l = startSession ice key;
          s = session_OnClose (ls_sess l);
          s = (if trickle then session_OnCandidate s else s);
          a = session_Answer (sv_pc env) (m_sdp m) (fold session_AddCandidate early s)
      in (fst a, l\<lparr>ls_sess := snd a\<rparr>))"

lemma on_offer_built:
  assumes "r_authed d" and "sv_start env = None"
    and "built env m (r_iceServers d) (r_authPub d) (r_trickle d) (r_earlyCands d) = (ans, l)"
    and "d' = d\<lparr>r_objs := r_objs d @ [l], r_sess := Some (length (r_objs d)), r_earlyCands := []\<rparr>"
  shows "on_offer C priv env m d =
     (case ans of Inl e \<Rightarrow> cleanup (send (error_msg [] e) d') | Inr sdp \<Rightarrow> send (signedAnswer C priv sdp) d')"
  using assms(1,2) assms(3) [symmetric] unfolding assms(4)
  by (cases "r_trickle d") (auto simp: on_offer_def built_def Let_def case_prod_unfold)

lemma on_file_offer: "on_offer C priv env m (on_file x d) = on_file x (on_offer C priv env m d)"
proof (cases "r_authed d \<and> sv_start env = None")
  case False
  then show ?thesis by (cases "sv_start env") (auto simp: on_offer_def on_file_moves)
next
  case True
  obtain ans l where b: "built env m (r_iceServers d) (r_authPub d) (r_trickle d) (r_earlyCands d) = (ans, l)"
    by fastforce
  let ?d = "d\<lparr>r_objs := r_objs d @ [l], r_sess := Some (length (r_objs d)), r_earlyCands := []\<rparr>"
  have "on_file x ?d = (on_file x d)\<lparr>r_objs := r_objs (on_file x d) @ [l],
      r_sess := Some (length (r_objs (on_file x d))), r_earlyCands := []\<rparr>"
    by (simp only: on_file_moves on_file_fields)
  with True b have "on_offer C priv env m (on_file x d) =
      (case ans of Inl e \<Rightarrow> cleanup (send (error_msg [] e) (on_file x ?d)) | Inr sdp \<Rightarrow> send (signedAnswer C priv sdp) (on_file x ?d))"
    by (intro on_offer_built) simp_all
  then show ?thesis
    using on_offer_built [OF _ _ b refl, of C priv] True by (cases ans) (simp_all add: on_file_moves)
qed

lemma on_file_candidate: "on_candidate m (on_file x d) = on_file x (on_candidate m d)"
  by (cases "r_sess d") (simp_all add: on_candidate_def on_file_moves)

lemma on_file_serve: "\<exists>y. serve_msg C priv env m (on_file x d) = on_file y (serve_msg C priv env m d)"
proof (cases "m_type m = TypeProof")
  case True
  then show ?thesis
    using on_file_proof [of C env m x d] by (simp add: serve_msg_def TypeProof_def TypeConnect_def TypeICEServers_def)
next
  case False
  then have "serve_msg C priv env m (on_file x d) = on_file x (serve_msg C priv env m d)"
    by (simp add: serve_msg_def on_file_connect on_file_offer on_file_candidate on_file_moves on_iceServers_def)
  then show ?thesis ..
qed

lemma on_file_step: "\<exists>y. daemon_step C me e (on_file x d) = on_file y (daemon_step C me e d)"
proof (cases e)
  case (Recv env m)
  then show ?thesis using on_file_serve by simp
qed (auto simp: local_candidate_def peer_died_def reconnect_def on_file_moves)

lemma on_file_run: "\<exists>y. daemon_run C me es (on_file x d) = on_file y (daemon_run C me es d)"
proof (induction es rule: rev_induct)
  case Nil
  show ?case by (auto simp: daemon_run_def)
next
  case (snoc e es)
  then obtain y where "daemon_run C me es (on_file x d) = on_file y (daemon_run C me es d)" by blast
  then show ?case using on_file_step [of C me e y "daemon_run C me es d"] by (simp add: daemon_run_snoc)
qed

text \<open>
  C39: A running daemon does not notice a revocation.  Whatever happens afterwards, a daemon
  beside which \<open>unpair k\<close> ran sends the broker exactly the messages, builds exactly the sessions
  and admits exactly the clients it would have without it, until it is restarted.
\<close>

theorem unpair_unnoticed:
  "r_sent (daemon_run C me es (unpair_beside k d)) = r_sent (daemon_run C me es d) \<and>
   r_objs (daemon_run C me es (unpair_beside k d)) = r_objs (daemon_run C me es d) \<and>
   r_authed (daemon_run C me es (unpair_beside k d)) = r_authed (daemon_run C me es d)"
proof -
  have "unpair_beside k d = on_file (snd (runUnpair [k] None (ps_disk (r_pinned d)))) d"
    by (simp add: unpair_beside_def on_file_def)
  then show ?thesis using on_file_run by (metis on_file_fields)
qed

text \<open>
  The next enrolment undoes a revocation.  If \<open>unpair k\<close> runs beside a daemon that holds
  \<open>k\<close>, the next client the daemon pins is saved together with \<open>k\<close>, so that even a restart
  then admits the revoked key.
\<close>

theorem unpair_undone_by_next_pairing:
  assumes "pinned_wf (r_pinned d)" and "pinned_Contains k (r_pinned d)"
  shows "\<exists>t. LoadPinnedStore (ps_disk (snd (pinned_Add None k' name (r_pinned (unpair_beside k d))))) = Some t \<and>
             pinned_Contains k t"
proof -
  let ?ps = "r_pinned (unpair_beside k d)"
  have wf: "pinned_wf ?ps" and has: "pinned_Contains k ?ps"
    using assms by (simp_all add: unpair_beside_def pinned_wf_def pinned_Contains_def)
  have ok: "fst (pinned_Add None k' name ?ps)" by (simp add: pinned_Add_def pinned_save_ok_iff)
  show ?thesis using pin.add_durable [OF wf ok] has by auto
qed

theorem unpair_undone_by_next_pairing_witness:
  "\<exists>d. pinned_Contains ''phone'' (r_pinned d) \<and>
     (\<exists>m disk'. runUnpair [''phone''] None (ps_disk (r_pinned d)) = (Inr m, disk')) \<and>
     (\<exists>t. LoadPinnedStore (ps_disk (snd (pinned_Add None ''tablet'' [] (r_pinned (unpair_beside ''phone'' d))))) = Some t \<and>
          pinned_Contains ''phone'' t)"
proof -
  let ?ps = "snd (pinned_Add None ''phone'' [] empty_pins)"
  let ?d = "new_daemon ?ps NewPairingWindow"
  have "pinned_wf (r_pinned ?d)" "pinned_Contains ''phone'' (r_pinned ?d)"
    by (simp_all add: new_daemon_def inv_intros)
  moreover from this have "\<exists>m disk'. runUnpair [''phone''] None (ps_disk (r_pinned ?d)) = (Inr m, disk')"
    by (simp add: runUnpair_def new_daemon_def pinned_Add_def pinned_save_def save_chain_outcome empty_pins_def
        LoadPinnedStore_def pinned_Remove_def pin_put_def)
  ultimately show ?thesis using unpair_undone_by_next_pairing [of ?d "''phone''" "''tablet''" "[]"] by blast
qed

section \<open>The terminal handed back\<close>

text \<open>The flag bits are the platform's (\<open>golang.org/x/sys/unix\<close>), as parameters.\<close>

record termios =
  Iflag :: "64 word"
  Oflag :: "64 word"
  Cflag :: "64 word"
  Lflag :: "64 word"

record tty_bits =
  OPOST :: "64 word"
  ONLCR :: "64 word"
  ICANON :: "64 word"
  ECHO :: "64 word"
  ISIG :: "64 word"
  IEXTEN :: "64 word"
  ICRNL :: "64 word"

definition saneRestoreTermios :: "tty_bits \<Rightarrow> termios \<Rightarrow> termios" where
  "saneRestoreTermios u t =
     t\<lparr>Oflag := Oflag t OR (OPOST u OR ONLCR u),
       Lflag := Lflag t OR (ICANON u OR ECHO u OR ISIG u OR IEXTEN u),
       Iflag := Iflag t OR ICRNL u\<rparr>"

text \<open>
  The terminal is usable whatever was inherited: each flag is set, and no other bit changes.
\<close>

lemma sane_bits:
  "bit (Oflag (saneRestoreTermios u t)) n \<longleftrightarrow> bit (Oflag t) n \<or> bit (OPOST u) n \<or> bit (ONLCR u) n"
  "bit (Lflag (saneRestoreTermios u t)) n \<longleftrightarrow>
     bit (Lflag t) n \<or> bit (ICANON u) n \<or> bit (ECHO u) n \<or> bit (ISIG u) n \<or> bit (IEXTEN u) n"
  "bit (Iflag (saneRestoreTermios u t)) n \<longleftrightarrow> bit (Iflag t) n \<or> bit (ICRNL u) n"
  "Cflag (saneRestoreTermios u t) = Cflag t"
  by (auto simp: saneRestoreTermios_def bit_or_iff)

lemma sane_idem: "saneRestoreTermios u (saneRestoreTermios u t) = saneRestoreTermios u t"
  by (simp add: saneRestoreTermios_def or.assoc or.left_commute or.commute)

text \<open>
  \<open>runRemote\<close> takes the terminal into raw mode and routes the logger through the CRLF writer;
  \<open>restore\<close>, deferred and run by the signal watcher too, undoes both once.  \<open>got\<close> is the
  state read, if standard input is a terminal and reading it worked; \<open>raw\<close> whether making it
  raw worked.
\<close>

record tty =
  ty_termios :: termios
  ty_crlfLog :: bool
  ty_sane :: "termios option"     \<comment> \<open>what \<open>restore\<close> will set, once\<close>

definition take_tty :: "tty_bits \<Rightarrow> termios option \<Rightarrow> termios option \<Rightarrow> tty \<Rightarrow> tty" where
  "take_tty u got raw t =
     (case got of
        None \<Rightarrow> t
      | Some before \<Rightarrow>
          (case raw of
             None \<Rightarrow> t
           | Some r \<Rightarrow> \<lparr>ty_termios = r, ty_crlfLog = True, ty_sane = Some (saneRestoreTermios u before)\<rparr>))"

definition restore_tty :: "tty \<Rightarrow> tty" where
  "restore_tty t =
     (case ty_sane t of
        None \<Rightarrow> t
      | Some s \<Rightarrow> \<lparr>ty_termios = s, ty_crlfLog = False, ty_sane = None\<rparr>)"

lemma restore_tty_once: "restore_tty (restore_tty t) = restore_tty t"
  by (simp add: restore_tty_def split: option.split)

text \<open>However often and by whomever it is restored, the shell gets a cooked terminal.\<close>

lemma tty_handed_back:
  assumes "got = Some before" "raw = Some r"
  shows "(restore_tty ^^ Suc n) (take_tty u got raw t) =
     \<lparr>ty_termios = saneRestoreTermios u before, ty_crlfLog = False, ty_sane = None\<rparr>"
  using assms by (induction n) (simp_all add: take_tty_def restore_tty_def)

text \<open>\<open>runRemote\<close>'s own start: the identity, the pinned store, the listener of \<open>--web\<close>.\<close>

definition start_remote ::
  "string + Identity \<Rightarrow> string + PinnedStore \<Rightarrow> string \<Rightarrow> string \<Rightarrow> string option \<Rightarrow> string + controlServer
     \<Rightarrow> string + (Identity \<times> console)" where
  "start_remote identity pinned webDir addr listenErr ctrl =
     (case identity of
        Inl e \<Rightarrow> Inl (''identity: '' @ e)
      | Inr me \<Rightarrow>
          (case pinned of
             Inl e \<Rightarrow> Inl (''pinned store: '' @ e)
           | Inr ps \<Rightarrow>
               (case local_http webDir addr listenErr of
                  Some e \<Rightarrow> Inl e
                | None \<Rightarrow> Inr (me, new_console ps (case ctrl of Inl e \<Rightarrow> None | Inr c \<Rightarrow> Some c)))))"

definition remote_banner :: "string \<Rightarrow> string \<Rightarrow> string list" where
  "remote_banner signalURL pubKey =
     [''simbeamd remote mode'' @ em_dash @ ''broker: '' @ signalURL, ''daemonID: '' @ pubKey,
      ''Press P to pair a new device, C to cancel an open window, Q to quit.'']"

section \<open>The command line\<close>

text \<open>\<open>runList\<close>: an error, or the rows handed to the table writer and their number.\<close>

datatype list_out = NoSimulators | SimulatorTable "string list list" nat

definition runList :: "string option \<Rightarrow> string + Simulator list \<Rightarrow> string + list_out" where
  "runList toolchain listed =
     (case toolchain of
        Some e \<Rightarrow> Inl e
      | None \<Rightarrow>
          (case listed of
             Inl e \<Rightarrow> Inl e
           | Inr sims \<Rightarrow>
               Inr (if sims = [] then NoSimulators
                    else SimulatorTable
                      ([''STATE'', ''NAME'', ''OS'', ''UDID''] #
                        map (\<lambda>s. [sim_state s, sim_name s, sim_osVersion s, sim_udid s]) sims)
                      (length sims))))"

definition usage_text :: "string list" where
  "usage_text =
     [''simbeamd'' @ em_dash @ ''simbeam daemon'',
      [],
      ''Usage:'',
      ''  simbeamd list    List available iOS simulators via xcrun simctl'',
      ''  simbeamd serve   Serve REST API + WebSocket stream (flags: --addr, --web, --signal, --client-url, --identity, --clients, --pair-ttl)'',
      ''  simbeamd demo    Serve a headless-browser demo device instead of a simulator (flags: --signal, --url, --chrome, --pair-secret, ...)'',
      ''  simbeamd unpair  Revoke a paired client: simbeamd unpair <clientPubKey>'',
      ''  simbeamd pair    Pair a new device with the running daemon (QR in the terminal)'',
      ''  simbeamd update  Update simbeamd + simbeam-control to the latest release'',
      ''  simbeamd service Run serve as a background launchd agent: simbeamd service install|uninstall|start|stop|status'',
      ''  simbeamd version Print the version'',
      ''  simbeamd help    Show this help'']"

text \<open>
  \<open>main\<close>: the command's error, if it has one, as an exit code.  \<open>run\<close> stands for the
  commands' functions.
\<close>

definition commands :: "string list" where
  "commands = [''list'', ''serve'', ''demo'', ''unpair'', ''service'', ''pair'', ''update'']"

datatype main_out = Ran string | PrintedVersion | Usage "string list" | UnknownCommand string "string list"

definition main_exit :: "(string \<Rightarrow> string list \<Rightarrow> string option) \<Rightarrow> string list \<Rightarrow> main_out \<times> nat" where
  "main_exit run args =
     (case args of
        [] \<Rightarrow> (Usage usage_text, 2)
      | a # argv \<Rightarrow>
          (if a \<in> set commands then
             (case run a (if a = ''list'' then [] else argv) of
                None \<Rightarrow> (Ran [], 0) | Some e \<Rightarrow> (Ran (''error: '' @ e), 1))
           else if a = ''version'' \<or> a = ''--version'' \<or> a = ''-v'' then (PrintedVersion, 0)
           else if a = ''-h'' \<or> a = ''--help'' \<or> a = ''help'' then (Usage usage_text, 0)
           else (UnknownCommand a usage_text, 2)))"

lemma main_exit_zero_iff:
  "snd (main_exit run args) = 0 \<longleftrightarrow>
     (\<exists>a argv. args = a # argv \<and>
        (a \<in> set [''version'', ''--version'', ''-v'', ''-h'', ''--help'', ''help''] \<or>
         a \<in> set commands \<and> run a (if a = ''list'' then [] else argv) = None))"
  by (cases args) (auto simp: main_exit_def commands_def split: option.splits)

end
