(* ===== verification/Turn.thy ===== *)
theory Turn
  imports Signal
begin

text \<open>
  \<open>internal/signalbroker/cfturn.go\<close>: the relay credential shared by every entitled client.
  The HTTP exchange with the credential service is outside the repository; its outcome is an
  argument (\<open>turn_response\<close>), as are the two readings of the clock, before and after it.
  \<open>tf_fetched\<close> and \<open>tf_requests\<close> are history: when the cached credential arrived, and when
  requests were made.
\<close>

section \<open>Relay URLs\<close>

definition usable_url :: "string \<Rightarrow> bool" where
  "usable_url u \<longleftrightarrow> \<not> (contains '':53?'' u \<or> has_suffix '':53'' u)"

definition usableRelayURLs :: "string list \<Rightarrow> string list" where
  "usableRelayURLs us = filter usable_url us"

definition CloudflareTURNEndpoint :: "string \<Rightarrow> string" where
  "CloudflareTURNEndpoint keyID =
     ''https://rtc.live.cloudflare.com/v1/turn/keys/'' @ keyID @ ''/credentials/generate-ice-servers''"

section \<open>The fetcher\<close>

record turnFetcher =
  tf_ttl :: duration
  tf_cached :: ice_server
  tf_refresh :: gotime
  tf_fetched :: gotime
  tf_requests :: "gotime list"

definition no_server :: ice_server where
  "no_server = \<lparr>urls = [], username = [], credential = []\<rparr>"

definition new_turnFetcher :: "duration \<Rightarrow> turnFetcher" where
  "new_turnFetcher ttl =
     \<lparr>tf_ttl = ttl, tf_cached = no_server, tf_refresh = 0, tf_fetched = 0, tf_requests = []\<rparr>"

datatype turn_response =
    TransportFailed string
  | HttpReply nat string "ice_server list option"  \<comment> \<open>status, its text, the decoded body\<close>

definition relay_entry :: "ice_server list \<Rightarrow> ice_server option" where
  "relay_entry ss = find (\<lambda>s. credential s \<noteq> []) ss"

definition turn_get ::
  "gotime \<Rightarrow> gotime \<Rightarrow> turn_response \<Rightarrow> turnFetcher \<Rightarrow> (string + ice_server) \<times> turnFetcher" where
  "turn_get now now' resp f =
     (if now < tf_refresh f then (Inr (tf_cached f), f)
      else
        (let f = f\<lparr>tf_requests := tf_requests f @ [now]\<rparr> in
         case resp of
           TransportFailed e \<Rightarrow> (Inl e, f)
         | HttpReply status reason body \<Rightarrow>
             (if status div 100 \<noteq> 2 then (Inl (''cloudflare turn: '' @ reason), f)
              else
                (case body of
                   None \<Rightarrow> (Inl ''decode'', f)
                 | Some ss \<Rightarrow>
                     (case relay_entry ss of
                        None \<Rightarrow> (Inl ''cloudflare turn: no relay entry in response'', f)
                      | Some s \<Rightarrow>
                          (let s = s\<lparr>urls := usableRelayURLs (urls s)\<rparr>
                           in (Inr s, f\<lparr>tf_cached := s, tf_refresh := now' + tf_ttl f div 2,
                                       tf_fetched := now'\<rparr>)))))))"

section \<open>Lemmas\<close>

definition relay_ok :: "ice_server \<Rightarrow> bool" where
  "relay_ok s \<longleftrightarrow> credential s \<noteq> [] \<and> (\<forall>u \<in> set (urls s). usable_url u)"

definition turn_inv :: "turnFetcher \<Rightarrow> bool" where
  "turn_inv f \<longleftrightarrow>
     (tf_refresh f = 0 \<or> relay_ok (tf_cached f) \<and> tf_refresh f = tf_fetched f + tf_ttl f div 2)"

lemma turn_inv_new: "turn_inv (new_turnFetcher ttl)"
  by (simp add: turn_inv_def new_turnFetcher_def)

lemma relay_entry_Some: "relay_entry ss = Some s \<Longrightarrow> credential s \<noteq> [] \<and> s \<in> set ss"
  by (auto simp: relay_entry_def find_Some_iff)

lemma turn_get_cases:
  obtains (cached) "now < tf_refresh f" "turn_get now now' resp f = (Inr (tf_cached f), f)"
  | (failed) e where "\<not> now < tf_refresh f"
      "turn_get now now' resp f = (Inl e, f\<lparr>tf_requests := tf_requests f @ [now]\<rparr>)"
  | (fetched) s where "\<not> now < tf_refresh f" "relay_ok s"
      "turn_get now now' resp f =
         (Inr s, f\<lparr>tf_requests := tf_requests f @ [now], tf_cached := s,
                   tf_refresh := now' + tf_ttl f div 2, tf_fetched := now'\<rparr>)"
proof (cases "now < tf_refresh f")
  case True
  then show thesis by (intro cached) (simp_all add: turn_get_def)
next
  case False
  have ok: "relay_ok (s\<lparr>urls := usableRelayURLs (urls s)\<rparr>)" if "relay_entry ss = Some s" for s ss
    using relay_entry_Some [OF that] by (simp add: relay_ok_def usableRelayURLs_def)
  show thesis
  proof (cases resp)
    case (TransportFailed e)
    with False show thesis by (intro failed) (simp_all add: turn_get_def)
  next
    case (HttpReply status reason body)
    show thesis
    proof (cases "status div 100 = 2 \<and> body \<noteq> None \<and> relay_entry (the body) \<noteq> None")
      case True
      then obtain ss s where "body = Some ss" "relay_entry ss = Some s" by auto
      with True False HttpReply ok show thesis
        by (intro fetched [of "s\<lparr>urls := usableRelayURLs (urls s)\<rparr>"]) (simp_all add: turn_get_def Let_def)
    next
      case fails: False
      have "\<exists>e. turn_get now now' resp f = (Inl e, f\<lparr>tf_requests := tf_requests f @ [now]\<rparr>)"
        using False fails HttpReply by (auto simp: turn_get_def Let_def split: option.split)
      then show thesis using False failed by blast
    qed
  qed
qed

lemma turn_inv_get: "turn_inv f \<Longrightarrow> turn_inv (snd (turn_get now now' resp f))"
  by (cases rule: turn_get_cases [of now f now' resp]) (auto simp: turn_inv_def)

text \<open>A sequence of calls: the clock readings and the response of each.\<close>

fun turn_run :: "(gotime \<times> gotime \<times> turn_response) list \<Rightarrow> turnFetcher \<Rightarrow> turnFetcher" where
  "turn_run [] f = f"
| "turn_run ((now, now', resp) # cs) f = turn_run cs (snd (turn_get now now' resp f))"

lemma turn_run_inv: "turn_inv f \<Longrightarrow> turn_inv (turn_run cs f)"
  by (induction cs arbitrary: f) (auto simp: turn_inv_get)

lemma turn_get_ttl [simp]: "tf_ttl (snd (turn_get now now' resp f)) = tf_ttl f"
  by (cases rule: turn_get_cases [of now f now' resp]) simp_all

lemma turn_run_ttl [simp]: "tf_ttl (turn_run cs f) = tf_ttl f"
  by (induction cs arbitrary: f) auto

text \<open>
  C35: every relay entry handed out is usable and has at least half its life left.  After any
  sequence of calls, whatever the service answered, a successful call returns an entry with
  credentials and without a port-53 URL, which either was fetched in this call or arrived
  less than half the lifetime ago.
\<close>

theorem turn_relay_fresh:
  assumes "turn_get now now' resp (turn_run cs (new_turnFetcher ttl)) = (Inr s, f')" and "0 < now"
  shows "relay_ok s \<and> tf_cached f' = s \<and>
     (tf_fetched f' = now' \<or> now - tf_fetched f' < ttl div 2)"
proof -
  let ?f = "turn_run cs (new_turnFetcher ttl)"
  have inv: "turn_inv ?f" by (intro turn_run_inv turn_inv_new)
  have ttl: "tf_ttl ?f = ttl" by (simp add: new_turnFetcher_def)
  show ?thesis
    using assms inv ttl
    by (cases rule: turn_get_cases [of now ?f now' resp]) (auto simp: turn_inv_def)
qed

definition demo_relay :: ice_server where
  "demo_relay = \<lparr>urls = [''turn:x:53'', ''turns:x:443''], username = ''u'', credential = ''c''\<rparr>"

theorem turn_relay_fresh_witness:
  "\<exists>s f'. turn_get 5 6 (HttpReply 201 ''201'' (Some [no_server, demo_relay])) (new_turnFetcher 100) = (Inr s, f')
     \<and> relay_ok s \<and> tf_fetched f' = 6"
proof -
  have "turn_get 5 6 (HttpReply 201 ''201'' (Some [no_server, demo_relay])) (turn_run [] (new_turnFetcher 100)) =
      (Inr (demo_relay\<lparr>urls := usableRelayURLs (urls demo_relay)\<rparr>),
       (new_turnFetcher 100)\<lparr>tf_requests := [5],
          tf_cached := demo_relay\<lparr>urls := usableRelayURLs (urls demo_relay)\<rparr>,
          tf_refresh := 56, tf_fetched := 6\<rparr>)"
    by (simp add: turn_get_def new_turnFetcher_def relay_entry_def no_server_def demo_relay_def Let_def)
  from turn_relay_fresh [OF this] this show ?thesis by simp
qed

text \<open>
  One fetch serves everyone: as long as the service answers, two requests to it are at least
  half a lifetime apart.
\<close>

lemma turn_no_request_while_fresh:
  "now < tf_refresh f \<Longrightarrow> tf_requests (snd (turn_get now now' resp f)) = tf_requests f"
  by (simp add: turn_get_def)

end
