(* ===== verification/Broker.thy ===== *)
theory Broker
  imports Turn "HOL-Library.AList" "HOL-Library.Multiset"
begin

text \<open>
  The signalling broker: \<open>internal/signalbroker/broker.go\<close>, \<open>presence.go\<close>, \<open>stats.go\<close>.  Every
  websocket connection has a goroutine; a connection and the \<open>daemonConn\<close> or \<open>clientConn\<close> it
  carries share one number.  \<open>b_pc\<close> says where each goroutine is: one definition below is what
  it does between two points where others may run, that is one critical section of \<open>b.mu\<close> or
  \<open>d.mu\<close>, or one write to a socket.  \<open>broker_step\<close> is any goroutine taking its next step;
  the peers' messages, read errors and the environment are arbitrary.  \<open>b_out\<close> is everything
  written, in order, with the connection it was written to.
\<close>

section \<open>State\<close>

record config =
  cf_STUNURLs :: "string list"
  cf_TURNOpen :: bool
  cf_hasStore :: bool

record daemonConn =
  dc_id :: string
  dc_trickle :: bool
  dc_client :: "nat option"

record clientConn =
  cc_pubKey :: string
  cc_bNonce :: string
  cc_trickle :: bool
  cc_daemon :: nat

record counters =
  n_joins :: nat
  n_pairings :: nat
  n_proofsOK :: nat
  n_proofsBad :: nat
  n_turnGranted :: nat
  n_offline :: nat
  n_busy :: nat
  n_takeovers :: nat

datatype pc =
    Fresh
  | Accepted
  | DNotify string bool
  | DSend string bool "nat list"
  | DRead
  | DRelay nat signal_msg
  | DLeft
  | DBye nat
  | CJoin nat signal_msg
  | CEvict nat "nat option" signal_msg
  | CConnect nat signal_msg
  | CRead
  | CHandle signal_msg
  | CIce "ice_server list" bool signal_msg
  | CProof signal_msg
  | CLeave
  | CBye nat
  | WRead
  | Finished

record broker =
  b_daemons :: "(string \<times> nat) list"
  b_dconn :: "nat \<Rightarrow> daemonConn option"
  b_cconn :: "nat \<Rightarrow> clientConn option"
  b_watchers :: "(nat \<times> string list) list"
  b_pc :: "nat \<Rightarrow> pc"
  b_closed :: "nat list"
  b_out :: "(nat \<times> signal_msg) list"
  b_turn :: "turnFetcher option"
  b_n :: counters

definition no_counts :: counters where
  "no_counts =
     \<lparr>n_joins = 0, n_pairings = 0, n_proofsOK = 0, n_proofsBad = 0, n_turnGranted = 0, n_offline = 0,
      n_busy = 0, n_takeovers = 0\<rparr>"

definition new_broker :: "turnFetcher option \<Rightarrow> broker" where
  "new_broker turn =
     \<lparr>b_daemons = [], b_dconn = Map.empty, b_cconn = Map.empty, b_watchers = [], b_pc = (\<lambda>_. Fresh),
      b_closed = [], b_out = [], b_turn = turn, b_n = no_counts\<rparr>"

record broker_env =
  bv_now :: gotime
  bv_later :: gotime
  bv_random :: "string option"
  bv_active :: "string \<Rightarrow> string + bool"   \<comment> \<open>\<open>Store.Active\<close> for a key, now\<close>
  bv_turn :: turn_response

section \<open>Messages and bookkeeping\<close>

definition put :: "nat \<Rightarrow> signal_msg \<Rightarrow> broker \<Rightarrow> broker" where
  "put c m b = b\<lparr>b_out := b_out b @ [(c, m)]\<rparr>"

definition goto :: "nat \<Rightarrow> pc \<Rightarrow> broker \<Rightarrow> broker" where
  "goto c p b = b\<lparr>b_pc := (b_pc b)(c := p)\<rparr>"

definition tick :: "(counters \<Rightarrow> counters) \<Rightarrow> broker \<Rightarrow> broker" where
  "tick f b = b\<lparr>b_n := f (b_n b)\<rparr>"

definition set_client :: "nat \<Rightarrow> nat option \<Rightarrow> broker \<Rightarrow> broker" where
  "set_client d cl b =
     b\<lparr>b_dconn := (b_dconn b)(d := map_option (\<lambda>dc. dc\<lparr>dc_client := cl\<rparr>) (b_dconn b d))\<rparr>"

definition current :: "nat \<Rightarrow> broker \<Rightarrow> nat option" where
  "current d b = (case b_dconn b d of None \<Rightarrow> None | Some dc \<Rightarrow> dc_client dc)"

definition errMsg :: "string \<Rightarrow> signal_msg" where "errMsg text = error_msg [] text"

definition connectMsg :: "signal_msg \<Rightarrow> signal_msg" where
  "connectMsg join =
     (msg_of_type TypeConnect)\<lparr>m_pubkey := m_pubkey join, m_nonce := m_nonce join, m_pair := m_pair join\<rparr>"

definition challengeMsg :: "string \<Rightarrow> string \<Rightarrow> signal_msg" where
  "challengeMsg nonce bNonce = (msg_of_type TypeChallenge)\<lparr>m_nonce := nonce, m_brokerNonce := bNonce\<rparr>"

definition iceMsg :: "ice_server list \<Rightarrow> bool \<Rightarrow> signal_msg" where
  "iceMsg ice tr = (msg_of_type TypeICEServers)\<lparr>m_iceServers := ice, m_trickle := tr\<rparr>"

definition proofMsg :: "string \<Rightarrow> signal_msg" where
  "proofMsg sig = (msg_of_type TypeProof)\<lparr>m_sig := sig\<rparr>"

definition peerLeftMsg :: signal_msg where "peerLeftMsg = msg_of_type TypePeerLeft"

definition presenceMsg :: "(string \<rightharpoonup> bool) \<Rightarrow> signal_msg" where
  "presenceMsg states = (msg_of_type TypePresence)\<lparr>m_states := states\<rparr>"

definition busyMsg :: signal_msg where
  "busyMsg = error_msg CodeBusy
     (''another client is connected to this Mac'' @ em_dash @ ''disconnect it first'')"

definition takenOverMsg :: signal_msg where
  "takenOverMsg = error_msg CodeTakenOver ''another device took over this Mac''"

definition offlineMsg :: signal_msg where
  "offlineMsg = error_msg CodeOffline (''device offline'' @ em_dash @ ''wake your Mac'')"

section \<open>ICE servers and the relay gate\<close>

definition relay_granted :: "config \<Rightarrow> broker_env \<Rightarrow> string \<Rightarrow> broker \<Rightarrow> bool" where
  "relay_granted cfg env pub b \<longleftrightarrow>
     b_turn b \<noteq> None \<and>
     (if cf_TURNOpen cfg then True
      else if cf_hasStore cfg then bv_active env pub = Inr True
      else False)"

definition iceServers :: "config \<Rightarrow> broker_env \<Rightarrow> string \<Rightarrow> broker \<Rightarrow> ice_server list \<times> broker" where
  "iceServers cfg env pub b =
     (let out = [\<lparr>urls = cf_STUNURLs cfg, username = [], credential = []\<rparr>] in
      if relay_granted cfg env pub b then
        (let (r, f) = turn_get (bv_now env) (bv_later env) (bv_turn env) (the (b_turn b));
             b = b\<lparr>b_turn := Some f\<rparr>
         in case r of
              Inl _ \<Rightarrow> (out, b)
            | Inr relay \<Rightarrow> (out @ [relay], tick (\<lambda>n. n\<lparr>n_turnGranted := Suc (n_turnGranted n)\<rparr>) b))
      else (out, b))"

section \<open>Daemons (serveDaemon, notifyPresence)\<close>

definition register_daemon :: "nat \<Rightarrow> signal_msg \<Rightarrow> broker \<Rightarrow> broker" where
  "register_daemon c reg b =
     (if m_daemon reg = [] then goto c Finished (put c (errMsg ''register missing daemon id'') b)
      else goto c (DNotify (m_daemon reg) True)
             (b\<lparr>b_daemons := AList.update (m_daemon reg) c (b_daemons b),
                b_dconn := (b_dconn b)(c \<mapsto> \<lparr>dc_id = m_daemon reg, dc_trickle = m_trickle reg, dc_client = None\<rparr>)\<rparr>))"

definition tracking :: "string \<Rightarrow> broker \<Rightarrow> nat list" where
  "tracking did b = map fst (filter (\<lambda>w. did \<in> set (snd w)) (b_watchers b))"

definition notify_collect :: "nat \<Rightarrow> string \<Rightarrow> bool \<Rightarrow> nat list \<Rightarrow> broker \<Rightarrow> broker" where
  "notify_collect c did online targets b = goto c (DSend did online targets) b"

definition notify_send :: "nat \<Rightarrow> string \<Rightarrow> bool \<Rightarrow> nat \<Rightarrow> nat list \<Rightarrow> broker \<Rightarrow> broker" where
  "notify_send c did online w ws b =
     goto c (DSend did online ws) (put w (presenceMsg [did \<mapsto> online]) b)"

definition notify_done :: "nat \<Rightarrow> bool \<Rightarrow> broker \<Rightarrow> broker" where
  "notify_done c online b = goto c (if online then DRead else DLeft) b"

definition daemon_read :: "nat \<Rightarrow> signal_msg \<Rightarrow> broker \<Rightarrow> broker" where
  "daemon_read c m b =
     (case current c b of None \<Rightarrow> b | Some cl \<Rightarrow> goto c (DRelay cl m) b)"

definition relay_to_client :: "nat \<Rightarrow> signal_msg \<Rightarrow> broker \<Rightarrow> signal_msg option" where
  "relay_to_client cl m b =
     (if m_type m = TypeChallenge then
        Some (challengeMsg (m_nonce m) (case b_cconn b cl of None \<Rightarrow> [] | Some cc \<Rightarrow> cc_bNonce cc))
      else if m_type m \<in> {TypeAnswer, TypeCandidate, TypeError, TypePeerLeft} then Some m
      else None)"

definition daemon_relay :: "nat \<Rightarrow> nat \<Rightarrow> signal_msg \<Rightarrow> broker \<Rightarrow> broker" where
  "daemon_relay c cl m b =
     goto c DRead (case relay_to_client cl m b of None \<Rightarrow> b | Some x \<Rightarrow> put cl x b)"

definition daemon_drop :: "nat \<Rightarrow> broker \<Rightarrow> broker" where
  "daemon_drop c b =
     (case b_dconn b c of
        None \<Rightarrow> b
      | Some dc \<Rightarrow>
          (if map_of (b_daemons b) (dc_id dc) = Some c
           then goto c (DNotify (dc_id dc) False) (b\<lparr>b_daemons := AList.delete (dc_id dc) (b_daemons b)\<rparr>)
           else goto c DLeft b))"

definition daemon_left :: "nat \<Rightarrow> broker \<Rightarrow> broker" where
  "daemon_left c b = (case current c b of None \<Rightarrow> goto c Finished b | Some cl \<Rightarrow> goto c (DBye cl) b)"

definition daemon_bye :: "nat \<Rightarrow> nat \<Rightarrow> broker \<Rightarrow> broker" where
  "daemon_bye c cl b = goto c Finished (put cl peerLeftMsg b)"

section \<open>Clients (serveClient)\<close>

definition start_join :: "nat \<Rightarrow> signal_msg \<Rightarrow> broker \<Rightarrow> broker" where
  "start_join c join b =
     (if m_daemon join = [] \<or> m_pubkey join = []
      then goto c Finished (put c (errMsg ''join missing daemon or pubkey'') b)
      else
        (let b = tick (\<lambda>n. n\<lparr>n_joins := Suc (n_joins n)\<rparr>) b;
             b = (if m_pair join \<noteq> [] then tick (\<lambda>n. n\<lparr>n_pairings := Suc (n_pairings n)\<rparr>) b else b)
         in case map_of (b_daemons b) (m_daemon join) of
              None \<Rightarrow> goto c Finished (put c offlineMsg (tick (\<lambda>n. n\<lparr>n_offline := Suc (n_offline n)\<rparr>) b))
            | Some d \<Rightarrow> goto c (CJoin d join) b))"

definition join_swap :: "broker_env \<Rightarrow> nat \<Rightarrow> nat \<Rightarrow> signal_msg \<Rightarrow> broker \<Rightarrow> broker" where
  "join_swap env c d join b =
     (case bv_random env of
        None \<Rightarrow> goto c Finished (put c (errMsg ''broker nonce error'') b)
      | Some rnd \<Rightarrow>
          (let cl = \<lparr>cc_pubKey = m_pubkey join, cc_bNonce = nonce_of rnd, cc_trickle = m_trickle join,
                     cc_daemon = d\<rparr>;
               old = current d b
           in if (\<exists>o' cc. old = Some o' \<and> b_cconn b o' = Some cc \<and> cc_pubKey cc \<noteq> cc_pubKey cl)
                 \<and> \<not> m_takeover join
              then goto c Finished (put c busyMsg (tick (\<lambda>n. n\<lparr>n_busy := Suc (n_busy n)\<rparr>) b))
              else goto c (CEvict d old join)
                     (set_client d (Some c) (b\<lparr>b_cconn := (b_cconn b)(c \<mapsto> cl)\<rparr>))))"

definition evict :: "nat \<Rightarrow> nat \<Rightarrow> nat option \<Rightarrow> signal_msg \<Rightarrow> broker \<Rightarrow> broker" where
  "evict c d old join b =
     (case old of
        None \<Rightarrow> goto c (CConnect d join) b
      | Some o' \<Rightarrow>
          (let other = (case b_cconn b o' of None \<Rightarrow> False | Some cc \<Rightarrow> cc_pubKey cc \<noteq> m_pubkey join);
               b = (if other
                    then put o' takenOverMsg (tick (\<lambda>n. n\<lparr>n_takeovers := Suc (n_takeovers n)\<rparr>) b) else b)
           in goto c (CConnect d join) (b\<lparr>b_closed := o' # b_closed b\<rparr>)))"

definition send_connect :: "nat \<Rightarrow> nat \<Rightarrow> signal_msg \<Rightarrow> broker \<Rightarrow> broker" where
  "send_connect c d join b = goto c CRead (put d (connectMsg join) b)"

definition client_read :: "nat \<Rightarrow> signal_msg \<Rightarrow> broker \<Rightarrow> broker" where
  "client_read c m b =
     (case b_cconn b c of
        None \<Rightarrow> b
      | Some cc \<Rightarrow> if current (cc_daemon cc) b = Some c then goto c (CHandle m) b else goto c CLeave b)"

definition client_handle :: "crypto \<Rightarrow> config \<Rightarrow> broker_env \<Rightarrow> nat \<Rightarrow> signal_msg \<Rightarrow> broker \<Rightarrow> broker" where
  "client_handle C cfg env c m b =
     (case b_cconn b c of
        None \<Rightarrow> b
      | Some cc \<Rightarrow>
          if m_type m = TypeProof then
            (if \<not> Verify C (cc_pubKey cc) (cc_bNonce cc) (m_brokerSig m)
             then goto c CLeave (put c (errMsg ''broker challenge failed'')
                    (tick (\<lambda>n. n\<lparr>n_proofsBad := Suc (n_proofsBad n)\<rparr>) b))
             else
               (let (ice, b) = iceServers cfg env (cc_pubKey cc)
                      (tick (\<lambda>n. n\<lparr>n_proofsOK := Suc (n_proofsOK n)\<rparr>) b);
                    tr = ((case b_dconn b (cc_daemon cc) of None \<Rightarrow> False | Some dc \<Rightarrow> dc_trickle dc)
                          \<and> cc_trickle cc)
                in goto c (CIce ice tr m) (put c (iceMsg ice tr) b)))
          else if m_type m = TypeOffer \<or> m_type m = TypeCandidate
          then goto c CRead (put (cc_daemon cc) m b)
          else goto c CRead b)"

definition send_ice :: "nat \<Rightarrow> ice_server list \<Rightarrow> bool \<Rightarrow> signal_msg \<Rightarrow> broker \<Rightarrow> broker" where
  "send_ice c ice tr m b =
     (case b_cconn b c of None \<Rightarrow> b | Some cc \<Rightarrow> goto c (CProof m) (put (cc_daemon cc) (iceMsg ice tr) b))"

definition send_proof :: "nat \<Rightarrow> signal_msg \<Rightarrow> broker \<Rightarrow> broker" where
  "send_proof c m b =
     (case b_cconn b c of None \<Rightarrow> b | Some cc \<Rightarrow> goto c CRead (put (cc_daemon cc) (proofMsg (m_sig m)) b))"

definition client_leave :: "nat \<Rightarrow> broker \<Rightarrow> broker" where
  "client_leave c b =
     (case b_cconn b c of
        None \<Rightarrow> b
      | Some cc \<Rightarrow>
          if current (cc_daemon cc) b = Some c
          then goto c (CBye (cc_daemon cc)) (set_client (cc_daemon cc) None b)
          else goto c Finished b)"

definition client_bye :: "nat \<Rightarrow> nat \<Rightarrow> broker \<Rightarrow> broker" where
  "client_bye c d b = goto c Finished (put d peerLeftMsg b)"

section \<open>Watchers (serveWatcher)\<close>

text \<open>
  The snapshot is computed under \<open>b.mu\<close>, and the connection's write lock is taken before
  \<open>b.mu\<close> is released, so no delta can be written to it before the snapshot: registration and
  snapshot are one step.
\<close>

definition snapshot :: "string list \<Rightarrow> broker \<Rightarrow> string \<rightharpoonup> bool" where
  "snapshot ids b = (\<lambda>i. if i \<in> set ids then Some (map_of (b_daemons b) i \<noteq> None) else None)"

definition add_watcher :: "nat \<Rightarrow> signal_msg \<Rightarrow> broker \<Rightarrow> broker" where
  "add_watcher c m b =
     goto c WRead (put c (presenceMsg (snapshot (m_daemons m) b))
       (b\<lparr>b_watchers := AList.update c (m_daemons m) (b_watchers b)\<rparr>))"

definition drop_watcher :: "nat \<Rightarrow> broker \<Rightarrow> broker" where
  "drop_watcher c b = goto c Finished (b\<lparr>b_watchers := AList.delete c (b_watchers b)\<rparr>)"

section \<open>The first message (handleWS)\<close>

definition on_first :: "nat \<Rightarrow> signal_msg \<Rightarrow> broker \<Rightarrow> broker" where
  "on_first c m b =
     (if m_type m = TypeRegister then register_daemon c m b
      else if m_type m = TypeJoin then start_join c m b
      else if m_type m = TypeWatch then add_watcher c m b
      else goto c Finished (put c (errMsg ''first message must be register, join, or watch'') b))"

section \<open>Statistics (stats.go)\<close>

record Stats =
  st_DaemonsOnline :: nat
  st_SessionsActive :: nat
  st_Watchers :: nat
  st_counts :: counters

definition broker_Stats :: "broker \<Rightarrow> Stats" where
  "broker_Stats b =
     \<lparr>st_DaemonsOnline = length (b_daemons b),
      st_SessionsActive = length (filter (\<lambda>e. current (snd e) b \<noteq> None) (b_daemons b)),
      st_Watchers = length (b_watchers b), st_counts = b_n b\<rparr>"

section \<open>Steps\<close>

text \<open>What a step was, where its data matters later.\<close>

datatype label =
    LFirst nat signal_msg
  | LSwap nat broker_env
  | LRead nat signal_msg
  | LHandle nat signal_msg broker_env
  | LStep nat

inductive broker_step :: "crypto \<Rightarrow> config \<Rightarrow> label \<Rightarrow> broker \<Rightarrow> broker \<Rightarrow> bool"
  for C :: crypto and cfg :: config where
  accept: "b_pc b c = Fresh \<Longrightarrow> broker_step C cfg (LStep c) b (goto c Accepted b)"
| hangup: "b_pc b c = Accepted \<Longrightarrow> broker_step C cfg (LStep c) b (goto c Finished b)"
| first: "b_pc b c = Accepted \<Longrightarrow> broker_step C cfg (LFirst c m) b (on_first c m b)"
| collect: "b_pc b c = DNotify did online \<Longrightarrow> mset targets = mset (tracking did b) \<Longrightarrow>
    broker_step C cfg (LStep c) b (notify_collect c did online targets b)"
| notify: "b_pc b c = DSend did online (w # ws) \<Longrightarrow>
    broker_step C cfg (LStep c) b (notify_send c did online w ws b)"
| notified: "b_pc b c = DSend did online [] \<Longrightarrow> broker_step C cfg (LStep c) b (notify_done c online b)"
| dread: "b_pc b c = DRead \<Longrightarrow> broker_step C cfg (LRead c m) b (daemon_read c m b)"
| drelay: "b_pc b c = DRelay cl m \<Longrightarrow> broker_step C cfg (LStep c) b (daemon_relay c cl m b)"
| ddrop: "b_pc b c = DRead \<Longrightarrow> broker_step C cfg (LStep c) b (daemon_drop c b)"
| dleft: "b_pc b c = DLeft \<Longrightarrow> broker_step C cfg (LStep c) b (daemon_left c b)"
| dbye: "b_pc b c = DBye cl \<Longrightarrow> broker_step C cfg (LStep c) b (daemon_bye c cl b)"
| swap: "b_pc b c = CJoin d join \<Longrightarrow> broker_step C cfg (LSwap c env) b (join_swap env c d join b)"
| evicts: "b_pc b c = CEvict d old join \<Longrightarrow> broker_step C cfg (LStep c) b (evict c d old join b)"
| connect: "b_pc b c = CConnect d join \<Longrightarrow> broker_step C cfg (LStep c) b (send_connect c d join b)"
| cread: "b_pc b c = CRead \<Longrightarrow> broker_step C cfg (LRead c m) b (client_read c m b)"
| chandle: "b_pc b c = CHandle m \<Longrightarrow> broker_step C cfg (LHandle c m env) b (client_handle C cfg env c m b)"
| cice: "b_pc b c = CIce ice tr m \<Longrightarrow> broker_step C cfg (LStep c) b (send_ice c ice tr m b)"
| cproof: "b_pc b c = CProof m \<Longrightarrow> broker_step C cfg (LStep c) b (send_proof c m b)"
| cgone: "b_pc b c = CRead \<Longrightarrow> broker_step C cfg (LStep c) b (goto c CLeave b)"
| cleave: "b_pc b c = CLeave \<Longrightarrow> broker_step C cfg (LStep c) b (client_leave c b)"
| cbye: "b_pc b c = CBye d \<Longrightarrow> broker_step C cfg (LStep c) b (client_bye c d b)"
| wgone: "b_pc b c = WRead \<Longrightarrow> broker_step C cfg (LStep c) b (drop_watcher c b)"

text \<open>The histories of a broker: the labels so far, oldest first, and the state they lead to.\<close>

inductive broker_trace :: "crypto \<Rightarrow> config \<Rightarrow> turnFetcher option \<Rightarrow> label list \<Rightarrow> broker \<Rightarrow> bool"
  for C :: crypto and cfg :: config and turn :: "turnFetcher option" where
  start: "broker_trace C cfg turn [] (new_broker turn)"
| step: "broker_trace C cfg turn tr b \<Longrightarrow> broker_step C cfg l b b' \<Longrightarrow> broker_trace C cfg turn (tr @ [l]) b'"

section \<open>Basic facts\<close>

lemma put_fields [simp]:
  "b_daemons (put c m b) = b_daemons b" "b_dconn (put c m b) = b_dconn b" "b_cconn (put c m b) = b_cconn b"
  "b_watchers (put c m b) = b_watchers b" "b_pc (put c m b) = b_pc b" "b_closed (put c m b) = b_closed b"
  "b_out (put c m b) = b_out b @ [(c, m)]" "b_turn (put c m b) = b_turn b" "b_n (put c m b) = b_n b"
  "current d (put c m b) = current d b"
  by (simp_all add: put_def current_def)

lemma goto_fields [simp]:
  "b_daemons (goto c p b) = b_daemons b" "b_dconn (goto c p b) = b_dconn b" "b_cconn (goto c p b) = b_cconn b"
  "b_watchers (goto c p b) = b_watchers b" "b_pc (goto c p b) = (b_pc b)(c := p)"
  "b_closed (goto c p b) = b_closed b" "b_out (goto c p b) = b_out b" "b_turn (goto c p b) = b_turn b"
  "b_n (goto c p b) = b_n b" "current d (goto c p b) = current d b"
  by (simp_all add: goto_def current_def)

lemma tick_fields [simp]:
  "b_daemons (tick f b) = b_daemons b" "b_dconn (tick f b) = b_dconn b" "b_cconn (tick f b) = b_cconn b"
  "b_watchers (tick f b) = b_watchers b" "b_pc (tick f b) = b_pc b" "b_closed (tick f b) = b_closed b"
  "b_out (tick f b) = b_out b" "b_turn (tick f b) = b_turn b" "b_n (tick f b) = f (b_n b)"
  "current d (tick f b) = current d b"
  by (simp_all add: tick_def current_def)

lemma set_client_fields [simp]:
  "b_daemons (set_client d x b) = b_daemons b" "b_cconn (set_client d x b) = b_cconn b"
  "b_watchers (set_client d x b) = b_watchers b" "b_pc (set_client d x b) = b_pc b"
  "b_closed (set_client d x b) = b_closed b" "b_out (set_client d x b) = b_out b"
  "b_turn (set_client d x b) = b_turn b" "b_n (set_client d x b) = b_n b"
  "b_dconn (set_client d x b) d' = None \<longleftrightarrow> b_dconn b d' = None"
  by (simp_all add: set_client_def)

lemma current_set_client:
  "current d' (set_client d x b) = (if d' = d \<and> b_dconn b d \<noteq> None then x else current d' b)"
  by (auto simp: set_client_def current_def split: option.split)

end
