(* ===== verification/Signal_Main.thy ===== *)
theory Signal_Main
  imports Broker Go_Json
begin

text \<open>
  \<open>cmd/simbeam-signal/main.go\<close> and the broker's constructor (\<open>broker.go\<close>, \<open>New\<close>): from the
  command line and the environment to a broker, or to an exit.  Opening the database and
  listening are their outcomes.
\<close>

section \<open>The command line\<close>

definition splitNonEmpty :: "string \<Rightarrow> string list" where
  "splitNonEmpty csv = filter (\<lambda>s. s \<noteq> []) (map trim_space (split_on CHR '','' csv))"

record signal_flags =
  sg_version :: bool
  sg_stun :: string
  sg_turnKeyID :: string
  sg_turnTTL :: duration
  sg_turnOpen :: bool

record signal_env =
  se_openDB :: "string option"   \<comment> \<open>the error of \<open>store.OpenSQLite\<close>\<close>
  se_appSecret :: string
  se_turnToken :: string
  se_listen :: string            \<comment> \<open>the error \<open>ListenAndServe\<close> ends with\<close>

record Config =
  bc_STUNURLs :: "string list"
  bc_TURNEndpoint :: string
  bc_TURNAPIToken :: string
  bc_TURNTTL :: duration
  bc_AppSecret :: string
  bc_TURNOpen :: bool

text \<open>\<open>New\<close>: a zero lifetime is a day, and no endpoint is no fetcher.\<close>

definition default_turn_ttl :: duration where "default_turn_ttl = 24 * 3600 * second"

definition New :: "Config \<Rightarrow> config \<times> broker" where
  "New cfg =
     (let ttl = (if bc_TURNTTL cfg = 0 then default_turn_ttl else bc_TURNTTL cfg)
      in (\<lparr>cf_STUNURLs = bc_STUNURLs cfg, cf_TURNOpen = bc_TURNOpen cfg, cf_hasStore = True\<rparr>,
          new_broker (if bc_TURNEndpoint cfg \<noteq> [] then Some (new_turnFetcher ttl) else None)))"

datatype signal_end =
    PrintVersion
  | ExitOne "string list"                 \<comment> \<open>what was written to standard error\<close>
  | Served Config "string list" string    \<comment> \<open>the broker's settings, the warnings, the end\<close>

definition signal_main :: "signal_flags \<Rightarrow> signal_env \<Rightarrow> signal_end" where
  "signal_main fl env =
     (if sg_version fl then PrintVersion
      else
        (case se_openDB env of
           Some e \<Rightarrow> ExitOne [''open db: '' @ e]
         | None \<Rightarrow>
             (let warn = (if se_appSecret env = []
                          then [''WARNING: SIMCAST_APP_SECRET is empty'' @ em_dash @ ''the subscription API app-sig barrier is disabled'']
                          else []);
                  warn = (if sg_turnOpen fl
                          then warn @ [''WARNING: --turn-open set'' @ em_dash @ ''TURN relay handed to ALL authenticated clients (subscription gate bypassed)'']
                          else warn)
              in if sg_turnKeyID fl \<noteq> [] \<and> se_turnToken env = []
                 then ExitOne (warn @ [''--turn-key-id set but SIMBEAM_TURN_API_TOKEN is empty''])
                 else
                   Served
                     \<lparr>bc_STUNURLs = splitNonEmpty (sg_stun fl),
                      bc_TURNEndpoint =
                        (if sg_turnKeyID fl \<noteq> [] then CloudflareTURNEndpoint (sg_turnKeyID fl) else []),
                      bc_TURNAPIToken = se_turnToken env, bc_TURNTTL = sg_turnTTL fl,
                      bc_AppSecret = se_appSecret env, bc_TURNOpen = sg_turnOpen fl\<rparr>
                     warn (se_listen env))))"

text \<open>The broker's routes.\<close>

datatype broker_route = RouteWS | RouteSubscription | RouteSubscriptionMe | RouteStats | RouteNotFound

definition broker_Handler :: "string \<Rightarrow> broker_route" where
  "broker_Handler path =
     (if path = ''/ws'' then RouteWS
      else if path = ''/v1/subscription'' then RouteSubscription
      else if path = ''/v1/subscription/me'' then RouteSubscriptionMe
      else RouteNotFound)"

text \<open>
  The listeners \<open>main\<close> starts, with their handlers: the counters on an address of their own,
  when one is given, and what is printed of each.
\<close>

definition stats_mux :: "string \<Rightarrow> broker_route" where
  "stats_mux path = (if path = ''/stats'' then RouteStats else RouteNotFound)"

definition signal_listeners :: "string \<Rightarrow> string \<Rightarrow> string \<Rightarrow> (string \<times> (string \<Rightarrow> broker_route) \<times> string) list" where
  "signal_listeners statsAddr addr db =
     (if statsAddr \<noteq> []
      then [(statsAddr, stats_mux, ''simbeam-signal stats on http://'' @ statsAddr @ ''/stats'' @ nl)] else []) @
     [(addr, broker_Handler,
       ''simbeam-signal listening on '' @ addr @ '' (ws: /ws, api: /v1/subscription, db: '' @ db @ '')'' @ nl)]"

text \<open>
  The counters are never on the public listener: without a statistics address no listener
  serves them, and with one no listener serves them together with any other route.
\<close>

lemma stats_stay_apart:
  assumes "(a, h, banner) \<in> set (signal_listeners statsAddr addr db)" "h path = RouteStats"
  shows "statsAddr \<noteq> [] \<and> a = statsAddr \<and> (\<forall>p. h p \<in> {RouteStats, RouteNotFound})"
  using assms by (auto simp: signal_listeners_def stats_mux_def broker_Handler_def split: if_splits)

text \<open>
  \<open>Stats\<close> (\<open>stats.go\<close>) as it is taken: the daemons and the gauges in one state, each daemon's
  session in a later one, the totals in the last.  In a broker at rest this is the snapshot
  \<open>broker_Stats\<close>.
\<close>

definition Stats_scan :: "broker \<Rightarrow> (nat \<Rightarrow> broker) \<Rightarrow> broker \<Rightarrow> Stats" where
  "Stats_scan b later final =
     \<lparr>st_DaemonsOnline = length (b_daemons b),
      st_SessionsActive = length (filter (\<lambda>e. current (snd e) (later (snd e)) \<noteq> None) (b_daemons b)),
      st_Watchers = length (b_watchers b), st_counts = b_n final\<rparr>"

lemma Stats_scan_at_rest: "Stats_scan b (\<lambda>_. b) b = broker_Stats b"
  by (simp add: Stats_scan_def broker_Stats_def)

lemma sessions_within_online: "st_SessionsActive (Stats_scan b later final) \<le> st_DaemonsOnline (Stats_scan b later final)"
  by (simp add: Stats_scan_def)

text \<open>\<open>StatsHandler\<close>: the encoder indents by two spaces and ends with a line break.\<close>

definition stats_fields :: "Stats \<Rightarrow> (string \<times> nat) list" where
  "stats_fields s =
     [(''daemons_online'', st_DaemonsOnline s), (''sessions_active'', st_SessionsActive s),
      (''watchers'', st_Watchers s), (''joins_total'', n_joins (st_counts s)),
      (''pairing_attempts_total'', n_pairings (st_counts s)), (''proofs_ok_total'', n_proofsOK (st_counts s)),
      (''proofs_failed_total'', n_proofsBad (st_counts s)), (''turn_granted_total'', n_turnGranted (st_counts s)),
      (''joins_daemon_offline_total'', n_offline (st_counts s)), (''joins_daemon_busy_total'', n_busy (st_counts s)),
      (''joins_takeover_total'', n_takeovers (st_counts s))]"

definition StatsHandler :: "Stats \<Rightarrow> string" where
  "StatsHandler s =
     ''{'' @ [CHR 0x0A] @
     join_with ('','' @ [CHR 0x0A])
       (map (\<lambda>(k, n). ''  '' @ json_string k @ '': '' @ dec_digits n) (stats_fields s)) @
     [CHR 0x0A] @ ''}'' @ [CHR 0x0A]"

section \<open>What a served broker can hand out\<close>

lemma CloudflareTURNEndpoint_nonempty [simp]: "CloudflareTURNEndpoint k \<noteq> []"
  by (simp add: CloudflareTURNEndpoint_def)

lemma splitNonEmpty_clean:
  "u \<in> set (splitNonEmpty csv) \<Longrightarrow> u \<noteq> [] \<and> (\<exists>p \<in> set (split_on CHR '','' csv). u = trim_space p)"
  by (auto simp: splitNonEmpty_def)

text \<open>
  A relay needs both halves of its key.  If the broker process gets as far as serving, it
  holds a relay fetcher exactly when a TURN key id was given, and then the API token is not
  empty and the credential's lifetime is the one asked for, a day when that is zero.
\<close>

theorem relay_needs_key_and_token:
  assumes "signal_main fl env = Served cfg warn e"
  shows "b_turn (snd (New cfg)) =
           (if sg_turnKeyID fl = [] then None
            else Some (new_turnFetcher (if sg_turnTTL fl = 0 then default_turn_ttl else sg_turnTTL fl)))
       \<and> (bc_TURNEndpoint cfg = [] \<or> bc_TURNAPIToken cfg \<noteq> [])"
  using assms
  by (auto simp: signal_main_def New_def new_broker_def Let_def split: if_splits option.splits)

theorem relay_needs_key_and_token_witness:
  "\<exists>cfg. signal_main \<lparr>sg_version = False, sg_stun = [], sg_turnKeyID = ''k'', sg_turnTTL = 0, sg_turnOpen = False\<rparr>
        \<lparr>se_openDB = None, se_appSecret = ''s'', se_turnToken = ''t'', se_listen = ''closed''\<rparr> = Served cfg [] ''closed'' \<and>
      b_turn (snd (New cfg)) = Some (new_turnFetcher default_turn_ttl)"
proof -
  let ?fl = "\<lparr>sg_version = False, sg_stun = [], sg_turnKeyID = ''k'', sg_turnTTL = 0, sg_turnOpen = False\<rparr>"
  let ?env = "\<lparr>se_openDB = None, se_appSecret = ''s'', se_turnToken = ''t'', se_listen = ''closed''\<rparr>"
  obtain cfg where served: "signal_main ?fl ?env = Served cfg [] ''closed''"
    by (simp add: signal_main_def)
  with relay_needs_key_and_token [OF served] show ?thesis by auto
qed

end
