(* ===== verification/Store.thy ===== *)
theory Store
  imports Go_Time "HOL-Library.Multiset"
begin

text \<open>
  \<open>internal/store\<close>: the subscriptions table.  The table is a map from its primary key to
  rows; the conditional \<open>INSERT .. ON CONFLICT .. DO UPDATE .. WHERE\<close> is written out, its
  text comparison being SQLite's default byte order.  A database failure is an argument of
  each operation.  The contract of the \<open>Store\<close> interface is a locale, in which the facts the
  subscription API rests on are proved; the SQLite model is an interpretation of it.
\<close>

section \<open>Rows and the interface (store.go)\<close>

record Subscription =
  ClientPubKey :: string
  ProductID :: string
  ExpiresAt :: string
  IssuedAt :: string
  Source :: string
  UpdatedAt :: string

text \<open>
  What a client of the store relies on: reports of one key supersede each other by issue
  time alone, strictly, and keys do not interfere.
\<close>

definition newer_row :: "Subscription option \<Rightarrow> Subscription \<Rightarrow> Subscription" where
  "newer_row old s =
     (case old of None \<Rightarrow> s | Some r \<Rightarrow> if str_less (IssuedAt r) (IssuedAt s) then s else r)"

definition reports_of :: "string \<Rightarrow> Subscription list \<Rightarrow> Subscription list" where
  "reports_of k rs = filter (\<lambda>r. ClientPubKey r = k) rs"

lemma reports_of_snoc:
  "reports_of k (rs @ [r]) = reports_of k rs @ (if ClientPubKey r = k then [r] else [])"
  by (simp add: reports_of_def)

text \<open>\<open>r\<close> is the first report among the newest.\<close>

definition first_newest :: "Subscription list \<Rightarrow> Subscription \<Rightarrow> bool" where
  "first_newest rs r \<longleftrightarrow>
     (\<exists>before after. rs = before @ r # after \<and> (\<forall>b \<in> set before. str_less (IssuedAt b) (IssuedAt r)) \<and>
        (\<forall>a \<in> set after. \<not> str_less (IssuedAt r) (IssuedAt a)))"

lemma first_newest_single: "first_newest [r] r"
  unfolding first_newest_def by (intro exI [of _ "[]"]) simp

lemma first_newestD:
  assumes "first_newest rs r"
  shows "r \<in> set rs" and "x \<in> set rs \<Longrightarrow> \<not> str_less (IssuedAt r) (IssuedAt x)"
  using assms str_less_trans by (force simp: first_newest_def)+

lemma first_newest_snoc:
  assumes "first_newest rs r"
  shows "first_newest (rs @ [s]) (newer_row (Some r) s)"
proof (cases "str_less (IssuedAt r) (IssuedAt s)")
  case True
  have "str_less (IssuedAt x) (IssuedAt s)" if "x \<in> set rs" for x
    using first_newestD(2) [OF assms that] str_less_total [of "IssuedAt x" "IssuedAt r"] True
      str_less_trans [of "IssuedAt x" "IssuedAt r" "IssuedAt s"] by auto
  then show ?thesis
    using True unfolding first_newest_def newer_row_def by (intro exI [of _ rs] exI [of _ "[]"]) simp
next
  case False
  from assms obtain b a where "rs = b @ r # a" "\<forall>x \<in> set b. str_less (IssuedAt x) (IssuedAt r)"
    "\<forall>x \<in> set a. \<not> str_less (IssuedAt r) (IssuedAt x)"
    by (auto simp: first_newest_def)
  then show ?thesis
    using False unfolding first_newest_def newer_row_def
    by (intro exI [of _ b] exI [of _ "a @ [s]"]) auto
qed

lemma first_newest_unique:
  assumes "first_newest rs r" "first_newest rs' r'" "mset rs = mset rs'" "distinct (map IssuedAt rs)"
  shows "r = r'"
proof -
  have set: "set rs = set rs'" using assms(3) by (metis set_mset_mset)
  note d = first_newestD [OF assms(1)] first_newestD [OF assms(2)]
  have "IssuedAt r = IssuedAt r'"
    using d(2) [of r'] d(4) [of r] d(1,3) set str_less_total by blast
  then show ?thesis
    using assms(4) d(1,3) set by (simp add: distinct_map inj_on_def)
qed

locale subscription_store =
  fixes empty_db :: "'db"
    and upsert :: "Subscription \<Rightarrow> 'db \<Rightarrow> 'db"
    and get :: "string \<Rightarrow> 'db \<Rightarrow> Subscription option"
    and sound :: "'db \<Rightarrow> bool"
  assumes sound_empty: "sound empty_db"
    and sound_upsert: "sound db \<Longrightarrow> sound (upsert s db)"
    and get_empty: "get k empty_db = None"
    and get_upsert_same:
      "sound db \<Longrightarrow> get (ClientPubKey s) (upsert s db) = Some (newer_row (get (ClientPubKey s) db) s)"
    and get_upsert_other: "k \<noteq> ClientPubKey s \<Longrightarrow> get k (upsert s db) = get k db"
begin

lemma sound_reports: "sound (fold upsert rs empty_db)"
  by (induction rs rule: rev_induct) (auto intro: sound_empty sound_upsert)

lemma get_reports:
  "case get k (fold upsert rs empty_db) of
     None \<Rightarrow> reports_of k rs = []
   | Some r \<Rightarrow> first_newest (reports_of k rs) r"
proof (induction rs rule: rev_induct)
  case Nil
  show ?case by (simp add: get_empty reports_of_def)
next
  case (snoc s rs)
  note sound = get_upsert_same [OF sound_reports, of s rs]
  show ?case
  proof (cases "ClientPubKey s = k")
    case True
    show ?thesis
    proof (cases "get k (fold upsert rs empty_db)")
      case None
      then show ?thesis
        using snoc True sound
        by (simp add: reports_of_snoc newer_row_def first_newest_single)
    next
      case (Some r)
      then show ?thesis
        using snoc True sound first_newest_snoc [of _ r s]
        by (simp add: reports_of_snoc)
    qed
  next
    case False
    then show ?thesis using snoc get_upsert_other [of k s] by (auto simp: reports_of_snoc split: option.splits)
  qed
qed

lemma get_newest: "get k (fold upsert rs empty_db) = Some r \<Longrightarrow> first_newest (reports_of k rs) r"
  using get_reports [of k rs] by simp

lemma get_None_iff: "get k (fold upsert rs empty_db) = None \<longleftrightarrow> reports_of k rs = []"
  using get_reports [of k rs] by (auto split: option.splits simp: first_newest_def)

lemma delivery_order_irrelevant:
  assumes "mset rs = mset rs'" "distinct (map IssuedAt (reports_of k rs))"
  shows "get k (fold upsert rs empty_db) = get k (fold upsert rs' empty_db)"
proof -
  have m: "mset (reports_of k rs) = mset (reports_of k rs')"
    using assms(1) by (simp add: reports_of_def)
  show ?thesis
  proof (cases "get k (fold upsert rs empty_db)")
    case None
    then have "reports_of k rs' = []" using get_None_iff [of k rs] m by simp
    then show ?thesis using None get_None_iff [of k rs'] by simp
  next
    case (Some r)
    then have "reports_of k rs \<noteq> []" using get_None_iff [of k rs] by auto
    then have "reports_of k rs' \<noteq> []" using m by auto
    then obtain r' where r': "get k (fold upsert rs' empty_db) = Some r'"
      using get_None_iff [of k rs'] by blast
    show ?thesis
      using first_newest_unique [OF get_newest [OF Some] get_newest [OF r'] m assms(2)] Some r' by simp
  qed
qed

lemma redelivery_is_harmless:
  "sound db \<Longrightarrow> get k (upsert s (upsert s db)) = get k (upsert s db)"
  by (cases "k = ClientPubKey s")
    (simp_all add: get_upsert_same get_upsert_other sound_upsert newer_row_def split: option.split)

end

text \<open>
  What the broker relies on in addition: \<open>Active\<close> says yes only for a stored row whose expiry
  it could read and that lies ahead.
\<close>

locale entitlement_store = subscription_store +
  fixes active :: "string \<Rightarrow> gotime \<Rightarrow> 'db \<Rightarrow> string + bool"
    and ends :: "Subscription \<Rightarrow> gotime option"
  assumes active_yes:
    "active k now db = Inr True \<longleftrightarrow> (\<exists>r e. get k db = Some r \<and> ends r = Some e \<and> now < e)"
begin

lemma active_newest_report:
  assumes "active k now (fold upsert rs empty_db) = Inr True"
  shows "\<exists>r e. first_newest (reports_of k rs) r \<and> ends r = Some e \<and> now < e"
  using assms get_newest unfolding active_yes by blast

lemma active_expires: "active k now db = Inr True \<Longrightarrow> \<exists>e > now. \<forall>t \<ge> e. active k t db \<noteq> Inr True"
  unfolding active_yes by (metis linorder_not_le option.inject)

lemma inactive_without_report: "reports_of k rs = [] \<Longrightarrow> active k now (fold upsert rs empty_db) \<noteq> Inr True"
  using active_newest_report [of k now rs] by (auto simp: first_newest_def)

end

section \<open>The SQLite model (sqlite.go)\<close>

type_synonym table = "string \<rightharpoonup> Subscription"

text \<open>Opening creates the table only if it is missing.\<close>

definition OpenSQLite :: "string option \<Rightarrow> string option \<Rightarrow> table option \<Rightarrow> string + table" where
  "OpenSQLite openErr schemaErr existing =
     (case openErr of
        Some e \<Rightarrow> Inl e
      | None \<Rightarrow>
          (case schemaErr of
             Some e \<Rightarrow> Inl e
           | None \<Rightarrow> Inr (case existing of None \<Rightarrow> Map.empty | Some t \<Rightarrow> t)))"

definition upsert_row :: "Subscription \<Rightarrow> table \<Rightarrow> table" where
  "upsert_row s t =
     (case t (ClientPubKey s) of
        None \<Rightarrow> t(ClientPubKey s \<mapsto> s)
      | Some old \<Rightarrow>
          if str_less (IssuedAt old) (IssuedAt s)
          then t(ClientPubKey s \<mapsto> old\<lparr>ProductID := ProductID s, ExpiresAt := ExpiresAt s,
                 IssuedAt := IssuedAt s, Source := Source s, UpdatedAt := UpdatedAt s\<rparr>)
          else t)"

definition store_Upsert :: "string option \<Rightarrow> Subscription \<Rightarrow> table \<Rightarrow> string option \<times> table" where
  "store_Upsert dbErr s t = (case dbErr of Some e \<Rightarrow> (Some e, t) | None \<Rightarrow> (None, upsert_row s t))"

definition store_Get :: "string option \<Rightarrow> string \<Rightarrow> table \<Rightarrow> string + Subscription option" where
  "store_Get dbErr k t = (case dbErr of Some e \<Rightarrow> Inl e | None \<Rightarrow> Inr (t k))"

definition store_Active :: "string option \<Rightarrow> string \<Rightarrow> gotime \<Rightarrow> table \<Rightarrow> string + bool" where
  "store_Active dbErr k now t =
     (case dbErr of
        Some e \<Rightarrow> Inl e
      | None \<Rightarrow>
          (case t k of
             None \<Rightarrow> Inr False
           | Some s \<Rightarrow>
               (case parse_rfc3339 (ExpiresAt s) of
                  None \<Rightarrow> Inl ''parsing time''
                | Some e \<Rightarrow> Inr (now < e))))"

text \<open>A row is stored under its own key, so the update leaves the key column alone.\<close>

definition rows_keyed :: "table \<Rightarrow> bool" where
  "rows_keyed t \<longleftrightarrow> (\<forall>k r. t k = Some r \<longrightarrow> ClientPubKey r = k)"

lemma rows_keyed_empty [simp]: "rows_keyed Map.empty"
  by (simp add: rows_keyed_def)

lemma rows_keyed_upsert: "rows_keyed t \<Longrightarrow> rows_keyed (upsert_row s t)"
  by (auto simp: rows_keyed_def upsert_row_def split: option.splits)

lemma upsert_row_same:
  assumes "rows_keyed t"
  shows "upsert_row s t (ClientPubKey s) = Some (newer_row (t (ClientPubKey s)) s)"
  using assms
  by (auto simp: upsert_row_def newer_row_def rows_keyed_def split: option.split intro!: Subscription.equality)

lemma upsert_row_other: "k \<noteq> ClientPubKey s \<Longrightarrow> upsert_row s t k = t k"
  by (auto simp: upsert_row_def split: option.split)

interpretation sqlite: subscription_store Map.empty upsert_row "\<lambda>k t. t k" rows_keyed
  by unfold_locales (simp_all add: rows_keyed_upsert upsert_row_same upsert_row_other)

interpretation gate: entitlement_store Map.empty upsert_row "\<lambda>k t. t k" rows_keyed
  "store_Active None" "\<lambda>r. parse_rfc3339 (ExpiresAt r)"
  by unfold_locales (auto simp: store_Active_def split: option.splits)

lemma store_Active_needs_store: "store_Active dbErr k now t = Inr True \<Longrightarrow> store_Active None k now t = Inr True"
  by (cases dbErr) (simp_all add: store_Active_def)

end
