(* ===== verification/Subscription_Api.thy ===== *)
theory Subscription_Api
  imports Store Signal Go_Json
begin

text \<open>
  \<open>internal/signalbroker/subscription.go\<close>: the two handlers of the subscription API over the
  store.  A request is its method, what the JSON decoder made of its body and its two
  signature headers; a reply is a status and a body.  The store is absent (\<open>None\<close>) when the
  broker runs without one.
\<close>

section \<open>Requests and replies\<close>

record subRequest =
  rq_client_pubkey :: string
  rq_product_id :: string
  rq_expires_at :: string
  rq_issued_at :: string

record http_request =
  hr_method :: string
  hr_body :: "subRequest option"
  hr_appSig :: string
  hr_accountSig :: string

record http_reply =
  status :: nat
  body :: string

definition http_error :: "nat \<Rightarrow> string \<Rightarrow> http_reply" where
  "http_error n m = \<lparr>status = n, body = m @ [CHR 0x0A]\<rparr>"

definition replayWindow :: duration where "replayWindow = 48 * hour"

definition outside_window :: "gotime \<Rightarrow> gotime \<Rightarrow> bool" where
  "outside_window now t \<longleftrightarrow> t < now - replayWindow \<or> now + replayWindow < t"

text \<open>\<open>cors\<close> ends an OPTIONS request with 204.\<close>

definition cors :: "string \<Rightarrow> http_reply option" where
  "cors meth = (if meth = ''OPTIONS'' then Some \<lparr>status = 204, body = []\<rparr> else None)"

section \<open>Reporting a subscription\<close>

definition canon_of :: "subRequest \<Rightarrow> string" where
  "canon_of q = CanonicalSubscription (rq_client_pubkey q) (rq_product_id q) (rq_expires_at q) (rq_issued_at q)"

definition report_row :: "gotime \<Rightarrow> subRequest \<Rightarrow> gotime \<Rightarrow> gotime \<Rightarrow> Subscription" where
  "report_row now q issued expires =
     \<lparr>ClientPubKey = rq_client_pubkey q, ProductID = rq_product_id q, ExpiresAt = format_rfc3339 expires,
      IssuedAt = format_rfc3339 issued, Source = ''client'', UpdatedAt = format_rfc3339 now\<rparr>"

definition handleSubscription ::
  "crypto \<Rightarrow> string \<Rightarrow> gotime \<Rightarrow> string option \<Rightarrow> http_request \<Rightarrow> table option \<Rightarrow> http_reply \<times> table option" where
  "handleSubscription C appSecret now dbErr r db =
     (case cors (hr_method r) of
        Some reply \<Rightarrow> (reply, db)
      | None \<Rightarrow>
     (if hr_method r \<noteq> ''POST'' then (http_error 405 ''POST only'', db)
      else (case db of
        None \<Rightarrow> (http_error 503 ''no store configured'', db)
      | Some t \<Rightarrow>
     (case hr_body r of
        None \<Rightarrow> (http_error 400 ''bad json'', db)
      | Some q \<Rightarrow>
     (if \<not> VerifyAppSig C appSecret (canon_of q) (hr_appSig r) then (http_error 401 ''bad app signature'', db)
      else if \<not> Verify C (rq_client_pubkey q) (canon_of q) (hr_accountSig r) then
        (http_error 401 ''bad account signature'', db)
      else (case parse_rfc3339 (rq_issued_at q) of
        None \<Rightarrow> (http_error 400 ''bad issued_at'', db)
      | Some issued \<Rightarrow>
     (if outside_window now issued then (http_error 400 ''issued_at outside accepted window'', db)
      else (case parse_rfc3339 (rq_expires_at q) of
        None \<Rightarrow> (http_error 400 ''bad expires_at'', db)
      | Some expires \<Rightarrow>
     (case store_Upsert dbErr (report_row now q issued expires) t of
        (Some e, t') \<Rightarrow> (http_error 500 ''store error'', Some t')
      | (None, t') \<Rightarrow> (\<lparr>status = 200, body = []\<rparr>, Some t'))))))))))"

section \<open>Asking for the stored row\<close>

definition me_canon :: "string \<Rightarrow> string \<Rightarrow> string" where
  "me_canon pub ts = pub @ [US] @ ts"

definition me_json :: "Subscription \<Rightarrow> string" where
  "me_json s =
     json_object
       [json_field ''client_pubkey'' (json_string (ClientPubKey s)),
        json_field ''expires_at'' (json_string (ExpiresAt s)),
        json_field ''issued_at'' (json_string (IssuedAt s)),
        json_field ''product_id'' (json_string (ProductID s)),
        json_field ''source'' (json_string (Source s)),
        json_field ''updated_at'' (json_string (UpdatedAt s))] @ [CHR 0x0A]"

text \<open>The handler reads the clock once for each bound: \<open>now\<close> and then \<open>now'\<close>.\<close>

definition handleSubscriptionMe ::
  "crypto \<Rightarrow> gotime \<Rightarrow> gotime \<Rightarrow> string option \<Rightarrow> string \<Rightarrow> string \<Rightarrow> string \<Rightarrow> string \<Rightarrow> table option \<Rightarrow> http_reply" where
  "handleSubscriptionMe C now now' dbErr meth pub ts sig db =
     (case cors meth of
        Some reply \<Rightarrow> reply
      | None \<Rightarrow>
     (if meth \<noteq> ''GET'' then http_error 405 ''GET only''
      else (case db of
        None \<Rightarrow> http_error 503 ''no store configured''
      | Some t \<Rightarrow>
     (if pub = [] \<or> \<not> Verify C pub (me_canon pub ts) sig then http_error 401 ''bad signature''
      else (case parse_rfc3339 ts of
        None \<Rightarrow> http_error 401 ''stale ts''
      | Some time \<Rightarrow>
     (if time < now - replayWindow \<or> now' + replayWindow < time then http_error 401 ''stale ts''
      else (case store_Get dbErr pub t of
        Inl e \<Rightarrow> http_error 500 ''store error''
      | Inr None \<Rightarrow> http_error 404 ''no subscription''
      | Inr (Some s) \<Rightarrow> \<lparr>status = 200, body = me_json s\<rparr>)))))))"

section \<open>What a report does\<close>

text \<open>The guards a report has passed when it is written.\<close>

definition report_ok ::
  "crypto \<Rightarrow> string \<Rightarrow> gotime \<Rightarrow> http_request \<Rightarrow> subRequest \<Rightarrow> gotime \<Rightarrow> gotime \<Rightarrow> bool" where
  "report_ok C appSecret now r q issued expires \<longleftrightarrow>
     hr_method r = ''POST'' \<and> hr_body r = Some q \<and>
     VerifyAppSig C appSecret (canon_of q) (hr_appSig r) \<and>
     Verify C (rq_client_pubkey q) (canon_of q) (hr_accountSig r) \<and>
     parse_rfc3339 (rq_issued_at q) = Some issued \<and>
     \<not> outside_window now issued \<and>
     parse_rfc3339 (rq_expires_at q) = Some expires"

lemma handleSubscription_cases:
  obtains (refused) reply where "status reply \<noteq> 200"
      "handleSubscription C sec now dbErr r (Some t) = (reply, Some t)"
  | (written) q issued expires where "report_ok C sec now r q issued expires" "dbErr = None"
      "handleSubscription C sec now dbErr r (Some t) =
         (\<lparr>status = 200, body = []\<rparr>, Some (upsert_row (report_row now q issued expires) t))"
proof (cases "\<exists>q issued expires. report_ok C sec now r q issued expires \<and> dbErr = None")
  case True
  then obtain q issued expires where ok: "report_ok C sec now r q issued expires" "dbErr = None" by blast
  then show thesis
    by (intro written [OF ok])
      (simp add: handleSubscription_def report_ok_def cors_def store_Upsert_def)
next
  case False
  have "\<exists>reply. status reply \<noteq> 200 \<and> handleSubscription C sec now dbErr r (Some t) = (reply, Some t)"
    using False
    by (auto simp: handleSubscription_def report_ok_def cors_def store_Upsert_def
        http_error_def split: option.split)
  then show thesis using refused by blast
qed

text \<open>
  C9: A row of the table changes only for a report its key signed.  Whatever request arrives,
  whatever the clock and the database do: if the row of a key is different afterwards, the
  request was a POST whose four fields carry the app's MAC and that key's signature, issued
  within 48 hours of the server's clock, and the new row holds that report's fields.
\<close>

theorem row_change_costs_a_signature:
  assumes "handleSubscription C sec now dbErr r (Some t) = (reply, Some t')" and "t' k \<noteq> t k"
    and "rows_keyed t"
  shows "\<exists>q issued expires. report_ok C sec now r q issued expires \<and> rq_client_pubkey q = k \<and>
    status reply = 200 \<and> t' k = Some (report_row now q issued expires)"
proof (cases rule: handleSubscription_cases [of C sec now dbErr r t])
  case (written q issued expires)
  with assms(1) have t': "t' = upsert_row (report_row now q issued expires) t" "status reply = 200"
    by auto
  then have k: "k = ClientPubKey (report_row now q issued expires)"
    using assms(2) upsert_row_other by blast
  have "t' k = Some (report_row now q issued expires)"
    using upsert_row_same [OF assms(3), of "report_row now q issued expires"] assms(2)
    unfolding t' k [symmetric] by (auto simp: newer_row_def split: option.splits if_splits)
  with written t' k show ?thesis by (auto simp: report_row_def)
qed (use assms in auto)

section \<open>Sequences of requests\<close>

text \<open>A delivery: the server's clock, the database's fate and the request.\<close>

type_synonym delivery = "gotime \<times> string option \<times> http_request"

fun serve_reports :: "crypto \<Rightarrow> string \<Rightarrow> delivery list \<Rightarrow> table \<Rightarrow> table" where
  "serve_reports C sec [] t = t"
| "serve_reports C sec ((now, dbErr, r) # ds) t =
     serve_reports C sec ds (the (snd (handleSubscription C sec now dbErr r (Some t))))"

text \<open>
  The reports among the deliveries that are answered 200, with the instant each was issued
  at; the answer does not depend on the table.
\<close>

definition accepted :: "crypto \<Rightarrow> string \<Rightarrow> delivery \<Rightarrow> bool" where
  "accepted C sec d =
     (case d of (now, dbErr, r) \<Rightarrow> status (fst (handleSubscription C sec now dbErr r (Some Map.empty))) = 200)"

definition reported :: "delivery \<Rightarrow> gotime \<times> Subscription" where
  "reported d =
     (case d of (now, dbErr, r) \<Rightarrow>
        (let q = the (hr_body r); issued = the (parse_rfc3339 (rq_issued_at q))
         in (issued, report_row now q issued (the (parse_rfc3339 (rq_expires_at q))))))"

definition accepted_reports :: "crypto \<Rightarrow> string \<Rightarrow> delivery list \<Rightarrow> (gotime \<times> Subscription) list" where
  "accepted_reports C sec ds = map reported (filter (accepted C sec) ds)"

text \<open>The server's clock is far enough from the ends of the four-digit years.\<close>

definition clock_ok :: "delivery \<Rightarrow> bool" where
  "clock_ok d \<longleftrightarrow>
     days_before_year 0 * 86400 * second \<le> fst d - replayWindow \<and>
     fst d + replayWindow < days_before_year 10000 * 86400 * second"

lemma accepted_cases:
  assumes "accepted C sec (now, dbErr, r)"
  obtains q issued expires where "report_ok C sec now r q issued expires" "dbErr = None"
    "reported (now, dbErr, r) = (issued, report_row now q issued expires)"
proof (cases rule: handleSubscription_cases [of C sec now dbErr r Map.empty])
  case (written q issued expires)
  then show thesis by (intro that [of q issued expires]) (simp_all add: reported_def report_ok_def Let_def)
qed (use assms in \<open>simp add: accepted_def\<close>)

lemma serve_one:
  "the (snd (handleSubscription C sec now dbErr r (Some t))) =
     (if accepted C sec (now, dbErr, r) then upsert_row (snd (reported (now, dbErr, r))) t else t)"
proof (cases rule: handleSubscription_cases [of C sec now dbErr r t])
  case (refused reply)
  have "\<not> accepted C sec (now, dbErr, r)"
  proof (cases rule: handleSubscription_cases [of C sec now dbErr r Map.empty])
    case (written q issued expires)
    then have "handleSubscription C sec now dbErr r (Some t) =
        (\<lparr>status = 200, body = []\<rparr>, Some (upsert_row (report_row now q issued expires) t))"
      by (simp add: handleSubscription_def report_ok_def cors_def store_Upsert_def)
    with refused show ?thesis by auto
  qed (simp add: accepted_def)
  with refused show ?thesis by simp
next
  case (written q issued expires)
  then have "accepted C sec (now, dbErr, r)"
    by (simp add: accepted_def handleSubscription_def report_ok_def cors_def store_Upsert_def)
  moreover have "snd (reported (now, dbErr, r)) = report_row now q issued expires"
    using written by (simp add: reported_def report_ok_def Let_def)
  ultimately show ?thesis using written by simp
qed

lemma serve_reports_fold:
  "serve_reports C sec ds t = fold upsert_row (map snd (accepted_reports C sec ds)) t"
  by (induction C sec ds t rule: serve_reports.induct) (simp_all add: serve_one accepted_reports_def)

lemma accepted_report:
  assumes "(i, row) \<in> set (accepted_reports C sec ds)" "list_all clock_ok ds"
  shows "IssuedAt row = format_rfc3339 i" "printable_time i"
proof -
  from assms(1) obtain now dbErr r where d: "(now, dbErr, r) \<in> set ds" "accepted C sec (now, dbErr, r)"
    "reported (now, dbErr, r) = (i, row)"
    by (force simp: accepted_reports_def)
  show "IssuedAt row = format_rfc3339 i" using d(3) by (auto simp: reported_def report_row_def Let_def)
  have "\<not> outside_window now i"
    by (rule accepted_cases [OF d(2)]) (use d(3) in \<open>simp add: report_ok_def\<close>)
  moreover have "clock_ok (now, dbErr, r)" using assms(2) d(1) by (auto simp: list_all_iff)
  ultimately have "days_before_year 0 * 86400 * second \<le> i" "i < days_before_year 10000 * 86400 * second"
    by (auto simp: outside_window_def clock_ok_def)
  then have "days_before_year 0 * 86400 \<le> i div second" "i div second < days_before_year 10000 * 86400"
    by (simp_all add: second_def less_eq_div_iff_mult_less_eq div_less_iff_less_mult)
  then show "printable_time i" by (simp add: printable_time_def)
qed

lemma latest_stored:
  assumes "list_all clock_ok ds"
  shows "case serve_reports C sec ds Map.empty k of
      None \<Rightarrow> k \<notin> (ClientPubKey \<circ> snd) ` set (accepted_reports C sec ds)
    | Some row \<Rightarrow>
        (\<exists>i. (i, row) \<in> set (accepted_reports C sec ds) \<and> ClientPubKey row = k \<and>
          (\<forall>(j, row') \<in> set (accepted_reports C sec ds).
             ClientPubKey row' = k \<longrightarrow> j div second \<le> i div second))"
proof -
  let ?rs = "accepted_reports C sec ds"
  have fold: "serve_reports C sec ds Map.empty k = fold upsert_row (map snd ?rs) Map.empty k"
    by (simp add: serve_reports_fold)
  show ?thesis
  proof (cases "serve_reports C sec ds Map.empty k")
    case None
    then have "reports_of k (map snd ?rs) = []" using sqlite.get_None_iff [of "map snd ?rs" k] fold by simp
    then show ?thesis using None by (auto simp: reports_of_def filter_empty_conv)
  next
    case (Some row)
    then have new: "first_newest (reports_of k (map snd ?rs)) row"
      using sqlite.get_newest [of "map snd ?rs" k] fold by simp
    from first_newestD(1) [OF this] obtain i where i: "(i, row) \<in> set ?rs" "ClientPubKey row = k"
      by (auto simp: reports_of_def)
    have "j div second \<le> i div second" if "(j, row') \<in> set ?rs" "ClientPubKey row' = k" for j row'
    proof -
      have "row' \<in> set (reports_of k (map snd ?rs))" using that by (force simp: reports_of_def)
      from first_newestD(2) [OF new this]
      have "\<not> str_less (format_rfc3339 i) (format_rfc3339 j)"
        using accepted_report(1) [OF i(1) assms] accepted_report(1) [OF that(1) assms] by simp
      then show ?thesis
        using format_less [OF accepted_report(2) [OF i(1) assms] accepted_report(2) [OF that(1) assms]]
        by simp
    qed
    with i Some show ?thesis by auto
  qed
qed

text \<open>
  C19: The table holds, for each key, the latest report.  After any sequence of requests to an
  empty table, the row of a key is one of the accepted reports of that key, and no accepted
  report of that key was issued in a later second; there is no row exactly when no report of
  that key was accepted.
\<close>

theorem latest_report_is_stored:
  assumes "list_all clock_ok ds"
  shows "case serve_reports C sec ds Map.empty k of
      None \<Rightarrow> k \<notin> (ClientPubKey \<circ> snd) ` set (accepted_reports C sec ds)
    | Some row \<Rightarrow>
        (\<exists>i. (i, row) \<in> set (accepted_reports C sec ds) \<and> ClientPubKey row = k \<and>
          (\<forall>(j, row') \<in> set (accepted_reports C sec ds).
             ClientPubKey row' = k \<longrightarrow> j div second \<le> i div second))"
  by (rule latest_stored [OF assms])

text \<open>
  The reports of a key may arrive in any order.  Two sequences of the same deliveries leave
  the same row for a key, provided its accepted reports were issued in different seconds.
\<close>

theorem reports_converge:
  assumes "mset ds = mset ds'" "list_all clock_ok ds"
    and "distinct (map (\<lambda>(i, row). i div second)
           (filter (\<lambda>(i, row). ClientPubKey row = k) (accepted_reports C sec ds)))"
  shows "serve_reports C sec ds Map.empty k = serve_reports C sec ds' Map.empty k"
proof -
  let ?rs = "filter (\<lambda>(i, row). ClientPubKey row = k) (accepted_reports C sec ds)"
  have rs: "reports_of k (map snd (accepted_reports C sec ds)) = map snd ?rs"
    by (simp add: reports_of_def filter_map o_def case_prod_unfold)
  have "inj_on IssuedAt (set (map snd ?rs)) \<and> distinct (map snd ?rs)"
  proof -
    have eq: "i div second = j div second"
      if "(i, r) \<in> set ?rs" "(j, r') \<in> set ?rs" "IssuedAt r = IssuedAt r'" for i j r r'
    proof -
      have m: "(i, r) \<in> set (accepted_reports C sec ds)" "(j, r') \<in> set (accepted_reports C sec ds)"
        using that by auto
      note a = accepted_report [OF m(1) assms(2)] accepted_report [OF m(2) assms(2)]
      show ?thesis
        using format_less [OF a(2,4)] format_less [OF a(4,2)] that(3) a(1,3) by (metis linorder_neqE str_less_irrefl)
    qed
    have key: "inj_on (\<lambda>(i, row). i div second) (set ?rs)" "distinct ?rs"
      using assms(3) by (simp_all add: distinct_map)
    then have same: "x = y" if "x \<in> set ?rs" "y \<in> set ?rs" "IssuedAt (snd x) = IssuedAt (snd y)" for x y
    proof -
      obtain i r j r' where xy: "x = (i, r)" "y = (j, r')" by fastforce
      then have "i div second = j div second" using that eq [of i r j r'] by simp
      then show ?thesis using inj_onD [OF key(1) _ that(1,2)] xy by simp
    qed
    have "inj_on snd (set ?rs)" by (rule inj_onI, rule same) simp_all
    with key(2) have "distinct (map snd ?rs)" by (simp only: distinct_map)
    moreover have "inj_on IssuedAt (snd ` set ?rs)"
    proof (rule inj_onI)
      fix a b assume ab: "a \<in> snd ` set ?rs" "b \<in> snd ` set ?rs" "IssuedAt a = IssuedAt b"
      then obtain x y where "x \<in> set ?rs" "y \<in> set ?rs" "a = snd x" "b = snd y" by blast
      then show "a = b" using same [of x y] ab(3) by simp
    qed
    ultimately show ?thesis by simp
  qed
  then have "distinct (map IssuedAt (reports_of k (map snd (accepted_reports C sec ds))))"
    unfolding rs by (subst distinct_map) blast
  moreover have "mset (map snd (accepted_reports C sec ds)) = mset (map snd (accepted_reports C sec ds'))"
    using assms(1) by (simp add: accepted_reports_def)
  ultimately show ?thesis
    unfolding serve_reports_fold by (intro sqlite.delivery_order_irrelevant)
qed

text \<open>
  A report is safe to repeat.  Sending again a request that was accepted is accepted again
  for as long as it stays in the window, and changes no row, not even its update time.
\<close>

theorem retry_is_safe:
  assumes "accepted C sec (now, None, r)" "rows_keyed t" "\<not> outside_window now' (fst (reported (now, None, r)))"
    and "handleSubscription C sec now None r (Some t) = (reply, Some t')"
  shows "handleSubscription C sec now' None r (Some t') = (\<lparr>status = 200, body = []\<rparr>, Some t')"
proof (cases rule: handleSubscription_cases [of C sec now None r Map.empty])
  case (refused reply)
  then show ?thesis using assms(1) by (simp add: accepted_def)
next
  case (written q issued expires)
  have t': "t' = upsert_row (report_row now q issued expires) t"
    using assms(4) written by (simp add: handleSubscription_def report_ok_def cors_def store_Upsert_def)
  have "report_ok C sec now' r q issued expires"
    using written(1) assms(3) by (simp add: report_ok_def reported_def Let_def)
  then have "handleSubscription C sec now' None r (Some t') =
      (\<lparr>status = 200, body = []\<rparr>, Some (upsert_row (report_row now' q issued expires) t'))"
    by (simp add: handleSubscription_def report_ok_def cors_def store_Upsert_def)
  moreover have "upsert_row (report_row now' q issued expires) t' = t'"
    unfolding t' by (auto simp: upsert_row_def report_row_def split: option.split)
  ultimately show ?thesis by simp
qed

text \<open>The separator of the signed text occurs in none of its fields.\<close>

lemma timestamp_no_separator: "parse_rfc3339 s = Some t \<Longrightarrow> US \<notin> set s"
  using parse_rfc3339_chars [of s t] by (auto simp: time_char_def isDigit_def US_def digit_value_def)

lemma report_ok_no_separator:
  assumes "report_ok C sec now r q issued expires"
  shows "US \<notin> set (rq_client_pubkey q)" "US \<notin> set (rq_issued_at q)" "US \<notin> set (rq_expires_at q)"
  using assms Verify_no_separator(1) timestamp_no_separator by (auto simp: report_ok_def)

lemma me_shows_own_row:
  assumes "status (handleSubscriptionMe C now now' dbErr meth pub ts sig db) = 200"
  shows "\<exists>t time row. db = Some t \<and> t pub = Some row \<and> Verify C pub (me_canon pub ts) sig \<and>
    parse_rfc3339 ts = Some time \<and> now - replayWindow \<le> time \<and> time \<le> now' + replayWindow \<and>
    body (handleSubscriptionMe C now now' dbErr meth pub ts sig db) = me_json row"
  using assms
  by (auto simp: handleSubscriptionMe_def cors_def http_error_def store_Get_def
      split: option.splits if_splits)

text \<open>
  C33: A signature means one thing.  If two requests carry the same signed bytes, in either
  endpoint, they are reports of the same four fields: the separator occurs in no key and in
  no time stamp, so a signature of one report covers no other, and the signature that shows
  the row to its owner is never that of a report.
\<close>

theorem signature_means_one_report:
  assumes "report_ok C sec now r q issued expires"
  shows "(report_ok C sec' now' r' q' issued' expires' \<and> canon_of q' = canon_of q \<longrightarrow> q' = q) \<and>
    (status (handleSubscriptionMe C n n' dbErr meth pub ts sig db) = 200 \<longrightarrow> me_canon pub ts \<noteq> canon_of q)"
proof (intro conjI impI)
  note us = report_ok_no_separator [OF assms]
  { assume a: "report_ok C sec' now' r' q' issued' expires' \<and> canon_of q' = canon_of q"
    then have "report_ok C sec' now' r' q' issued' expires'" by blast
    note us' = report_ok_no_separator [OF this]
    show "q' = q"
      using a canonical_inj [OF _ us'(1) us(1) us'(3) us(3) us'(2) us(2)]
      by (auto simp: canon_of_def intro: subRequest.equality) }
  { assume "status (handleSubscriptionMe C n n' dbErr meth pub ts sig db) = 200"
    from me_shows_own_row [OF this] have me: "US \<notin> set pub" "US \<notin> set ts"
      using Verify_no_separator(1) timestamp_no_separator by blast+
    show "me_canon pub ts \<noteq> canon_of q"
    proof
      assume "me_canon pub ts = canon_of q"
      then have "pub @ US # ts = rq_client_pubkey q @ US # (rq_product_id q @ US # rq_expires_at q @ US # rq_issued_at q)"
        by (simp add: me_canon_def canon_of_def CanonicalSubscription_def)
      from sep_append_inj [OF this me(1) us(1)] me(2) show False by auto
    qed }
qed

section \<open>A concrete client\<close>

text \<open>One key, and its reports at midnight on given days of June 2026, valid to the end of the year.\<close>

definition sb_raw :: string where "sb_raw = replicate 32 CHR ''k''"
definition sb_key :: string where "sb_key = b64_encode sb_raw"

definition june :: "nat \<Rightarrow> civil" where
  "june d = \<lparr>c_year = 2026, c_month = 6, c_day = d, c_hour = 0, c_min = 0, c_sec = 0\<rparr>"

definition sb_end :: civil where
  "sb_end = \<lparr>c_year = 2026, c_month = 12, c_day = 31, c_hour = 0, c_min = 0, c_sec = 0\<rparr>"

definition instant :: "civil \<Rightarrow> gotime" where "instant c = civil_secs c * second"

definition sb_report :: "nat \<Rightarrow> subRequest" where
  "sb_report d = \<lparr>rq_client_pubkey = sb_key, rq_product_id = ''pro'', rq_expires_at = civil_text sb_end,
     rq_issued_at = civil_text (june d)\<rparr>"

definition sb_request :: "nat \<Rightarrow> http_request" where
  "sb_request d = \<lparr>hr_method = ''POST'', hr_body = Some (sb_report d),
     hr_appSig = AppSig plain_crypto ''s'' (canon_of (sb_report d)),
     hr_accountSig = Sign plain_crypto sb_raw (canon_of (sb_report d))\<rparr>"

definition sb_delivery :: "nat \<Rightarrow> delivery" where
  "sb_delivery d = (instant (june d), None, sb_request d)"

definition june_day :: "nat \<Rightarrow> bool" where "june_day d \<longleftrightarrow> 1 \<le> d \<and> d \<le> 30"

lemma sb_verify: "Verify plain_crypto sb_key m (Sign plain_crypto sb_raw m)"
  by (simp add: Verify_def Sign_def sb_key_def plain_crypto_def) (simp add: sb_raw_def)

lemma june_parse: "june_day d \<Longrightarrow> parse_rfc3339 (civil_text (june d)) = Some (instant (june d))"
  unfolding instant_def
  by (rule parse_civil_text) (simp_all add: june_def june_day_def civil_ok_def daysIn_def)

lemma sb_end_parse: "parse_rfc3339 (civil_text sb_end) = Some (instant sb_end)"
  unfolding instant_def
  by (rule parse_civil_text) (simp_all add: sb_end_def civil_ok_def daysIn_def)

lemma june_instant: "instant (june d) = (739766 + int d) * 86400 * second"
  by (simp add: instant_def june_def civil_secs_def day_number_def second_of_day_def days_before_year_def
      daysIn_def leap_day_def eval_nat_numeral)

lemma sb_report_ok:
  assumes "june_day d" "\<not> outside_window now (instant (june d))"
  shows "report_ok plain_crypto ''s'' now (sb_request d) (sb_report d) (instant (june d)) (instant sb_end)"
  using assms june_parse [of d] sb_end_parse sb_verify
  by (simp add: report_ok_def sb_request_def sb_report_def VerifyAppSig_def)

lemma own_clock [simp]: "\<not> outside_window now now"
  by (simp add: outside_window_def replayWindow_def time_units)

lemma sb_handle:
  assumes "june_day d" "\<not> outside_window now (instant (june d))"
  shows "handleSubscription plain_crypto ''s'' now None (sb_request d) (Some t) =
    (\<lparr>status = 200, body = []\<rparr>, Some (upsert_row (report_row now (sb_report d) (instant (june d)) (instant sb_end)) t))"
  using sb_report_ok [OF assms] by (simp add: handleSubscription_def report_ok_def cors_def store_Upsert_def)

lemma sb_accepted:
  assumes "june_day d"
  shows "accepted plain_crypto ''s'' (sb_delivery d)"
    "reported (sb_delivery d) =
       (instant (june d), report_row (instant (june d)) (sb_report d) (instant (june d)) (instant sb_end))"
proof -
  show "accepted plain_crypto ''s'' (sb_delivery d)"
    using sb_handle [OF assms own_clock] by (simp add: accepted_def sb_delivery_def)
  have "hr_body (sb_request d) = Some (sb_report d)" "rq_issued_at (sb_report d) = civil_text (june d)"
    "rq_expires_at (sb_report d) = civil_text sb_end"
    by (simp_all add: sb_request_def sb_report_def)
  then show "reported (sb_delivery d) =
       (instant (june d), report_row (instant (june d)) (sb_report d) (instant (june d)) (instant sb_end))"
    using june_parse [OF assms] sb_end_parse by (simp add: reported_def sb_delivery_def Let_def)
qed

lemma sb_clock_ok: "june_day d \<Longrightarrow> clock_ok (sb_delivery d)"
  by (simp add: clock_ok_def sb_delivery_def june_instant june_day_def replayWindow_def time_units days_before_year_def)

lemma sb_days [simp]: "june_day 2" "june_day 3" "june_day 4"
  by (simp_all add: june_day_def)

theorem row_change_costs_a_signature_witness:
  "\<exists>q issued expires. report_ok plain_crypto ''s'' (instant (june 2)) (sb_request 2) q issued expires \<and>
     rq_client_pubkey q = sb_key"
proof -
  let ?t = "upsert_row (report_row (instant (june 2)) (sb_report 2) (instant (june 2)) (instant sb_end)) Map.empty"
  have "?t sb_key \<noteq> None" by (simp add: upsert_row_def report_row_def sb_report_def)
  then show ?thesis
    using row_change_costs_a_signature [OF sb_handle [OF sb_days(1) own_clock], of Map.empty sb_key] by auto
qed

theorem latest_report_is_stored_witness:
  "\<exists>row i. serve_reports plain_crypto ''s'' [sb_delivery 3, sb_delivery 2] Map.empty sb_key = Some row \<and>
     (i, row) \<in> set (accepted_reports plain_crypto ''s'' [sb_delivery 3, sb_delivery 2]) \<and>
     instant (june 3) div second \<le> i div second"
proof -
  let ?ds = "[sb_delivery 3, sb_delivery 2]"
  have ar: "accepted_reports plain_crypto ''s'' ?ds = [reported (sb_delivery 3), reported (sb_delivery 2)]"
    by (simp add: accepted_reports_def sb_accepted)
  have key: "ClientPubKey (report_row n (sb_report d) i e) = sb_key" for n d i e
    by (simp add: report_row_def sb_report_def)
  have "list_all clock_ok ?ds" by (simp add: sb_clock_ok)
  from latest_report_is_stored [OF this, where C = plain_crypto and sec = "''s''" and k = sb_key] show ?thesis
    unfolding ar by (auto simp: sb_accepted key split: option.splits)
qed

theorem reports_converge_witness:
  "serve_reports plain_crypto ''s'' [sb_delivery 3, sb_delivery 2, sb_delivery 4] Map.empty sb_key =
   serve_reports plain_crypto ''s'' [sb_delivery 4, sb_delivery 2, sb_delivery 3] Map.empty sb_key"
proof (rule reports_converge)
  show "list_all clock_ok [sb_delivery 3, sb_delivery 2, sb_delivery 4]" by (simp add: sb_clock_ok)
  have "accepted_reports plain_crypto ''s'' [sb_delivery 3, sb_delivery 2, sb_delivery 4] =
      [reported (sb_delivery 3), reported (sb_delivery 2), reported (sb_delivery 4)]"
    by (simp add: accepted_reports_def sb_accepted)
  then show "distinct (map (\<lambda>(i, row). i div second) (filter (\<lambda>(i, row). ClientPubKey row = sb_key)
      (accepted_reports plain_crypto ''s'' [sb_delivery 3, sb_delivery 2, sb_delivery 4])))"
    by (simp add: sb_accepted report_row_def sb_report_def june_instant second_def)
qed simp

theorem retry_is_safe_witness:
  "\<exists>t'. handleSubscription plain_crypto ''s'' (instant (june 3)) None (sb_request 2) (Some t') =
     (\<lparr>status = 200, body = []\<rparr>, Some t') \<and> t' sb_key \<noteq> None"
proof -
  let ?t = "upsert_row (report_row (instant (june 2)) (sb_report 2) (instant (june 2)) (instant sb_end)) Map.empty"
  have key: "?t sb_key \<noteq> None" by (simp add: upsert_row_def report_row_def sb_report_def)
  have acc: "accepted plain_crypto ''s'' (instant (june 2), None, sb_request 2)"
    and fst: "fst (reported (instant (june 2), None, sb_request 2)) = instant (june 2)"
    using sb_accepted [OF sb_days(1)] by (simp_all add: sb_delivery_def)
  have "\<not> outside_window (instant (june 3)) (instant (june 2))"
    by (simp add: outside_window_def june_instant replayWindow_def time_units)
  then show ?thesis
    using retry_is_safe [OF acc rows_keyed_empty _ sb_handle [OF sb_days(1) own_clock], of "instant (june 3)"]
      fst key by auto
qed

theorem signature_means_one_report_witness:
  "me_canon sb_key (civil_text (june 2)) \<noteq> canon_of (sb_report 2)"
proof -
  let ?t = "[sb_key \<mapsto> report_row 0 (sb_report 2) 0 0]"
  have pub: "sb_key \<noteq> []" using Verify_no_separator(3) [OF sb_verify] by simp
  have "status (handleSubscriptionMe plain_crypto (instant (june 2)) (instant (june 2)) None ''GET'' sb_key
      (civil_text (june 2)) (Sign plain_crypto sb_raw (me_canon sb_key (civil_text (june 2)))) (Some ?t)) = 200"
    using sb_verify june_parse [OF sb_days(1)] pub
    by (simp add: handleSubscriptionMe_def cors_def store_Get_def replayWindow_def time_units)
  then show ?thesis
    using signature_means_one_report [OF sb_report_ok [OF sb_days(1) own_clock]] by blast
qed

end
