(* ===== verification/Relay_Gate.thy ===== *)
theory Relay_Gate
  imports Broker Subscription_Api
begin

text \<open>
  The subscription API and the broker's relay gate together: \<open>Broker.iceServers\<close> asks
  \<open>Store.Active\<close> for the key it has just authenticated, over the table the subscription
  handlers have written.
\<close>

text \<open>The environment of a broker step whose store holds the table \<open>t\<close>.\<close>

definition over_table :: "string option \<Rightarrow> table \<Rightarrow> broker_env \<Rightarrow> bool" where
  "over_table dbErr t env \<longleftrightarrow> bv_active env = (\<lambda>k. store_Active dbErr k (bv_now env) t)"

lemma active_report:
  assumes "store_Active dbErr k now t = Inr True" "t k = Some (report_row now' q issued expires)"
  shows "printable_time expires" "now < expires" "now < expires div second * second"
proof -
  from assms obtain e where e: "parse_rfc3339 (format_rfc3339 expires) = Some e" "now < e"
    by (auto simp: store_Active_def report_row_def split: option.splits)
  show p: "printable_time expires"
    using parse_format_unprintable [of expires] e by (cases "printable_time expires") auto
  show n: "now < expires div second * second" using parse_format [OF p] e by simp
  also have "expires div second * second \<le> expires"
    using div_bounds [of second expires] by (simp add: mult.commute)
  finally show "now < expires" .
qed

lemma granted_needs_report:
  assumes "list_all clock_ok ds" "over_table dbErr (serve_reports C sec ds Map.empty) env"
    and "\<not> cf_TURNOpen cfg" "relay_granted cfg env k b"
  shows "\<exists>now r q issued expires. (now, None, r) \<in> set ds \<and> report_ok C sec now r q issued expires \<and>
    rq_client_pubkey q = k \<and> bv_now env < expires \<and>
    list_all (\<lambda>(j, row). ClientPubKey row \<noteq> k \<or> j div second \<le> issued div second) (accepted_reports C sec ds)"
proof -
  let ?t = "serve_reports C sec ds Map.empty"
  have act: "store_Active dbErr k (bv_now env) ?t = Inr True"
    using assms(2-4) by (auto simp: relay_granted_def over_table_def split: if_splits)
  then obtain row where row: "?t k = Some row"
    using gate.active_yes [THEN iffD1, OF store_Active_needs_store] by blast
  then obtain i where i: "(i, row) \<in> set (accepted_reports C sec ds)" "ClientPubKey row = k"
    and newest: "\<forall>(j, row') \<in> set (accepted_reports C sec ds). ClientPubKey row' = k \<longrightarrow> j div second \<le> i div second"
    using latest_stored [OF assms(1), where C = C and sec = sec and k = k] by auto
  from i(1) obtain now err r where d: "(now, err, r) \<in> set ds" "accepted C sec (now, err, r)"
    "reported (now, err, r) = (i, row)"
    by (force simp: accepted_reports_def)
  obtain q expires where ok: "report_ok C sec now r q i expires" "err = None" "row = report_row now q i expires"
    by (rule accepted_cases [OF d(2)]) (use d(3) in auto)
  have "bv_now env < expires" using active_report(2) [OF act] row ok(3) by simp
  moreover have "rq_client_pubkey q = k" using i(2) ok(3) by (simp add: report_row_def)
  moreover have "list_all (\<lambda>(j, row). ClientPubKey row \<noteq> k \<or> j div second \<le> i div second) (accepted_reports C sec ds)"
    using newest by (auto simp: list_all_iff)
  ultimately show ?thesis using d(1) ok by blast
qed

text \<open>
  C8: The relay is for keys with a signed, unexpired subscription.  Whatever reports the
  server has served, if the gate grants the relay to a key then an accepted report of that
  key, signed by it and with the app's MAC, says the subscription runs beyond now, and no
  accepted report of that key was issued in a later second.
\<close>

theorem relay_follows_subscription:
  assumes "list_all clock_ok ds" "over_table dbErr (serve_reports C sec ds Map.empty) env"
    and "\<not> cf_TURNOpen cfg" "relay_granted cfg env k b"
  shows "\<exists>now r q issued expires. (now, None, r) \<in> set ds \<and> report_ok C sec now r q issued expires \<and>
    rq_client_pubkey q = k \<and> bv_now env < expires \<and>
    list_all (\<lambda>(j, row). ClientPubKey row \<noteq> k \<or> j div second \<le> issued div second) (accepted_reports C sec ds)"
  by (rule granted_needs_report [OF assms])

text \<open>A broker with a relay, whose store has served one report, 60 nanoseconds into that day.\<close>

definition rg_env :: broker_env where
  "rg_env = \<lparr>bv_now = instant (june 2) + 60, bv_later = 0, bv_random = None,
     bv_active = (\<lambda>k. store_Active None k (instant (june 2) + 60)
                       (serve_reports plain_crypto ''s'' [sb_delivery 2] Map.empty)),
     bv_turn = TransportFailed []\<rparr>"

definition rg_cfg :: config where
  "rg_cfg = \<lparr>cf_STUNURLs = [], cf_TURNOpen = False, cf_hasStore = True\<rparr>"

lemma sb_end_instant: "instant sb_end = (739980 * 86400) * second"
  by (simp add: instant_def sb_end_def civil_secs_def day_number_def second_of_day_def days_before_year_def
      daysIn_def leap_day_def eval_nat_numeral)

lemma sb_row:
  "serve_reports plain_crypto ''s'' [sb_delivery 2] Map.empty sb_key =
     Some (report_row (instant (june 2)) (sb_report 2) (instant (june 2)) (instant sb_end))"
proof -
  have "june_day 2" by (simp add: june_day_def)
  then show ?thesis
    by (simp add: serve_reports_fold accepted_reports_def sb_accepted upsert_row_def report_row_def sb_report_def)
qed

lemma sb_end_printable: "printable_time (instant sb_end)"
  by (simp add: printable_time_def sb_end_instant second_def days_before_year_def)

lemma rg_granted: "relay_granted rg_cfg rg_env sb_key (new_broker (Some (new_turnFetcher 100)))"
proof -
  have "instant sb_end div second * second = instant sb_end" by (simp add: sb_end_instant second_def)
  then have "parse_rfc3339 (format_rfc3339 (instant sb_end)) = Some (instant sb_end)"
    using parse_format [OF sb_end_printable] by simp
  then have "store_Active None sb_key (instant (june 2) + 60) (serve_reports plain_crypto ''s'' [sb_delivery 2] Map.empty) =
      Inr (instant (june 2) + 60 < instant sb_end)"
    unfolding store_Active_def sb_row by (simp add: report_row_def)
  then show ?thesis
    by (simp add: relay_granted_def rg_cfg_def rg_env_def new_broker_def sb_end_instant june_instant second_def)
qed

theorem relay_follows_subscription_witness:
  "\<exists>now r q issued expires. report_ok plain_crypto ''s'' now r q issued expires \<and> rq_client_pubkey q = sb_key \<and>
     bv_now rg_env < expires"
proof -
  have "list_all clock_ok [sb_delivery 2]" by (simp add: sb_clock_ok)
  moreover have "over_table None (serve_reports plain_crypto ''s'' [sb_delivery 2] Map.empty) rg_env"
    by (simp add: over_table_def rg_env_def)
  moreover have "\<not> cf_TURNOpen rg_cfg" by (simp add: rg_cfg_def)
  ultimately show ?thesis using relay_follows_subscription [OF _ _ _ rg_granted] by blast
qed

text \<open>
  An expiry past the year 9999 is accepted and then never honoured.  A correctly signed
  report whose expiry, once moved to UTC, falls outside the four-digit years is answered 200
  and stored, and from then on \<open>Store.Active\<close> fails for its key at every time, so the gate
  never grants the relay, although the subscription reported has not expired.
\<close>

theorem far_expiry_never_active:
  assumes "report_ok C sec now r q issued expires" "\<not> printable_time expires"
  shows "\<exists>t'. handleSubscription C sec now None r (Some Map.empty) = (\<lparr>status = 200, body = []\<rparr>, Some t') \<and>
    store_Active None (rq_client_pubkey q) later t' = Inl ''parsing time''"
proof -
  let ?row = "report_row now q issued expires"
  have "handleSubscription C sec now None r (Some Map.empty) =
      (\<lparr>status = 200, body = []\<rparr>, Some (upsert_row ?row Map.empty))"
    using assms(1) by (simp add: handleSubscription_def report_ok_def cors_def store_Upsert_def)
  moreover have "upsert_row ?row Map.empty (rq_client_pubkey q) = Some ?row"
    by (simp add: upsert_row_def report_row_def)
  moreover have "parse_rfc3339 (ExpiresAt ?row) = None"
    using parse_format_unprintable [OF assms(2)] by (simp add: report_row_def)
  ultimately show ?thesis by (auto simp: store_Active_def)
qed

definition far_expiry :: string where "far_expiry = ''9999-12-31T23:59:59-01:00''"

definition far_report :: subRequest where "far_report = (sb_report 2)\<lparr>rq_expires_at := far_expiry\<rparr>"

definition far_request :: http_request where
  "far_request = \<lparr>hr_method = ''POST'', hr_body = Some far_report,
     hr_appSig = AppSig plain_crypto ''s'' (canon_of far_report),
     hr_accountSig = Sign plain_crypto sb_raw (canon_of far_report)\<rparr>"

lemma far_expiry_parse: "parse_rfc3339 far_expiry = Some (315537901199 * second)"
  by (simp add: far_expiry_def parse_rfc3339_def parse_year_def getnum_def skip_def has_prefix_def in_range_def
      parse_fraction_def parse_zone_def isDigit_def digit_value_def civil_secs_def day_number_def second_of_day_def
      days_before_year_def daysIn_def leap_day_def eval_nat_numeral)

theorem far_expiry_never_active_witness:
  "\<exists>t'. handleSubscription plain_crypto ''s'' (instant (june 2)) None far_request (Some Map.empty) =
       (\<lparr>status = 200, body = []\<rparr>, Some t') \<and>
     store_Active None sb_key (instant (june 3)) t' = Inl ''parsing time''"
proof -
  have "june_day 2" by (simp add: june_day_def)
  then have "report_ok plain_crypto ''s'' (instant (june 2)) far_request far_report (instant (june 2)) (315537901199 * second)"
    using june_parse [of 2] far_expiry_parse sb_verify
    by (simp add: report_ok_def far_request_def far_report_def sb_report_def VerifyAppSig_def)
  moreover have "\<not> printable_time (315537901199 * second)"
    by (simp add: printable_time_def second_def days_before_year_def)
  ultimately show ?thesis
    using far_expiry_never_active [of plain_crypto "''s''" "instant (june 2)" far_request far_report _ _ "instant (june 3)"]
    by (simp add: far_report_def sb_report_def)
qed

end
