(* ===== verification/Nal.thy ===== *)
theory Nal
  imports Prelude "HOL-Library.Word"
begin

text \<open>
  \<open>internal/encoder/nal.go\<close>: cutting an Annex-B byte stream into NAL units and grouping
  them into access units.  A byte is an \<open>8 word\<close>.
\<close>

unbundle bit_operations_syntax

type_synonym bytes = "8 word list"

section \<open>Start codes\<close>

definition startCodeLen :: "bytes \<Rightarrow> nat" where
  "startCodeLen b =
     (if 4 \<le> length b \<and> b ! 0 = 0 \<and> b ! 1 = 0 \<and> b ! 2 = 0 \<and> b ! 3 = 1 then 4
      else if 3 \<le> length b \<and> b ! 0 = 0 \<and> b ! 1 = 0 \<and> b ! 2 = 1 then 3
      else 0)"

fun indexStartCode :: "bytes \<Rightarrow> nat option" where
  \<comment> \<open>the loop over \<open>i\<close>, on the suffix that starts at \<open>i\<close>; \<open>None\<close> is \<open>-1\<close>\<close>
  "indexStartCode (a # b # c # r) =
     (if a = 0 \<and> b = 0 \<and> c = 1 then Some 0
      else if a = 0 \<and> b = 0 \<and> c = 0 \<and> r \<noteq> [] \<and> hd r = 1 then Some 0
      else map_option Suc (indexStartCode (b # c # r)))"
| "indexStartCode _ = None"

section \<open>Splitting\<close>

lemma startCodeLen_le: "startCodeLen b \<le> length b"
  by (simp add: startCodeLen_def)

function splitNALUnits :: "bytes \<Rightarrow> bytes list \<times> bytes" where
  "splitNALUnits remaining =
     (if remaining = [] then ([], [])
      else if startCodeLen remaining = 0 then ([], remaining)
      else (case indexStartCode (drop (startCodeLen remaining) remaining) of
              None \<Rightarrow> ([], remaining)
            | Some next \<Rightarrow>
                (let n = startCodeLen remaining + next;
                     (nals, rest) = splitNALUnits (drop n remaining)
                 in (take n remaining # nals, rest))))"
  by pat_completeness auto
termination
  by (relation "measure length") (auto simp: startCodeLen_def split: if_splits)

declare splitNALUnits.simps [simp del]

section \<open>Unit types\<close>

definition nalType :: "bytes \<Rightarrow> 8 word" where
  "nalType nal = (let sc = startCodeLen nal in if sc = 0 \<or> length nal \<le> sc then 0 else nal ! sc AND 0x1F)"

definition isVCL :: "8 word \<Rightarrow> bool" where
  "isVCL t \<longleftrightarrow> 1 \<le> t \<and> t \<le> 5"

definition vclStartsPicture :: "bytes \<Rightarrow> bool" where
  "vclStartsPicture nal =
     (let sc = startCodeLen nal in
      if sc = 0 \<or> length nal \<le> sc + 1 then True else nal ! (sc + 1) AND 0x80 \<noteq> 0)"

definition startsNewAU :: "bytes \<Rightarrow> 8 word \<Rightarrow> bool" where
  "startsNewAU nal t =
     (if t = 6 \<or> t = 7 \<or> t = 8 \<or> t = 9 then True
      else if isVCL t then vclStartsPicture nal
      else False)"

section \<open>The assembler\<close>

record auAssembler =
  au_cur :: "bytes list"
  au_hasVCL :: bool

definition new_assembler :: auAssembler where
  "new_assembler = \<lparr>au_cur = [], au_hasVCL = False\<rparr>"

definition flatten :: "bytes list \<Rightarrow> bytes" where
  "flatten nals = concat nals"

definition au_push :: "bytes \<Rightarrow> auAssembler \<Rightarrow> bytes option \<times> auAssembler" where
  \<comment> \<open>\<open>push\<close>; the first component is the completed unit, \<open>None\<close> for nil\<close>
  "au_push nal a =
     (let t = nalType nal;
          (don, a) = (if au_hasVCL a \<and> startsNewAU nal t
                      then (Some (flatten (au_cur a)), a\<lparr>au_cur := [], au_hasVCL := False\<rparr>)
                      else (None, a));
          a = a\<lparr>au_cur := au_cur a @ [nal]\<rparr>;
          a = (if isVCL t then a\<lparr>au_hasVCL := True\<rparr> else a)
      in (don, a))"

fun push_all :: "bytes list \<Rightarrow> auAssembler \<Rightarrow> bytes list \<times> auAssembler" where
  \<comment> \<open>the inner loop of \<open>Encode\<close>'s reader: the access units it sends\<close>
  "push_all [] a = ([], a)"
| "push_all (nal # nals) a =
     (let (don, a) = au_push nal a; (aus, a) = push_all nals a
      in (case don of None \<Rightarrow> aus | Some au \<Rightarrow> au # aus, a))"

section \<open>Facts about start codes\<close>

lemma startCodeLen_cons [simp]:
  "startCodeLen [] = 0" "startCodeLen [a] = 0" "startCodeLen [a, b] = 0"
  "startCodeLen (a # b # c # r) =
     (if a = 0 \<and> b = 0 \<and> c = 0 \<and> r \<noteq> [] \<and> hd r = 1 then 4
      else if a = 0 \<and> b = 0 \<and> c = 1 then 3 else 0)"
  by (cases r; simp add: startCodeLen_def)+

lemma startCodeLen_append: "startCodeLen b \<noteq> 0 \<Longrightarrow> startCodeLen (b @ later) = startCodeLen b"
  by (cases b rule: indexStartCode.cases) (auto split: if_splits)

lemma indexStartCode_append: "indexStartCode b = Some i \<Longrightarrow> indexStartCode (b @ later) = Some i"
proof (induction b arbitrary: i rule: indexStartCode.induct)
  case (1 a b c r)
  show ?case
  proof (cases "a = 0 \<and> b = 0 \<and> (c = 1 \<or> c = 0 \<and> r \<noteq> [] \<and> hd r = 1)")
    case True
    with 1(2) show ?thesis by (cases r) auto
  next
    case False
    then obtain j where j: "indexStartCode (b # c # r) = Some j" "i = Suc j"
      using 1(2) by (auto split: if_splits)
    have "r \<noteq> []" using j(1) by (cases r) auto
    with False j 1(1) [OF _ _ j(1)] show ?thesis by auto
  qed
qed auto

lemma indexStartCode_at: "indexStartCode b = Some i \<Longrightarrow> i + 3 \<le> length b \<and> startCodeLen (drop i b) \<noteq> 0"
proof (induction b arbitrary: i rule: indexStartCode.induct)
  case (1 a b c r)
  show ?case
  proof (cases "startCodeLen (a # b # c # r) = 0")
    case True
    then have n: "\<not> (a = 0 \<and> b = 0 \<and> c = 1)" "\<not> (a = 0 \<and> b = 0 \<and> c = 0 \<and> r \<noteq> [] \<and> hd r = 1)"
      by (auto split: if_splits)
    with 1(2) obtain j where j: "indexStartCode (b # c # r) = Some j" "i = Suc j" by auto
    with 1(1) [OF n j(1)] show ?thesis by simp
  next
    case False
    then have "i = 0" using 1(2) by (auto split: if_splits)
    with False show ?thesis by simp
  qed
qed auto

lemma indexStartCode_first: "startCodeLen b \<noteq> 0 \<Longrightarrow> indexStartCode b = Some 0"
  by (cases b rule: indexStartCode.cases) (auto split: if_splits)

section \<open>Splitting is lossless and does not depend on the chunks\<close>

definition unit_ok :: "bytes \<Rightarrow> bool" where
  \<comment> \<open>starts with a start code and holds no other\<close>
  "unit_ok nal \<longleftrightarrow> startCodeLen nal \<noteq> 0 \<and> indexStartCode (drop (startCodeLen nal) nal) = None"

lemma split_step:
  assumes "startCodeLen b \<noteq> 0" and "indexStartCode (drop (startCodeLen b) b) = Some next"
  shows "splitNALUnits b =
     (let (nals, rest) = splitNALUnits (drop (startCodeLen b + next) b)
      in (take (startCodeLen b + next) b # nals, rest))"
  using assms by (subst splitNALUnits.simps) (auto simp: Let_def)

lemma split_stop:
  assumes "startCodeLen b = 0 \<or> indexStartCode (drop (startCodeLen b) b) = None"
  shows "splitNALUnits b = ([], b)"
  using assms by (subst splitNALUnits.simps) auto

lemma cut_unit_ok:
  assumes "startCodeLen b \<noteq> 0" and "indexStartCode (drop (startCodeLen b) b) = Some next"
  shows "unit_ok (take (startCodeLen b + next) b)"
proof -
  let ?n = "startCodeLen b" let ?u = "take (?n + next) b"
  have len: "?n + next + 3 \<le> length b"
    using indexStartCode_at [OF assms(2)] startCodeLen_le [of b] by auto
  have split: "b = ?u @ drop (?n + next) b" by simp
  have u: "startCodeLen ?u = ?n"
  proof -
    have "?n = 3 \<or> ?n = 4" using assms(1) by (auto simp: startCodeLen_def split: if_splits)
    then show ?thesis using len by (auto simp: startCodeLen_def split: if_splits)
  qed
  have "indexStartCode (drop ?n ?u) = None"
  proof (rule ccontr)
    assume "\<not> ?thesis"
    then obtain i where i: "indexStartCode (drop ?n ?u) = Some i" by auto
    have "drop ?n b = drop ?n ?u @ drop (?n + next) b"
      using len by (subst split) (simp only: drop_append, simp)
    with indexStartCode_append [OF i] assms(2) have "i = next" by auto
    with indexStartCode_at [OF i] len show False by simp
  qed
  with u assms(1) show ?thesis by (simp add: unit_ok_def)
qed

lemma split_lossless:
  "splitNALUnits b = (nals, rest) \<Longrightarrow>
     concat nals @ rest = b \<and> (\<forall>nal \<in> set nals. unit_ok nal) \<and> (startCodeLen rest = 0 \<or> unit_ok rest)"
proof (induction "length b" arbitrary: b nals rest rule: less_induct)
  case less
  show ?case
  proof (cases "startCodeLen b = 0 \<or> indexStartCode (drop (startCodeLen b) b) = None")
    case True
    with split_stop [OF True] less.prems show ?thesis by (auto simp: unit_ok_def)
  next
    case False
    then obtain next' where nx: "indexStartCode (drop (startCodeLen b) b) = Some next'" by auto
    let ?n = "startCodeLen b + next'"
    obtain ns rs where rec: "splitNALUnits (drop ?n b) = (ns, rs)" by fastforce
    have "length (drop ?n b) < length b"
      using False startCodeLen_le [of b] by auto
    from less.hyps [OF this rec] cut_unit_ok [OF _ nx] False split_step [OF _ nx] rec less.prems
    show ?thesis by (auto simp: Let_def)
  qed
qed

text \<open>The carried-over tail makes the cut independent of where the reads fall.\<close>

lemma split_append:
  "splitNALUnits (a @ b) =
     (let (n1, r1) = splitNALUnits a; (n2, r2) = splitNALUnits (r1 @ b) in (n1 @ n2, r2))"
proof (induction "length a" arbitrary: a rule: less_induct)
  case less
  show ?case
  proof (cases "startCodeLen a = 0 \<or> indexStartCode (drop (startCodeLen a) a) = None")
    case True
    then show ?thesis by (simp add: split_stop)
  next
    case False
    then obtain next' where nx: "indexStartCode (drop (startCodeLen a) a) = Some next'" by auto
    let ?n = "startCodeLen a + next'"
    have len: "?n \<le> length a" using indexStartCode_at [OF nx] startCodeLen_le [of a] by auto
    have sc: "startCodeLen (a @ b) = startCodeLen a" using False startCodeLen_append by blast
    have "indexStartCode (drop (startCodeLen (a @ b)) (a @ b)) = Some next'"
      using indexStartCode_append [OF nx, of b] sc startCodeLen_le [of a] by simp
    from split_step [OF _ this] False sc len
    have ab: "splitNALUnits (a @ b) =
        (let (nals, rest) = splitNALUnits (drop ?n a @ b) in (take ?n a # nals, rest))" by simp
    have "length (drop ?n a) < length a" using False len by auto
    from less [OF this] ab split_step [OF _ nx] False show ?thesis
      by (simp add: Let_def case_prod_unfold)
  qed
qed

section \<open>Access units\<close>

definition au_ok :: "bytes list \<Rightarrow> bool" where
  \<comment> \<open>one picture at most: after the first coded slice nothing starts a new unit\<close>
  "au_ok nals \<longleftrightarrow>
     (\<exists>pre s post. nals = pre @ s # post \<and> (\<forall>n \<in> set pre. \<not> isVCL (nalType n)) \<and> isVCL (nalType s) \<and>
        (\<forall>n \<in> set post. \<not> startsNewAU n (nalType n)))"

definition assembler_inv :: "auAssembler \<Rightarrow> bool" where
  "assembler_inv a \<longleftrightarrow>
     (if au_hasVCL a then au_ok (au_cur a) else \<forall>n \<in> set (au_cur a). \<not> isVCL (nalType n))"

lemma au_push_cases:
  obtains (flush) "au_hasVCL a" "startsNewAU nal (nalType nal)"
      "au_push nal a = (Some (flatten (au_cur a)), \<lparr>au_cur = [nal], au_hasVCL = isVCL (nalType nal)\<rparr>)"
  | (hold) "\<not> (au_hasVCL a \<and> startsNewAU nal (nalType nal))"
      "au_push nal a = (None, \<lparr>au_cur = au_cur a @ [nal], au_hasVCL = (au_hasVCL a \<or> isVCL (nalType nal))\<rparr>)"
  by (cases "au_hasVCL a \<and> startsNewAU nal (nalType nal)"; cases a) (auto simp: au_push_def Let_def)

lemma au_ok_single: "isVCL (nalType n) \<Longrightarrow> \<forall>m \<in> set pre. \<not> isVCL (nalType m) \<Longrightarrow> au_ok (pre @ [n])"
  unfolding au_ok_def by (rule exI [of _ pre], rule exI [of _ n], rule exI [of _ "[]"]) simp

lemma au_ok_snoc:
  assumes "au_ok nals" and "\<not> startsNewAU n (nalType n)"
  shows "au_ok (nals @ [n])"
proof -
  obtain pre s post where "nals = pre @ s # post" "\<forall>n \<in> set pre. \<not> isVCL (nalType n)" "isVCL (nalType s)"
    "\<forall>n \<in> set post. \<not> startsNewAU n (nalType n)"
    using assms(1) by (auto simp: au_ok_def)
  then show ?thesis
    using assms(2) unfolding au_ok_def
    by - (rule exI [of _ pre], rule exI [of _ s], rule exI [of _ "post @ [n]"], auto)
qed

lemma au_push_inv:
  assumes "assembler_inv a" and "au_push nal a = (don, a')"
  shows "assembler_inv a' \<and> (\<forall>au. don = Some au \<longrightarrow> au = flatten (au_cur a) \<and> au_ok (au_cur a) \<and> au_cur a' = [nal]) \<and>
     (don = None \<longrightarrow> au_cur a' = au_cur a @ [nal])"
proof (cases rule: au_push_cases [of a nal])
  case flush
  with assms au_ok_single [of nal "[]"] show ?thesis by (auto simp: assembler_inv_def)
next
  case hold
  with assms au_ok_snoc [of "au_cur a" nal] au_ok_single [of nal "au_cur a"] show ?thesis
    by (cases "au_hasVCL a") (auto simp: assembler_inv_def)
qed

lemma push_all_inv:
  assumes "assembler_inv a" and "push_all nals a = (aus, a')"
  shows "assembler_inv a' \<and>
     (\<exists>groups. aus = map flatten groups \<and> (\<forall>g \<in> set groups. au_ok g) \<and> concat groups @ au_cur a' = au_cur a @ nals)"
  using assms
proof (induction nals arbitrary: a aus)
  case (Cons nal nals)
  obtain don x where p: "au_push nal a = (don, x)" by fastforce
  obtain rest where r: "push_all nals x = (rest, a')" "aus = (case don of None \<Rightarrow> rest | Some au \<Rightarrow> au # rest)"
    using Cons.prems(2) p by (auto simp: Let_def split: prod.splits)
  note inv = au_push_inv [OF Cons.prems(1) p]
  then obtain gs where gs: "rest = map flatten gs" "\<forall>g \<in> set gs. au_ok g" "concat gs @ au_cur a' = au_cur x @ nals"
    and a': "assembler_inv a'"
    using Cons.IH [of x rest] r(1) by blast
  show ?case
  proof (cases don)
    case None
    with inv gs a' r show ?thesis by (intro conjI exI [of _ gs]) auto
  next
    case (Some au)
    with inv gs a' r show ?thesis by (intro conjI exI [of _ "au_cur a # gs"]) auto
  qed
qed simp

section \<open>The reader of Encode\<close>

text \<open>
  Each read appends to the buffer, cuts off the complete units and pushes them; the result
  is the access units sent, in order.
\<close>

fun encode_reads :: "bytes list \<Rightarrow> bytes \<times> auAssembler \<Rightarrow> bytes list \<times> (bytes \<times> auAssembler)" where
  "encode_reads [] s = ([], s)"
| "encode_reads (chunk # chunks) (buf, a) =
     (let (nals, buf) = splitNALUnits (buf @ chunk);
          (aus, a) = push_all nals a;
          (aus', s) = encode_reads chunks (buf, a)
      in (aus @ aus', s))"

lemma push_all_append:
  "push_all (xs @ ys) a = (let (p, b) = push_all xs a; (q, c) = push_all ys b in (p @ q, c))"
  by (induction xs arbitrary: a) (auto simp: Let_def case_prod_unfold split: option.split)

lemma reads_as_one:
  assumes "splitNALUnits buf = ([], buf)"
  shows "encode_reads chunks (buf, a) =
     (let (nals, rest) = splitNALUnits (buf @ concat chunks); (aus, a') = push_all nals a in (aus, (rest, a')))"
  using assms
proof (induction chunks arbitrary: buf a)
  case (Cons chunk chunks)
  obtain nals b where s: "splitNALUnits (buf @ chunk) = (nals, b)" by fastforce
  obtain aus x where p: "push_all nals a = (aus, x)" by fastforce
  have "splitNALUnits b = ([], b)"
    using split_append [of "buf @ chunk" "[]"] s by (auto simp: case_prod_unfold Let_def prod_eq_iff)
  from Cons.IH [OF this, of x] s p split_append [of "buf @ chunk" "concat chunks"] push_all_append
  show ?case by (simp add: Let_def case_prod_unfold)
qed (simp add: Let_def)

section \<open>Properties\<close>

text \<open>
  C21: the encoder's access units do not depend on how the pipe was read.  Whatever the
  chunks ffmpeg's output arrives in, the reader sends the access units it would send had
  the whole output come in one read.
\<close>

theorem access_units_chunk_invariant:
  "fst (encode_reads chunks ([], new_assembler)) = fst (encode_reads [concat chunks] ([], new_assembler))"
proof -
  have "splitNALUnits [] = ([], [])" by (simp add: splitNALUnits.simps)
  from reads_as_one [OF this, of chunks] reads_as_one [OF this, of "[concat chunks]"] show ?thesis by simp
qed

lemma assembler_inv_new: "assembler_inv new_assembler"
  by (simp add: assembler_inv_def new_assembler_def)


text \<open>Two pictures, the second of two slices, in chunks that tear a start code.\<close>

definition demo_stream :: "bytes list" where
  "demo_stream = [[0, 0, 0, 1, 0x67, 7, 0, 0], [0, 1, 0x65, 0x80, 9, 0], [0, 1, 0x41, 0x80, 5, 0, 0, 1, 0x41, 0x10],
     [0, 0, 0, 1, 0x41, 0x80]]"


end
