(* ===== verification/Encoder.thy ===== *)
theory Encoder
  imports Nal Backend Go_Strings
begin

text \<open>
  \<open>internal/encoder/ffmpeg.go\<close>: what is asked of ffmpeg, when \<open>Encode\<close> refuses, and the
  durations it stamps on frames.  The number formatting of \<open>strconv.FormatFloat\<close> is the
  argument \<open>ff\<close>; whether this is macOS is \<open>darwin\<close>.  The reader loop is
  \<open>encode_reads\<close> of \<open>Nal\<close>.
\<close>

section \<open>The command\<close>

definition encoderName :: "bool \<Rightarrow> string" where
  "encoderName darwin = (if darwin then ''h264_videotoolbox'' else ''libx264'')"

text \<open>\<open>Available\<close>: \<open>look\<close> is \<open>exec.LookPath\<close>, \<open>run\<close> the output of \<open>ffmpeg -encoders\<close>.\<close>

definition Available :: "bool \<Rightarrow> string + string \<Rightarrow> string + string \<Rightarrow> string option" where
  "Available darwin look run =
     (case look of
        Inl e \<Rightarrow> Some (''ffmpeg not found in PATH (try: brew install ffmpeg): '' @ e)
      | Inr path \<Rightarrow>
          (case run of
             Inl e \<Rightarrow> Some (''ffmpeg -encoders: '' @ e)
           | Inr out \<Rightarrow>
               if \<not> contains (encoderName darwin) out
               then Some (''ffmpeg has no '' @ encoderName darwin @ '' encoder'')
               else None))"

definition ffmpegArgs :: "(rat \<Rightarrow> string) \<Rightarrow> bool \<Rightarrow> int \<Rightarrow> rat \<Rightarrow> int \<Rightarrow> string list" where
  "ffmpegArgs ff darwin fps scale bitrate =
     [''-hide_banner'', ''-loglevel'', ''warning'',
      ''-fflags'', ''nobuffer'', ''-flags'', ''low_delay'', ''-analyzeduration'', ''0'',
      ''-threads'', ''1'',
      ''-f'', ''image2pipe'', ''-vcodec'', ''png'', ''-framerate'', itoa fps, ''-i'', ''pipe:0'',
      ''-an''] @
     (if scale \<noteq> 1 then [''-vf'', ''scale=trunc(iw*'' @ ff scale @ ''/2)*2:-2''] else []) @
     [''-c:v'', encoderName darwin] @
     (if encoderName darwin = ''h264_videotoolbox'' then [''-realtime'', ''1'']
      else [''-preset'', ''ultrafast'', ''-tune'', ''zerolatency'']) @
     [''-profile:v'', ''baseline'',
      ''-g'', itoa (fps * 2), ''-b:v'', itoa bitrate, ''-pix_fmt'', ''yuv420p'',
      ''-flush_packets'', ''1'', ''-max_delay'', ''0'', ''-f'', ''h264'', ''pipe:1'']"

text \<open>
  The start of \<open>Encode\<close>: a refusal, or the command line it spawns.  \<open>startErr\<close> is the error of
  opening the pipes or starting the process, if any.
\<close>

definition Encode_start ::
  "(rat \<Rightarrow> string) \<Rightarrow> bool \<Rightarrow> string option \<Rightarrow> int \<Rightarrow> rat \<Rightarrow> int \<Rightarrow> string + string list" where
  "Encode_start ff darwin startErr fps scale bitrate =
     (if scale \<le> 0 \<or> scale > 1 then Inl (''encode: scale '' @ ff scale @ '' out of range (0,1]'')
      else if bitrate \<le> 0 then Inl (''encode: bitrate '' @ itoa bitrate @ '' must be positive'')
      else (case startErr of
              Some e \<Rightarrow> Inl e
            | None \<Rightarrow> Inr (''ffmpeg'' # ffmpegArgs ff darwin fps scale bitrate)))"

text \<open>
  A resolved quality always encodes.  Whatever a client asked for, the quality a backend
  resolves it to passes the encoder's precondition, and the command line carries that
  bitrate, a scaler exactly when the scale is not 1, and a keyframe every two seconds.
\<close>

theorem resolved_quality_encodes:
  "\<exists>args. Encode_start ff darwin None fps (q_scale (Resolve d q)) (q_bitrate (Resolve d q)) = Inr (''ffmpeg'' # args) \<and>
     [''-b:v'', itoa (q_bitrate (Resolve d q))] = take 2 (drop (length args - 11) args) \<and>
     [''-g'', itoa (fps * 2)] = take 2 (drop (length args - 13) args) \<and>
     (args ! 20 = ''-vf'' \<longleftrightarrow> q_scale (Resolve d q) \<noteq> 1)"
proof -
  have r: "quality_in_range (Resolve d q)" by (rule Resolve_in_range)
  then have ok: "\<not> (q_scale (Resolve d q) \<le> 0 \<or> q_scale (Resolve d q) > 1)" "\<not> q_bitrate (Resolve d q) \<le> 0"
    by (auto simp: quality_in_range_def quality_bounds)
  show ?thesis
    by (rule exI [of _ "ffmpegArgs ff darwin fps (q_scale (Resolve d q)) (q_bitrate (Resolve d q))"])
      (use ok in \<open>simp add: Encode_start_def ffmpegArgs_def encoderName_def\<close>)
qed

text \<open>
  The log that \<open>SIMBEAM_ENCODER_STATS\<close> asks for, a line a second: the frames given to ffmpeg
  and those that came out, at each tick before the context is done.
\<close>

definition encode_stats :: "bool \<Rightarrow> (nat \<times> nat) list \<Rightarrow> string list" where
  "encode_stats encodeStats ticks =
     (if encodeStats
      then map (\<lambda>(i, out). ''encoder: stats in='' @ itoa (int i) @ '' out='' @ itoa (int out) @
                    '' in-flight='' @ itoa (int i - int out)) ticks
      else [])"

section \<open>Frame durations\<close>

record frameTimer =
  ft_nominal :: duration
  ft_last :: gotime

definition frame_next :: "gotime \<Rightarrow> frameTimer \<Rightarrow> duration \<times> frameTimer" where
  "frame_next now t =
     (let d = (if ft_last t \<noteq> 0
               then (if now - ft_last t < millisecond then millisecond else now - ft_last t)
               else ft_nominal t)
      in (d, t\<lparr>ft_last := now\<rparr>))"

definition new_frameTimer :: "int \<Rightarrow> frameTimer" where
  "new_frameTimer fps = \<lparr>ft_nominal = second div fps, ft_last = 0\<rparr>"

fun frame_durations :: "gotime list \<Rightarrow> frameTimer \<Rightarrow> duration list" where
  "frame_durations [] t = []"
| "frame_durations (now # nows) t = (let (d, t) = frame_next now t in d # frame_durations nows t)"

fun gaps :: "int list \<Rightarrow> int list" where
  "gaps (a # b # r) = (b - a) # gaps (b # r)"
| "gaps _ = []"

lemma durations_are_gaps:
  "0 \<notin> set (prev # nows) \<Longrightarrow>
     frame_durations nows \<lparr>ft_nominal = n, ft_last = prev\<rparr> = map (max millisecond) (gaps (prev # nows))"
proof (induction nows arbitrary: prev)
  case (Cons now nows)
  have "frame_next now \<lparr>ft_nominal = n, ft_last = prev\<rparr> = (max millisecond (now - prev), \<lparr>ft_nominal = n, ft_last = now\<rparr>)"
    using Cons.prems by (auto simp: frame_next_def Let_def max_def)
  with Cons.IH [of now] Cons.prems show ?case by simp
qed simp

lemma sum_gaps: "sum_list (gaps (a # xs)) = last (a # xs) - a"
  by (induction xs arbitrary: a) auto

lemma sum_max_ge: "sum_list xs \<le> sum_list (map (max (m::int)) xs)"
  by (induction xs) auto

text \<open>
  The RTP clock never runs behind and never stands still.  For frames emitted at the
  instants \<open>t # ts\<close>, the first lasts the nominal frame time and every later one the gap to
  its predecessor, at least a millisecond; so the clock advances by at least the time that
  passed, and by exactly that when no two frames are closer than a millisecond.
\<close>

theorem frame_clock:
  assumes "0 \<notin> set (t # ts)"
  shows "let ds = frame_durations (t # ts) (new_frameTimer fps) in
     hd ds = second div fps \<and> (\<forall>d \<in> set (tl ds). millisecond \<le> d) \<and>
     last (t # ts) - t \<le> sum_list (tl ds) \<and>
     ((\<forall>g \<in> set (gaps (t # ts)). millisecond \<le> g) \<longrightarrow> sum_list (tl ds) = last (t # ts) - t)"
proof -
  have ds: "frame_durations (t # ts) (new_frameTimer fps) = second div fps # map (max millisecond) (gaps (t # ts))"
    using durations_are_gaps [OF assms, of "second div fps"]
    by (simp add: new_frameTimer_def frame_next_def)
  have "map (max millisecond) (gaps (t # ts)) = gaps (t # ts)" if "\<forall>g \<in> set (gaps (t # ts)). millisecond \<le> g"
    using that by (intro map_idI) auto
  then show ?thesis
    using sum_gaps [of t ts] sum_max_ge [of "gaps (t # ts)" millisecond] unfolding ds Let_def by auto
qed

theorem frame_clock_witness:
  "sum_list (tl (frame_durations [5, 70000005, 70000006] (new_frameTimer 15))) = 71000000 \<and>
   hd (frame_durations [5, 70000005, 70000006] (new_frameTimer 15)) = 66666666"
  using frame_clock [of 5 "[70000005, 70000006]" 15]
  by (simp add: Let_def new_frameTimer_def frame_next_def time_units)

end
