(* ===== verification/Keymap.thy ===== *)
theory Keymap
  imports Go_Strings
begin

text \<open>
  \<open>internal/backend/sim/keymap.go\<close>: the table from a browser's \<open>KeyboardEvent.key\<close> to a USB
  HID usage code and a shift flag, built entry by entry as \<open>init\<close> does.
\<close>

definition letter_keys :: "char \<Rightarrow> bool \<Rightarrow> (string \<times> nat \<times> bool) list" where
  \<comment> \<open>the 26 letters from \<open>first\<close>, on usages 4 to 29\<close>
  "letter_keys first shift = map (\<lambda>i. ([char_of (of_char first + i)], 4 + i, shift)) [0..<26]"

definition digit_keys :: "(string \<times> nat \<times> bool) list" where
  "digit_keys = map (\<lambda>i. ([char_of (of_char CHR ''0'' + i)], 29 + i, False)) [1..<10] @ [(''0'', 39, False)]"

definition symbol_keys :: "(string \<times> nat \<times> bool) list" where
  "symbol_keys =
    [(''!'', 30, True), (''@'', 31, True), (''#'', 32, True), (''$'', 33, True), (''%'', 34, True),
     (''^'', 35, True), (''&'', 36, True), (''*'', 37, True), (''('', 38, True), ('')'', 39, True),
     (''-'', 45, False), (''='', 46, False), (''['', 47, False), ('']'', 48, False),
     ([CHR 0x5C], 49, False), ('';'', 51, False), ([CHR 0x27], 52, False), ([CHR 0x60], 53, False),
     ('','', 54, False), (''.'', 55, False), (''/'', 56, False), ('' '', 44, False),
     (''_'', 45, True), (''+'', 46, True), (''{'', 47, True), (''}'', 48, True), (''|'', 49, True),
     ('':'', 51, True), ([CHR 0x22], 52, True), (''~'', 53, True), (''<'', 54, True), (''>'', 55, True),
     (''?'', 56, True)]"

definition named_keys :: "(string \<times> nat \<times> bool) list" where
  "named_keys =
    [(''Enter'', 40, False), (''Escape'', 41, False), (''Backspace'', 42, False), (''Tab'', 43, False),
     (''Delete'', 76, False), (''ArrowRight'', 79, False), (''ArrowLeft'', 80, False),
     (''ArrowDown'', 81, False), (''ArrowUp'', 82, False)]"

definition key_entries :: "(string \<times> nat \<times> bool) list" where
  "key_entries =
     letter_keys CHR ''a'' False @ letter_keys CHR ''A'' True @ digit_keys @ symbol_keys @ named_keys"

definition keyTable :: "string \<rightharpoonup> nat \<times> bool" where
  \<comment> \<open>a later \<open>add\<close> of the same key would overwrite\<close>
  "keyTable = map_of (rev key_entries)"

definition keyUsage :: "string \<Rightarrow> nat \<times> bool \<times> bool" where
  "keyUsage key = (case keyTable key of None \<Rightarrow> (0, False, False) | Some (usage, shift) \<Rightarrow> (usage, shift, True))"

section \<open>Facts\<close>

lemmas key_defs = key_entries_def letter_keys_def digit_keys_def symbol_keys_def named_keys_def

lemma key_entries_distinct: "distinct (map fst key_entries) \<and> distinct (map snd key_entries)"
  by (simp add: key_defs upt_conv_Cons char_of_def of_char_def bit_0)

lemma map_of_rev: "distinct (map fst xs) \<Longrightarrow> map_of (rev xs) k = Some v \<longleftrightarrow> (k, v) \<in> set xs"
  by (metis distinct_rev map_of_eq_Some_iff rev_map set_rev)

lemma keyTable_iff: "keyTable k = Some e \<longleftrightarrow> (k, e) \<in> set key_entries"
  using key_entries_distinct by (simp add: keyTable_def map_of_rev)

text \<open>
  No two keys press the same combination.  Two keys the table knows with the same usage
  code and shift flag are the same key, so nothing a client types is mistaken for
  something else.
\<close>

theorem keyUsage_injective:
  assumes "keyUsage k = (u, s, True)" and "keyUsage k' = (u, s, True)"
  shows "k = k'"
proof -
  have "(k, u, s) \<in> set key_entries" "(k', u, s) \<in> set key_entries"
    using assms keyTable_iff by (auto simp: keyUsage_def split: option.splits prod.splits)
  with key_entries_distinct show ?thesis
    by (metis (no_types, lifting) distinct_map fst_conv inj_onD snd_conv)
qed

theorem keyUsage_injective_witness:
  "keyUsage ''A'' = (4, True, True) \<and> {k. keyUsage k = (4, True, True)} = {''A''}"
proof -
  have a: "keyUsage ''A'' = (4, True, True)" by code_simp
  with keyUsage_injective [OF _ a] show ?thesis by blast
qed

lemma keyUsage_entry: "(k, u, s) \<in> set key_entries \<Longrightarrow> keyUsage k = (u, s, True)"
  by (simp add: keyUsage_def keyTable_iff [THEN iffD2])

definition printable :: "string" where "printable = map char_of [32..<127::nat]"

definition shifted :: string where
  "shifted = ''ABCDEFGHIJKLMNOPQRSTUVWXYZ!@#$%^&*()_+{}|:~<>?'' @ [CHR 0x22]"

definition types_right :: "char \<times> nat \<times> bool \<Rightarrow> bool" where
  "types_right e = (case e of (c, u, s) \<Rightarrow> 4 \<le> u \<and> u \<le> 56 \<and> (s \<longleftrightarrow> c \<in> set shifted))"

definition char_entries :: "(char \<times> nat \<times> bool) list" where
  "char_entries = map (\<lambda>(k, e). (hd k, e)) (filter (\<lambda>(k, e). length k = 1) key_entries)"

lemma char_entries_right: "list_all types_right char_entries \<and> set printable \<subseteq> fst ` set char_entries"
  by (simp add: types_right_def char_entries_def key_defs upt_conv_Cons char_of_def of_char_def bit_0
      printable_def shifted_def)

lemma keyUsage_char: "(c, u, s) \<in> set char_entries \<Longrightarrow> keyUsage [c] = (u, s, True)"
proof -
  assume "(c, u, s) \<in> set char_entries"
  then obtain k where "(k, u, s) \<in> set key_entries" "length k = 1" "hd k = c" by (auto simp: char_entries_def)
  then show ?thesis using keyUsage_entry by (cases k) auto
qed

text \<open>
  Every printable ASCII character can be typed, with a usage code of the keyboard page
  between 4 and 56, and exactly the shifted characters of a US layout ask for shift.
\<close>

theorem printable_keys_type:
  "list_all (\<lambda>c. case keyUsage [c] of (u, s, ok) \<Rightarrow> ok \<and> 4 \<le> u \<and> u \<le> 56 \<and> (s \<longleftrightarrow> c \<in> set shifted)) printable"
proof -
  have "case keyUsage [c] of (u, s, ok) \<Rightarrow> ok \<and> 4 \<le> u \<and> u \<le> 56 \<and> (s \<longleftrightarrow> c \<in> set shifted)" if "c \<in> set printable" for c
  proof -
    from that char_entries_right have "c \<in> fst ` set char_entries" by blast
    then obtain u s where e: "(c, u, s) \<in> set char_entries" by auto
    then have "types_right (c, u, s)" using char_entries_right by (simp add: list_all_iff)
    with keyUsage_char [OF e] show ?thesis by (simp add: types_right_def)
  qed
  then show ?thesis by (simp add: list_all_iff)
qed

end
