(* ===== verification/Sim_Control.thy ===== *)
theory Sim_Control
  imports Dispatch Nal Keymap
begin

text \<open>
  \<open>internal/backend/sim/control.go\<close>: one \<open>simbeam-control\<close> process per feed.  The preflight
  of its protocol version, the command line, the start-up (handshake, typed failure, exit,
  timeout or cancel), and the framed video on its stdout.  \<open>json.Unmarshal\<close> into a
  \<open>controlEvent\<close> is the argument \<open>unmarshal\<close>; \<open>strconv.FormatFloat\<close> is \<open>ff\<close>.  What the
  helper prints is arbitrary.
\<close>

section \<open>Constants and preflight\<close>

definition controlFPS :: int where "controlFPS = 30"
definition controlKeyframeMs :: int where "controlKeyframeMs = 1000"
definition requiredControlProtocol :: int where "requiredControlProtocol = 3"
definition controlStartupTimeout :: duration where "controlStartupTimeout = 20 * second"
definition controlHandshakeTimeout :: duration where "controlHandshakeTimeout = 25 * second"

text \<open>
  Whoever's clock fires first owns the outcome, and it is the helper's: its own bound is
  shorter than the wait for the handshake, which is shorter than the attach timeout.
\<close>

theorem startup_deadlines_nest:
  "0 < controlStartupTimeout \<and> controlStartupTimeout < controlHandshakeTimeout \<and>
   controlHandshakeTimeout < AttachTimeout"
  by (simp add: controlStartupTimeout_def controlHandshakeTimeout_def AttachTimeout_def time_units)

definition controlProtocol :: "string \<Rightarrow> bool \<Rightarrow> int" where
  \<comment> \<open>the output of \<open>--protocol\<close> and whether running it failed\<close>
  "controlProtocol out failed =
     (if failed then 1
      else case atoi (trim_space out) of
             None \<Rightarrow> 1
           | Some v \<Rightarrow> if v < 1 then 1 else v)"

definition CheckControlProtocol :: "string \<Rightarrow> string option \<Rightarrow> string \<Rightarrow> bool \<Rightarrow> string option" where
  \<comment> \<open>\<open>resolved\<close> is \<open>filepath.EvalSymlinks bin\<close>\<close>
  "CheckControlProtocol bin resolved out failed =
     (let v = controlProtocol out failed in
      if v < requiredControlProtocol then
        (let hint = (case resolved of
                       None \<Rightarrow> ''simbeamd update''
                     | Some r \<Rightarrow>
                         if contains ''/Caskroom/'' r \<or> contains ''/Cellar/'' r
                         then ''brew upgrade simbeam-control'' else ''simbeamd update'')
         in Some (''simbeam-control at '' @ bin @ '' speaks control protocol '' @ itoa v @
                  '', this simbeamd needs >= '' @ itoa requiredControlProtocol @
                  [CHR 0x20, CHR 0xE2, CHR 0x80, CHR 0x94, CHR 0x20] @ ''update it with `'' @ hint @ ''`''))
      else None)"

text \<open>
  Only a helper that says 3 or more passes the preflight.  The check passes exactly if
  the command ran and printed, up to surrounding space, an integer of at least 3; a helper
  that does not know the flag, or prints anything else, counts as protocol 1.
\<close>

theorem preflight_exact:
  "CheckControlProtocol bin resolved out failed = None \<longleftrightarrow>
     \<not> failed \<and> (\<exists>v. atoi (trim_space out) = Some v \<and> 3 \<le> v)"
  by (auto simp: CheckControlProtocol_def controlProtocol_def requiredControlProtocol_def Let_def
      split: option.splits)

definition control_args :: "(rat \<Rightarrow> string) \<Rightarrow> string \<Rightarrow> QualityOpts \<Rightarrow> string list" where
  "control_args ff udid q =
     [''--udid'', udid, ''--fps'', itoa controlFPS, ''--keyframe-interval-ms'', itoa controlKeyframeMs,
      ''--bitrate'', itoa (q_bitrate q), ''--scale'', ff (q_scale q),
      ''--startup-timeout-ms'', itoa (controlStartupTimeout div millisecond)]"

section \<open>Lines on stderr\<close>

record controlEvent =
  ev_Ready :: "bool option"
  ev_Error :: string
  ev_Message :: string
  ev_Retryable :: bool
  ev_Width :: rat
  ev_Height :: rat
  ev_Scale :: rat
  ev_EncodedWidth :: nat
  ev_EncodedHeight :: nat

record controlDims =
  widthPoints :: rat
  heightPoints :: rat
  pixelW :: nat
  pixelH :: nat

definition parseControlEvent :: "(string \<Rightarrow> controlEvent option) \<Rightarrow> string \<Rightarrow> controlEvent option" where
  "parseControlEvent unmarshal line =
     (let line = trim_space line in if \<not> has_prefix ''{'' line then None else unmarshal line)"

definition round_half_away :: "rat \<Rightarrow> int" where
  \<comment> \<open>\<open>math.Round\<close>\<close>
  "round_half_away x = (if x < 0 then - \<lfloor>1 / 2 - x\<rfloor> else \<lfloor>x + 1 / 2\<rfloor>)"

definition event_dims :: "controlEvent \<Rightarrow> controlDims" where
  "event_dims e =
     (if ev_Scale e > 0
      then \<lparr>widthPoints = ev_Width e, heightPoints = ev_Height e,
            pixelW = nat (round_half_away (ev_Width e * ev_Scale e)),
            pixelH = nat (round_half_away (ev_Height e * ev_Scale e))\<rparr>
      else \<lparr>widthPoints = ev_Width e, heightPoints = ev_Height e,
            pixelW = ev_EncodedWidth e, pixelH = ev_EncodedHeight e\<rparr>)"

definition event_attachError :: "string \<Rightarrow> controlEvent \<Rightarrow> go_error" where
  "event_attachError udid e =
     (let msg = (if ev_Message e = [] then ''simbeam-control startup failed'' else ev_Message e)
      in AttachError (ev_Error e) (udid @ '': '' @ msg) (ev_Retryable e))"

text \<open>The stderr goroutine: what it has put in its channels and variables.\<close>

record control_reader =
  rdr_ready :: "controlDims option"
  rdr_failed :: "go_error option"
  rdr_dims :: "controlDims option"
  rdr_lastLine :: string

definition new_reader :: control_reader where
  "new_reader = \<lparr>rdr_ready = None, rdr_failed = None, rdr_dims = None, rdr_lastLine = []\<rparr>"

definition reader_line ::
  "(string \<Rightarrow> controlEvent option) \<Rightarrow> string \<Rightarrow> string \<Rightarrow> control_reader \<Rightarrow> control_reader" where
  "reader_line unmarshal udid line r =
     (case parseControlEvent unmarshal line of
        None \<Rightarrow> r\<lparr>rdr_lastLine := line\<rparr>
      | Some e \<Rightarrow>
          (case ev_Ready e of
             None \<Rightarrow> r
           | Some True \<Rightarrow>
               r\<lparr>rdr_dims := Some (event_dims e),
                 rdr_ready := (case rdr_ready r of None \<Rightarrow> Some (event_dims e) | Some d \<Rightarrow> Some d)\<rparr>
           | Some False \<Rightarrow>
               r\<lparr>rdr_failed := (case rdr_failed r of None \<Rightarrow> Some (event_attachError udid e) | Some x \<Rightarrow> Some x)\<rparr>))"

definition reader_lines ::
  "(string \<Rightarrow> controlEvent option) \<Rightarrow> string \<Rightarrow> string list \<Rightarrow> control_reader \<Rightarrow> control_reader" where
  "reader_lines unmarshal udid lines r = fold (reader_line unmarshal udid) lines r"

section \<open>Waiting for the handshake\<close>

text \<open>
  What \<open>newControl\<close>'s \<open>select\<close> finds when it runs: the lines read so far, whether the
  stream has ended, whether the timer fired, whether the context is cancelled, and whether
  it is by the time the process has been reaped.  Of several ready cases Go picks any, so
  the result is a list of the possible outcomes; while none is ready the \<open>select\<close> waits.
\<close>

record startup =
  su_startErr :: "string option"   \<comment> \<open>opening the pipes or starting the process failed\<close>
  su_lines :: "string list"
  su_eof :: bool
  su_timeout :: bool
  su_cancelled :: bool
  su_cancelled_later :: bool

definition ctx_error :: go_error where "ctx_error = OtherError ''context canceled''"

definition exit_error :: "string \<Rightarrow> string \<Rightarrow> go_error" where
  "exit_error udid lastLine =
     OtherError (''simbeam-control '' @ udid @ '' exited before handshake'' @
       (if lastLine \<noteq> [] then '': '' @ lastLine else []))"

definition timeout_error :: "string \<Rightarrow> go_error" where
  "timeout_error udid = OtherError (''simbeam-control '' @ udid @ '': no handshake within 25s'')"

definition newControl_results ::
  "(string \<Rightarrow> controlEvent option) \<Rightarrow> string \<Rightarrow> startup \<Rightarrow> (go_error + controlDims) list" where
  "newControl_results unmarshal udid su =
     (case su_startErr su of
        Some e \<Rightarrow> [Inl (OtherError e)]
      | None \<Rightarrow>
     (let r = reader_lines unmarshal udid (su_lines su) new_reader in
      (case rdr_ready r of None \<Rightarrow> [] | Some d \<Rightarrow> [Inr d]) @
      (case rdr_failed r of None \<Rightarrow> [] | Some e \<Rightarrow> [Inl e]) @
      (if su_eof su then
         [case rdr_failed r of
            Some e \<Rightarrow> Inl e
          | None \<Rightarrow>
              if su_cancelled su \<or> su_cancelled_later su then Inl ctx_error
              else Inl (exit_error udid (rdr_lastLine r))]
       else []) @
      (if su_timeout su then [Inl (timeout_error udid)] else []) @
      (if su_cancelled su then [Inl ctx_error] else [])))"

definition says_ready :: "(string \<Rightarrow> controlEvent option) \<Rightarrow> bool \<Rightarrow> string \<Rightarrow> bool" where
  "says_ready unmarshal b line \<longleftrightarrow> (\<exists>e. parseControlEvent unmarshal line = Some e \<and> ev_Ready e = Some b)"

definition plain_line :: "(string \<Rightarrow> controlEvent option) \<Rightarrow> string \<Rightarrow> bool" where
  "plain_line unmarshal line \<longleftrightarrow> parseControlEvent unmarshal line = None"

lemma reader_no_ready:
  "\<forall>l \<in> set lines. \<not> says_ready unmarshal True l \<Longrightarrow>
     rdr_ready (reader_lines unmarshal udid lines r) = rdr_ready r"
  by (induction lines arbitrary: r)
    (auto simp: reader_lines_def reader_line_def says_ready_def split: option.splits bool.splits)

lemma reader_no_failed:
  "\<forall>l \<in> set lines. \<not> says_ready unmarshal False l \<Longrightarrow>
     rdr_failed (reader_lines unmarshal udid lines r) = rdr_failed r"
  by (induction lines arbitrary: r)
    (auto simp: reader_lines_def reader_line_def says_ready_def split: option.splits bool.splits)

lemma reader_keeps_failed:
  "rdr_failed r = Some x \<Longrightarrow> rdr_failed (reader_lines unmarshal udid lines r) = Some x"
  by (induction lines arbitrary: r)
    (auto simp: reader_lines_def reader_line_def split: option.splits bool.splits)

lemma reader_append:
  "reader_lines unmarshal udid (xs @ ys) r = reader_lines unmarshal udid ys (reader_lines unmarshal udid xs r)"
  by (simp add: reader_lines_def)

lemma reader_last:
  "rdr_lastLine (reader_lines unmarshal udid lines r) =
     (if filter (plain_line unmarshal) lines = [] then rdr_lastLine r else last (filter (plain_line unmarshal) lines))"
  by (induction lines arbitrary: r)
    (auto simp: reader_lines_def reader_line_def plain_line_def split: option.splits bool.splits)


text \<open>
  Without handshake or envelope the exit is blamed on the last log line, or on nobody.
  If no line settled the start-up, the process's end is reported with its last plain-text
  line, never with a JSON notice; and if the context was cancelled by the time it was
  reaped, the outcome is the cancellation and not a failure of the helper.
\<close>

theorem unsettled_exit:
  assumes "\<forall>l \<in> set (su_lines su). \<not> says_ready unmarshal True l \<and> \<not> says_ready unmarshal False l"
    and "su_eof su" and "\<not> su_timeout su" and "su_cancelled su \<longrightarrow> su_cancelled_later su"
    and "su_startErr su = None"
  shows "set (newControl_results unmarshal udid su) =
     {Inl (if su_cancelled_later su then ctx_error
           else exit_error udid
             (let logs = filter (plain_line unmarshal) (su_lines su) in if logs = [] then [] else last logs))}"
proof -
  let ?r = "reader_lines unmarshal udid (su_lines su) new_reader"
  have "rdr_ready ?r = None" "rdr_failed ?r = None"
    using reader_no_ready [of "su_lines su" unmarshal udid new_reader]
      reader_no_failed [of "su_lines su" unmarshal udid new_reader] assms(1)
    by (simp_all add: new_reader_def)
  with assms(2-5) show ?thesis
    by (auto simp: newControl_results_def Let_def reader_last new_reader_def)
qed

text \<open>A decoder for the instances: the waiting notice, and one failure envelope.\<close>

definition no_event :: controlEvent where
  "no_event = \<lparr>ev_Ready = None, ev_Error = [], ev_Message = [], ev_Retryable = False, ev_Width = 0,
     ev_Height = 0, ev_Scale = 0, ev_EncodedWidth = 0, ev_EncodedHeight = 0\<rparr>"

definition demo_unmarshal :: "string \<Rightarrow> controlEvent option" where
  "demo_unmarshal line =
     (if line = ''{w}'' then Some no_event
      else if line = ''{f}'' then
        Some (no_event\<lparr>ev_Ready := Some False, ev_Error := ''display_not_ready'', ev_Message := ''m''\<rparr>)
      else None)"

definition startup_failed :: startup where
  "startup_failed = \<lparr>su_startErr = None, su_lines = [''{w}'', ''log'', ''{f}'', ''bye''], su_eof = True, su_timeout = False,
     su_cancelled = False, su_cancelled_later = False\<rparr>"

definition startup_died :: startup where
  "startup_died = \<lparr>su_startErr = None, su_lines = [''log'', ''{w}''], su_eof = True, su_timeout = False,
     su_cancelled = False, su_cancelled_later = False\<rparr>"

lemma demo_parse:
  "parseControlEvent demo_unmarshal ''{w}'' = Some no_event"
  "parseControlEvent demo_unmarshal ''{f}'' =
     Some (no_event\<lparr>ev_Ready := Some False, ev_Error := ''display_not_ready'', ev_Message := ''m''\<rparr>)"
  "parseControlEvent demo_unmarshal ''log'' = None" "parseControlEvent demo_unmarshal ''bye'' = None"
  by code_simp+


theorem unsettled_exit_witness:
  "set (newControl_results demo_unmarshal ''U'' startup_died) =
     {Inl (OtherError ''simbeam-control U exited before handshake: log'')}"
  using unsettled_exit [of startup_died demo_unmarshal "''U''"]
  by (simp add: startup_died_def says_ready_def plain_line_def demo_parse no_event_def exit_error_def)

section \<open>The video stream\<close>

text \<open>
  \<open>readFrames\<close>: a 13-byte header, big-endian length, a flags byte and a 64-bit time stamp
  in microseconds, then the payload.  The duration is Go's
  \<open>time.Duration(pts-lastPTS) * time.Microsecond\<close>, in 64 bits with wrap-around.
\<close>

definition be_value :: "bytes \<Rightarrow> nat" where
  "be_value bs = foldl (\<lambda>acc b. acc * 256 + unat b) 0 bs"

definition Uint32 :: "bytes \<Rightarrow> 32 word" where "Uint32 bs = of_nat (be_value bs)"
definition Uint64 :: "bytes \<Rightarrow> 64 word" where "Uint64 bs = of_nat (be_value bs)"

record Frame =
  fr_Data :: bytes
  fr_Duration :: duration

definition frame_duration :: "64 word option \<Rightarrow> 64 word \<Rightarrow> duration" where
  \<comment> \<open>the first argument is \<open>lastPTS\<close>, \<open>None\<close> while \<open>first\<close>\<close>
  "frame_duration prev pts =
     (let nominal = second div controlFPS in
      case prev of
        None \<Rightarrow> nominal
      | Some lastPTS \<Rightarrow> (let d = sint ((pts - lastPTS) * 1000) in if d > 0 then d else nominal))"

function readFrames :: "bytes \<Rightarrow> 64 word option \<Rightarrow> Frame list" where
  "readFrames stream prev =
     (if length stream < 13 then []
      else
        (let n = unat (Uint32 (take 4 stream));
             pts = Uint64 (take 8 (drop 5 stream));
             rest = drop 13 stream
         in if length rest < n then []
            else \<lparr>fr_Data = take n rest, fr_Duration = frame_duration prev pts\<rparr>
                 # readFrames (drop n rest) (Some pts)))"
  by pat_completeness auto
termination
  by (relation "measure (\<lambda>(s, _). length s)") auto

declare readFrames.simps [simp del]

text \<open>The framing the helper writes, for the round trip: flags, time stamp and payload.\<close>

fun be_bytes :: "nat \<Rightarrow> nat \<Rightarrow> bytes" where
  "be_bytes 0 n = []"
| "be_bytes (Suc k) n = be_bytes k (n div 256) @ [of_nat (n mod 256)]"

definition write_frame :: "8 word \<times> 64 word \<times> bytes \<Rightarrow> bytes" where
  "write_frame f = (case f of (flags, pts, data) \<Rightarrow>
     be_bytes 4 (length data) @ [flags] @ be_bytes 8 (unat pts) @ data)"

lemma length_be_bytes [simp]: "length (be_bytes k n) = k"
  by (induction k arbitrary: n) auto

lemma be_value_bytes: "n < 256 ^ k \<Longrightarrow> be_value (be_bytes k n) = n"
proof (induction k arbitrary: n)
  case (Suc k)
  have "n div 256 < 256 ^ k" using Suc.prems by (simp add: less_mult_imp_div_less mult.commute)
  from Suc.IH [OF this] have "foldl (\<lambda>acc b. acc * 256 + unat b) 0 (be_bytes k (n div 256)) = n div 256"
    by (simp add: be_value_def)
  moreover have "unat (of_nat (n mod 256) :: 8 word) = n mod 256"
    by (simp add: unat_of_nat)
  ultimately show ?case by (simp add: be_value_def)
qed (simp add: be_value_def)

lemma Uint32_bytes: "n < 2 ^ 32 \<Longrightarrow> unat (Uint32 (be_bytes 4 n)) = n"
  by (simp add: Uint32_def be_value_bytes unat_of_nat)

lemma Uint64_bytes: "Uint64 (be_bytes 8 (unat w)) = w"
proof -
  have "unat w < 256 ^ 8" using unsigned_less [of w, where 'a = nat] by simp
  then show ?thesis by (simp add: Uint64_def be_value_bytes)
qed

fun frames_of :: "64 word option \<Rightarrow> (8 word \<times> 64 word \<times> bytes) list \<Rightarrow> Frame list" where
  "frames_of prev [] = []"
| "frames_of prev ((flags, pts, data) # fs) =
     \<lparr>fr_Data = data, fr_Duration = frame_duration prev pts\<rparr> # frames_of (Some pts) fs"

lemma readFrames_one:
  assumes "length data < 2 ^ 32"
  shows "readFrames (write_frame (flags, pts, data) @ rest) prev =
     \<lparr>fr_Data = data, fr_Duration = frame_duration prev pts\<rparr> # readFrames rest (Some pts)"
  by (subst readFrames.simps) (simp add: write_frame_def Let_def Uint32_bytes [OF assms] Uint64_bytes)

definition incomplete :: "bytes \<Rightarrow> bool" where
  "incomplete tail \<longleftrightarrow> length tail < 13 \<or> length tail - 13 < unat (Uint32 (take 4 tail))"

lemma readFrames_incomplete: "incomplete tail \<Longrightarrow> readFrames tail prev = []"
  by (subst readFrames.simps) (auto simp: incomplete_def Let_def)

lemma readFrames_all:
  assumes "\<forall>(flags, pts, data) \<in> set fs. length data < 2 ^ 32" and "incomplete tail"
  shows "readFrames (concat (map write_frame fs) @ tail) prev = frames_of prev fs"
  using assms
  by (induction fs arbitrary: prev) (auto simp: readFrames_one readFrames_incomplete)

lemma frame_duration_pos: "0 < frame_duration prev pts"
  by (auto simp: frame_duration_def controlFPS_def time_units Let_def split: option.split)

lemma frame_duration_exact:
  assumes "uint a < uint b" and "(uint b - uint a) * 1000 < 2 ^ 63"
  shows "frame_duration (Some a) b = (uint b - uint a) * 1000"
proof -
  let ?d = "(uint b - uint a) * 1000"
  have "word_of_int ?d = (word_of_int (uint b) - word_of_int (uint a)) * (word_of_int 1000 :: 64 word)"
    by (simp only: wi_hom_mult wi_hom_sub)
  then have "(b - a) * 1000 = word_of_int ?d" by simp
  moreover have "sint (word_of_int ?d :: 64 word) = ?d"
    unfolding sint_sbintrunc' using assms by (subst signed_take_bit_int_eq_self) simp_all
  ultimately have "sint ((b - a) * 1000) = ?d" by metis
  with assms show ?thesis by (simp add: frame_duration_def Let_def)
qed

lemma frames_of_props:
  "map fr_Data (frames_of prev fs) = map (\<lambda>(flags, pts, data). data) fs"
  "\<forall>f \<in> set (frames_of prev fs). 0 < fr_Duration f"
  "Suc i < length fs \<Longrightarrow>
     fr_Duration (frames_of prev fs ! Suc i) = frame_duration (Some (fst (snd (fs ! i)))) (fst (snd (fs ! Suc i)))"
proof -
  show "map fr_Data (frames_of prev fs) = map (\<lambda>(flags, pts, data). data) fs"
    by (induction fs arbitrary: prev) auto
  show "\<forall>f \<in> set (frames_of prev fs). 0 < fr_Duration f"
    by (induction fs arbitrary: prev) (auto simp: frame_duration_pos)
  show "Suc i < length fs \<Longrightarrow>
     fr_Duration (frames_of prev fs ! Suc i) = frame_duration (Some (fst (snd (fs ! i)))) (fst (snd (fs ! Suc i)))"
  proof (induction fs arbitrary: prev i)
    case (Cons f fs)
    then show ?case by (cases f; cases fs; cases i) auto
  qed simp
qed

text \<open>
  C23: the framed video is read back unit for unit.  From a stream of complete frames and a
  torn tail, exactly the payloads come out in order; every duration is positive whatever the
  time stamps, wrap-around included, and where a time stamp grows by less than 292 years the
  frame lasts exactly the difference.
\<close>

theorem readFrames_roundtrip:
  assumes "\<forall>(flags, pts, data) \<in> set fs. length data < 2 ^ 32" and "incomplete tail"
  shows "let frames = readFrames (concat (map write_frame fs) @ tail) None in
     map fr_Data frames = map (\<lambda>(flags, pts, data). data) fs \<and> (\<forall>f \<in> set frames. 0 < fr_Duration f) \<and>
     (\<forall>i. Suc i < length fs \<longrightarrow>
        (let gap = uint (fst (snd (fs ! Suc i))) - uint (fst (snd (fs ! i))) in
         0 < gap \<and> gap * 1000 < 2 ^ 63 \<longrightarrow> fr_Duration (frames ! Suc i) = gap * 1000))"
  unfolding readFrames_all [OF assms] Let_def
  using frames_of_props frame_duration_exact by auto

definition demo_frames :: "(8 word \<times> 64 word \<times> bytes) list" where
  "demo_frames = [(1, 0xFFFFFFFFFFFFFFF0, [1, 2]), (0, 5, []), (0, 33005, [3])]"

theorem readFrames_roundtrip_witness:
  "readFrames (concat (map write_frame demo_frames) @ [0, 0, 0, 9]) None =
     [\<lparr>fr_Data = [1, 2], fr_Duration = 33333333\<rparr>, \<lparr>fr_Data = [], fr_Duration = 21000\<rparr>,
      \<lparr>fr_Data = [3], fr_Duration = 33000000\<rparr>]"
proof -
  have small: "\<forall>(flags, pts, data) \<in> set demo_frames. length data < 2 ^ 32" by (simp add: demo_frames_def)
  have torn: "incomplete [0, 0, 0, 9]" by (simp add: incomplete_def)
  have "map fr_Data (readFrames (concat (map write_frame demo_frames) @ [0, 0, 0, 9]) None) = [[1, 2], [], [3]]"
    using readFrames_roundtrip [OF small torn] by (simp add: Let_def demo_frames_def)
  moreover have "map fr_Duration (readFrames (concat (map write_frame demo_frames) @ [0, 0, 0, 9]) None) =
      [33333333, 21000, 33000000]"
    unfolding readFrames_all [OF small torn]
    by (simp add: demo_frames_def frame_duration_def Let_def controlFPS_def time_units)
  ultimately show ?thesis by (auto simp: map_eq_Cons_conv)
qed

end
