(* ===== verification/Sim_Backend.thy ===== *)
theory Sim_Backend
  imports Sim_Control
begin

text \<open>
  \<open>internal/backend/sim/sim.go\<close> and the command writer of \<open>control.go\<close>: attaching at a
  resolved quality, and turning a gesture into one NDJSON command.  The writer's state is
  whether stdin is still open and the lines written.  \<open>jf\<close> is how \<open>encoding/json\<close> writes a
  \<open>float64\<close>; products of a coordinate and a dimension are exact.
\<close>

section \<open>Attaching\<close>

definition sim_defaultScale :: rat where "sim_defaultScale = 1 / 2"

definition sim_attach_quality :: "QualityOpts \<Rightarrow> QualityOpts" where
  \<comment> \<open>\<open>q.Resolve(defaultScale)\<close>, what \<open>Attach\<close> hands to \<open>newControl\<close>\<close>
  "sim_attach_quality q = Resolve sim_defaultScale q"

definition sim_Attach_args :: "(rat \<Rightarrow> string) \<Rightarrow> string \<Rightarrow> QualityOpts \<Rightarrow> string list" where
  "sim_Attach_args ff udid q = control_args ff udid (sim_attach_quality q)"

interpretation sim: video_backend sim_defaultScale sim_attach_quality
  by unfold_locales (simp_all add: sim_defaultScale_def sim_attach_quality_def quality_bounds)

text \<open>
  The simulator is always driven inside the bounds.  Whatever quality a client sends, the
  helper's command line carries a scale between a quarter and one and a bitrate between half
  a megabit and sixteen, the resolved ones, so the echo of \<open>Resolve\<close> is what runs; an unset
  quality runs at half scale and eight megabits.
\<close>

theorem sim_attach_in_bounds:
  "\<exists>r. sim_Attach_args ff udid q = control_args ff udid r \<and> quality_in_range r \<and>
     r = Resolve sim_defaultScale q \<and> sim_attach_quality r = r \<and>
     (q_scale q \<le> 0 \<and> q_bitrate q \<le> 0 \<longrightarrow> r = \<lparr>q_scale = 1 / 2, q_bitrate = 8000000\<rparr>)"
  using sim.encoded_in_range [of q] sim.echo_is_applied [of q] sim.unset_takes_default [of q]
  by (intro exI [of _ "sim_attach_quality q"])
    (auto simp: sim_Attach_args_def sim_attach_quality_def sim_defaultScale_def DefaultBitrate_def)

theorem sim_attach_in_bounds_witness:
  "sim_Attach_args (\<lambda>s. ''x'') ''U'' \<lparr>q_scale = 0, q_bitrate = 0\<rparr> =
     control_args (\<lambda>s. ''x'') ''U'' \<lparr>q_scale = 1 / 2, q_bitrate = 8000000\<rparr>"
  using sim_attach_in_bounds [of "\<lambda>s. ''x''" "''U''" "\<lparr>q_scale = 0, q_bitrate = 0\<rparr>"] by simp

section \<open>Commands\<close>

datatype control_cmd =
    CTap rat rat
  | CTouch string rat rat
  | CSwipe rat rat rat rat int
  | CHome
  | CAppSwitcher
  | CKey nat bool

definition marshal_cmd :: "(rat \<Rightarrow> string) \<Rightarrow> control_cmd \<Rightarrow> string" where
  "marshal_cmd jf c =
     json_object
       (case c of
          CTap x y \<Rightarrow> [json_field ''type'' (json_string ''tap''), json_field ''x'' (jf x), json_field ''y'' (jf y)]
        | CTouch action x y \<Rightarrow>
            [json_field ''type'' (json_string ''touch''), json_field ''action'' (json_string action),
             json_field ''x'' (jf x), json_field ''y'' (jf y)]
        | CSwipe x1 y1 x2 y2 ms \<Rightarrow>
            [json_field ''type'' (json_string ''swipe''), json_field ''x1'' (jf x1), json_field ''y1'' (jf y1),
             json_field ''x2'' (jf x2), json_field ''y2'' (jf y2), json_field ''duration_ms'' (itoa ms)]
        | CHome \<Rightarrow> [json_field ''type'' (json_string ''home'')]
        | CAppSwitcher \<Rightarrow> [json_field ''type'' (json_string ''app_switcher'')]
        | CKey usage shift \<Rightarrow>
            [json_field ''type'' (json_string ''key''), json_field ''usage'' (itoa (int usage)),
             json_field ''shift'' (json_bool shift)])"

record control =
  ctl_open :: bool
  ctl_dims :: controlDims
  ctl_written :: "string list"

definition writeCmd :: "(rat \<Rightarrow> string) \<Rightarrow> control_cmd \<Rightarrow> control \<Rightarrow> control" where
  "writeCmd jf c s =
     (if ctl_open s then s\<lparr>ctl_written := ctl_written s @ [marshal_cmd jf c @ [CHR 0x0A]]\<rparr> else s)"

definition closeStdin :: "control \<Rightarrow> control" where
  "closeStdin s = (if ctl_open s then s\<lparr>ctl_open := False\<rparr> else s)"

definition clamp01 :: "rat \<Rightarrow> rat" where
  "clamp01 v = (if v < 0 then 0 else if v > 1 then 1 else v)"

definition cmd_Tap :: "controlDims \<Rightarrow> rat \<Rightarrow> rat \<Rightarrow> control_cmd" where
  "cmd_Tap d nx ny = CTap (clamp01 nx * widthPoints d) (clamp01 ny * heightPoints d)"

definition cmd_Swipe :: "controlDims \<Rightarrow> rat \<Rightarrow> rat \<Rightarrow> rat \<Rightarrow> rat \<Rightarrow> rat \<Rightarrow> control_cmd" where
  "cmd_Swipe d nx1 ny1 nx2 ny2 duration =
     CSwipe (clamp01 nx1 * widthPoints d) (clamp01 ny1 * heightPoints d)
       (clamp01 nx2 * widthPoints d) (clamp01 ny2 * heightPoints d) (round_half_away (duration * 1000))"

definition cmd_Touch :: "controlDims \<Rightarrow> string \<Rightarrow> rat \<Rightarrow> rat \<Rightarrow> control_cmd" where
  "cmd_Touch d action nx ny = CTouch action (clamp01 nx * widthPoints d) (clamp01 ny * heightPoints d)"

definition input_cmd :: "controlDims \<Rightarrow> Input \<Rightarrow> control_cmd option" where
  \<comment> \<open>the \<open>switch\<close> of \<open>feed.Input\<close>; \<open>None\<close> where it sends nothing\<close>
  "input_cmd d i =
     (if in_type i = ''tap'' then Some (cmd_Tap d (in_x i) (in_y i))
      else if in_type i = ''touch'' then Some (cmd_Touch d (in_action i) (in_x i) (in_y i))
      else if in_type i = ''home'' then Some CHome
      else if in_type i = ''app_switcher'' then Some CAppSwitcher
      else if in_type i = ''swipe'' then
        (let dur = (if in_duration i \<le> 0 then 3 / 10 else in_duration i)
         in Some (cmd_Swipe d (in_x1 i) (in_y1 i) (in_x2 i) (in_y2 i) dur))
      else if in_type i = ''key'' then
        (case keyUsage (in_key i) of (usage, shift, ok) \<Rightarrow> if ok then Some (CKey usage shift) else None)
      else None)"

definition sim_Input :: "(rat \<Rightarrow> string) \<Rightarrow> Input \<Rightarrow> control \<Rightarrow> control" where
  "sim_Input jf i s = (case input_cmd (ctl_dims s) i of None \<Rightarrow> s | Some c \<Rightarrow> writeCmd jf c s)"

section \<open>Properties\<close>

definition on_screen :: "controlDims \<Rightarrow> rat \<Rightarrow> rat \<Rightarrow> bool" where
  "on_screen d x y \<longleftrightarrow> 0 \<le> x \<and> x \<le> widthPoints d \<and> 0 \<le> y \<and> y \<le> heightPoints d"

fun cmd_on_screen :: "controlDims \<Rightarrow> control_cmd \<Rightarrow> bool" where
  "cmd_on_screen d (CTap x y) = on_screen d x y"
| "cmd_on_screen d (CTouch a x y) = on_screen d x y"
| "cmd_on_screen d (CSwipe x1 y1 x2 y2 ms) = (on_screen d x1 y1 \<and> on_screen d x2 y2 \<and> 0 \<le> ms)"
| "cmd_on_screen d _ = True"

lemma clamp01_range: "0 \<le> clamp01 v" "clamp01 v \<le> 1"
  by (simp_all add: clamp01_def)

lemma clamped_point:
  assumes "0 \<le> widthPoints d" and "0 \<le> heightPoints d"
  shows "on_screen d (clamp01 x * widthPoints d) (clamp01 y * heightPoints d)"
  using assms clamp01_range [of x] clamp01_range [of y]
  by (simp add: on_screen_def mult_left_le_one_le)

lemma round_nonneg: "0 \<le> x \<Longrightarrow> 0 \<le> round_half_away x"
  by (simp add: round_half_away_def)

lemma cmds_on_screen:
  assumes "0 \<le> widthPoints d" and "0 \<le> heightPoints d"
  shows "cmd_on_screen d (cmd_Tap d x y)" and "cmd_on_screen d (cmd_Touch d a x y)"
    and "0 \<le> t \<Longrightarrow> cmd_on_screen d (cmd_Swipe d x y x2 y2 t)"
  using clamped_point [OF assms] by (simp_all add: cmd_Tap_def cmd_Touch_def cmd_Swipe_def round_nonneg)

text \<open>
  No gesture reaches outside the screen.  Whatever numbers a client sends, the points of
  the command written lie on the simulator's screen and a swipe's duration is not negative;
  a tap inside the frame hits the point it names.
\<close>

theorem gestures_stay_on_screen:
  assumes "0 \<le> widthPoints d" and "0 \<le> heightPoints d" and "input_cmd d i = Some c"
  shows "cmd_on_screen d c \<and>
     (in_type i = ''tap'' \<and> 0 \<le> in_x i \<and> in_x i \<le> 1 \<and> 0 \<le> in_y i \<and> in_y i \<le> 1 \<longrightarrow>
        c = CTap (in_x i * widthPoints d) (in_y i * heightPoints d))"
proof
  show "cmd_on_screen d c"
    using assms(3) cmds_on_screen [OF assms(1,2)]
    by (auto simp: input_cmd_def Let_def split: if_splits prod.splits)
  show "in_type i = ''tap'' \<and> 0 \<le> in_x i \<and> in_x i \<le> 1 \<and> 0 \<le> in_y i \<and> in_y i \<le> 1 \<longrightarrow>
      c = CTap (in_x i * widthPoints d) (in_y i * heightPoints d)"
    using assms(3) by (auto simp: input_cmd_def cmd_Tap_def clamp01_def)
qed

definition demo_swipe :: Input where
  "demo_swipe = \<lparr>in_type = ''swipe'', in_action = [], in_x = 0, in_y = 0, in_x1 = -3, in_y1 = 1 / 2, in_x2 = 7,
     in_y2 = 1 / 4, in_duration = 0, in_key = []\<rparr>"

definition demo_dims :: controlDims where
  "demo_dims = \<lparr>widthPoints = 390, heightPoints = 844, pixelW = 1170, pixelH = 2532\<rparr>"

lemma demo_swipe_cmd: "input_cmd demo_dims demo_swipe = Some (CSwipe 0 422 390 211 300)"
proof -
  have "round_half_away (3 / 10 * 1000) = 300" by (simp add: round_half_away_def floor_eq_iff)
  then show ?thesis by (simp add: input_cmd_def demo_swipe_def demo_dims_def cmd_Swipe_def clamp01_def Let_def)
qed

theorem gestures_stay_on_screen_witness: "cmd_on_screen demo_dims (CSwipe 0 422 390 211 300)"
  using gestures_stay_on_screen [OF _ _ demo_swipe_cmd] by (simp add: demo_dims_def)

text \<open>
  Input is dropped once the feed is closed, and only then or when there is nothing to
  say.  A gesture writes at most one command; after \<open>closeStdin\<close> nothing is written ever
  again.
\<close>

theorem input_after_close_dropped:
  "fold (sim_Input jf) is (closeStdin s) = closeStdin s \<and>
   (\<exists>ls. ctl_written (sim_Input jf i s) = ctl_written s @ ls \<and> length ls \<le> 1 \<and>
      (ls = [] \<longleftrightarrow> \<not> ctl_open s \<or> input_cmd (ctl_dims s) i = None))"
proof -
  have one: "sim_Input jf i (closeStdin s) = closeStdin s" for i
    by (simp add: sim_Input_def writeCmd_def closeStdin_def split: option.split)
  have "fold (sim_Input jf) is (closeStdin s) = closeStdin s"
    by (induction "is") (simp_all add: one)
  then show ?thesis
    by (cases "input_cmd (ctl_dims s) i") (auto simp: sim_Input_def writeCmd_def)
qed

end
