(* ===== verification/Browser.thy ===== *)
theory Browser
  imports Encoder Companion Sim_Backend
begin

text \<open>
  \<open>internal/backend/browser/browser.go\<close>: the demo device.  Option defaults, the fixed device
  list, the checks and command lines of an attach, the screen size, and each gesture as the
  CDP events it dispatches.  Chromium and \<open>chromedp\<close> are outside: the environment says
  whether launching worked, \<open>kb\<close> gives the library's code of a named key, and whether a
  dispatch succeeds is a list of answers.  Coordinates are exact.
\<close>

section \<open>Options and lifecycle\<close>

definition fps :: int where "fps = 15"
definition browser_defaultScale :: rat where "browser_defaultScale = 1"
definition UDID :: string where "UDID = ''demo''"

record browser_opts =
  bo_URL :: string
  bo_ExecPath :: string
  bo_Width :: int
  bo_Height :: int
  bo_Scale :: rat
  bo_Name :: string
  bo_NoSandbox :: bool

definition browser_New :: "browser_opts \<Rightarrow> browser_opts" where
  "browser_New opts =
     (let opts = (if bo_Width opts \<le> 0 then opts\<lparr>bo_Width := 390\<rparr> else opts);
          opts = (if bo_Height opts \<le> 0 then opts\<lparr>bo_Height := 844\<rparr> else opts);
          opts = (if bo_Scale opts \<le> 0 then opts\<lparr>bo_Scale := 1\<rparr> else opts)
      in if bo_Name opts = [] then opts\<lparr>bo_Name := ''Demo device''\<rparr> else opts)"

definition browser_List :: "browser_opts \<Rightarrow> Simulator list" where
  "browser_List opts =
     [\<lparr>sim_udid = UDID, sim_name = bo_Name opts, sim_model = [], sim_osVersion = ''demo'', sim_state = ''Booted'',
       sim_architecture = [], sim_type = ''Simulator''\<rparr>]"

definition browser_attach_quality :: "QualityOpts \<Rightarrow> QualityOpts" where
  "browser_attach_quality q = Resolve browser_defaultScale q"

interpretation browser: video_backend browser_defaultScale browser_attach_quality
  by unfold_locales (simp_all add: browser_defaultScale_def browser_attach_quality_def quality_bounds)

text \<open>
  \<open>Attach\<close>: a refusal, or the ffmpeg command it starts.  \<open>avail\<close> is \<open>encoder.Available\<close>,
  \<open>launch\<close> the error of bringing Chromium up on the page, \<open>startErr\<close> that of starting ffmpeg;
  \<open>quote\<close> is \<open>%q\<close>.
\<close>

definition browser_Attach ::
  "(rat \<Rightarrow> string) \<Rightarrow> (string \<Rightarrow> string) \<Rightarrow> bool \<Rightarrow> string option \<Rightarrow> string option \<Rightarrow> string option \<Rightarrow>
     string \<Rightarrow> QualityOpts \<Rightarrow> go_error + string list" where
  "browser_Attach ff quote darwin avail launch startErr udid q =
     (if udid \<noteq> UDID
      then Inl (OtherError (''attach: unknown device '' @ quote udid @ '' (demo backend serves only '' @
             quote UDID @ '')''))
      else
        (let q = browser_attach_quality q in
         case avail of
           Some e \<Rightarrow> Inl (OtherError e)
         | None \<Rightarrow>
             (case launch of
                Some e \<Rightarrow> Inl (Wrapped ''launch demo browser'' (OtherError e))
              | None \<Rightarrow>
                  (case Encode_start ff darwin startErr fps (q_scale q) (q_bitrate q) of
                     Inl e \<Rightarrow> Inl (OtherError e)
                   | Inr args \<Rightarrow> Inr args))))"

section \<open>Gestures\<close>

definition browser_clamp01 :: "rat \<Rightarrow> rat" where
  "browser_clamp01 v = (if v < 0 then 0 else if v > 1 then 1 else v)"

definition css :: "browser_opts \<Rightarrow> rat \<Rightarrow> rat \<Rightarrow> rat \<times> rat" where
  "css opts xNorm yNorm =
     (browser_clamp01 xNorm * of_int (bo_Width opts), browser_clamp01 yNorm * of_int (bo_Height opts))"

definition browser_Screen :: "browser_opts \<Rightarrow> nat \<times> nat" where
  \<comment> \<open>conversion to \<open>uint64\<close> truncates\<close>
  "browser_Screen opts =
     (nat \<lfloor>of_int (bo_Width opts) * bo_Scale opts\<rfloor>, nat \<lfloor>of_int (bo_Height opts) * bo_Scale opts\<rfloor>)"

datatype cdp_event =
    TouchStart rat rat
  | TouchMove rat rat
  | TouchEnd
  | KeyEvent string
  | Navigate string

text \<open>
  A sequence of dispatches stops at the first that fails; \<open>oks\<close> says which succeed, the end of
  the list that all do.  The failing one was still sent.
\<close>

fun dispatch :: "cdp_event list \<Rightarrow> bool list \<Rightarrow> cdp_event list" where
  "dispatch [] oks = []"
| "dispatch (e # es) [] = e # dispatch es []"
| "dispatch (e # es) (ok # oks) = e # (if ok then dispatch es oks else [])"

definition swipe_steps :: nat where "swipe_steps = 12"

definition swipe_events :: "browser_opts \<Rightarrow> Input \<Rightarrow> cdp_event list" where
  "swipe_events opts i =
     (let (x1, y1) = css opts (in_x1 i) (in_y1 i); (x2, y2) = css opts (in_x2 i) (in_y2 i) in
      [TouchStart x1 y1] @
      map (\<lambda>k. let t = of_nat k / of_nat swipe_steps in TouchMove (x1 + (x2 - x1) * t) (y1 + (y2 - y1) * t))
        [1..<Suc swipe_steps] @
      [TouchEnd])"

definition swipe_pace :: "Input \<Rightarrow> duration" where
  \<comment> \<open>\<open>time.Duration(dur*float64(time.Second)) / steps\<close>: both truncate\<close>
  "swipe_pace i =
     (let dur = (if in_duration i \<le> 0 then 3 / 10 else in_duration i)
      in \<lfloor>dur * of_int second\<rfloor> div int swipe_steps)"

text \<open>\<open>time.NewTicker\<close> panics on an interval that is not positive.\<close>

datatype swipe_result =
    Swiped "cdp_event list"
  | SwipePanic "cdp_event list"

definition browser_swipe :: "browser_opts \<Rightarrow> bool list \<Rightarrow> Input \<Rightarrow> swipe_result" where
  "browser_swipe opts oks i =
     (let es = swipe_events opts i in
      if oks \<noteq> [] \<and> \<not> hd oks then Swiped (dispatch es oks)
      else if swipe_pace i \<le> 0 then SwipePanic (take 1 es)
      else Swiped (dispatch es oks))"

definition namedKeys :: "string list" where
  "namedKeys = [''Enter'', ''Backspace'', ''Tab'', ''Escape'', ''Delete'', ''ArrowRight'', ''ArrowLeft'',
     ''ArrowUp'', ''ArrowDown'']"

definition key_text :: "(string \<Rightarrow> string) \<Rightarrow> (string \<Rightarrow> nat) \<Rightarrow> string \<Rightarrow> string option" where
  \<comment> \<open>\<open>kb\<close> is the library's table; \<open>runes\<close> counts the runes of a string\<close>
  "key_text kb runes key =
     (if key \<in> set namedKeys then Some (kb key) else if runes key \<noteq> 1 then None else Some key)"

definition browser_Input ::
  "(string \<Rightarrow> string) \<Rightarrow> (string \<Rightarrow> nat) \<Rightarrow> browser_opts \<Rightarrow> bool list \<Rightarrow> Input \<Rightarrow> swipe_result" where
  "browser_Input kb runes opts oks i =
     (if in_type i = ''tap'' then
        (case css opts (in_x i) (in_y i) of (x, y) \<Rightarrow> Swiped (dispatch [TouchStart x y, TouchEnd] oks))
      else if in_type i = ''home'' then Swiped [Navigate (bo_URL opts)]
      else if in_type i = ''swipe'' then browser_swipe opts oks i
      else if in_type i = ''key'' then
        (case key_text kb runes (in_key i) of None \<Rightarrow> Swiped [] | Some k \<Rightarrow> Swiped [KeyEvent k])
      else Swiped [])"

section \<open>Properties\<close>

text \<open>
  Attaching the demo device succeeds exactly when everything outside works.  The attach
  is refused for another device, a missing encoder, a browser that does not come up or an
  ffmpeg that does not start, and for nothing else: no quality a client can ask for makes it
  fail, and the command line is the one for the resolved quality.
\<close>

theorem browser_attach_exact:
  "browser_Attach ff quote darwin avail launch startErr udid q = Inr args \<longleftrightarrow>
     udid = UDID \<and> avail = None \<and> launch = None \<and> startErr = None \<and>
     args = ''ffmpeg'' # ffmpegArgs ff darwin fps (q_scale (Resolve 1 q)) (q_bitrate (Resolve 1 q))"
proof -
  have "quality_in_range (browser_attach_quality q)" by (rule browser.encoded_in_range)
  then have ok: "\<not> (q_scale (browser_attach_quality q) \<le> 0 \<or> q_scale (browser_attach_quality q) > 1)"
    "\<not> q_bitrate (browser_attach_quality q) \<le> 0"
    by (auto simp: quality_in_range_def quality_bounds)
  have same: "browser_attach_quality q = Resolve 1 q"
    by (simp add: browser_attach_quality_def browser_defaultScale_def)
  show ?thesis
    using ok unfolding same
    by (auto simp: browser_Attach_def Encode_start_def same Let_def split: option.splits)
qed

definition in_viewport :: "browser_opts \<Rightarrow> cdp_event \<Rightarrow> bool" where
  "in_viewport opts e =
     (case e of
        TouchStart x y \<Rightarrow> 0 \<le> x \<and> x \<le> of_int (bo_Width opts) \<and> 0 \<le> y \<and> y \<le> of_int (bo_Height opts)
      | TouchMove x y \<Rightarrow> 0 \<le> x \<and> x \<le> of_int (bo_Width opts) \<and> 0 \<le> y \<and> y \<le> of_int (bo_Height opts)
      | _ \<Rightarrow> True)"

lemma clamp_times: "0 \<le> w \<Longrightarrow> 0 \<le> browser_clamp01 v * w \<and> browser_clamp01 v * w \<le> (w::rat)"
  by (auto simp: browser_clamp01_def intro: mult_left_le_one_le)

lemma between_convex:
  assumes "0 \<le> a" "a \<le> w" "0 \<le> b" "b \<le> w" "0 \<le> t" "t \<le> (1::rat)"
  shows "0 \<le> a + (b - a) * t \<and> a + (b - a) * t \<le> w"
proof -
  have e: "a + (b - a) * t = a * (1 - t) + b * t" by (simp add: algebra_simps)
  have "a * (1 - t) \<le> w * (1 - t)" "b * t \<le> w * t"
    using assms by (simp_all add: mult_right_mono)
  moreover have "w * (1 - t) + w * t = w" by (simp add: algebra_simps)
  ultimately show ?thesis using assms unfolding e by simp
qed

text \<open>
  A swipe is one touch along the line asked for.  It starts at the first point, makes
  twelve moves of which the last is exactly the second point, lifts the finger, and never
  leaves the viewport, whatever numbers the client sent.
\<close>

theorem swipe_path:
  assumes "0 \<le> bo_Width opts" and "0 \<le> bo_Height opts"
  shows "(\<exists>moves. swipe_events opts i =
       TouchStart (fst (css opts (in_x1 i) (in_y1 i))) (snd (css opts (in_x1 i) (in_y1 i))) # moves @ [TouchEnd] \<and>
       length moves = 12 \<and>
       last moves = TouchMove (fst (css opts (in_x2 i) (in_y2 i))) (snd (css opts (in_x2 i) (in_y2 i)))) \<and>
     list_all (in_viewport opts) (swipe_events opts i)"
proof -
  obtain x1 y1 where p1: "css opts (in_x1 i) (in_y1 i) = (x1, y1)" by fastforce
  obtain x2 y2 where p2: "css opts (in_x2 i) (in_y2 i) = (x2, y2)" by fastforce
  have range: "0 \<le> x \<and> x \<le> of_int (bo_Width opts) \<and> 0 \<le> y \<and> y \<le> of_int (bo_Height opts)"
    if "css opts u v = (x, y)" for u v x y
    using that assms clamp_times [of "of_int (bo_Width opts)" u] clamp_times [of "of_int (bo_Height opts)" v]
    by (auto simp: css_def)
  let ?move = "\<lambda>k. TouchMove (x1 + (x2 - x1) * (of_nat k / of_nat swipe_steps)) (y1 + (y2 - y1) * (of_nat k / of_nat swipe_steps))"
  have events: "swipe_events opts i = TouchStart x1 y1 # map ?move [1..<Suc swipe_steps] @ [TouchEnd]"
    by (simp add: swipe_events_def p1 p2 Let_def)
  have "in_viewport opts (?move k)" if "k \<le> swipe_steps" for k
  proof -
    have "0 \<le> (of_nat k / of_nat swipe_steps :: rat)" "(of_nat k / of_nat swipe_steps :: rat) \<le> 1"
      using that by (simp_all add: swipe_steps_def)
    then show ?thesis
      using between_convex [of x1 "of_int (bo_Width opts)" x2 "of_nat k / of_nat swipe_steps"]
        between_convex [of y1 "of_int (bo_Height opts)" y2 "of_nat k / of_nat swipe_steps"]
        range [OF p1] range [OF p2] unfolding in_viewport_def cdp_event.case by blast
  qed
  then have "list_all (in_viewport opts) (swipe_events opts i)"
    unfolding events using range [OF p1] by (auto simp: list_all_iff in_viewport_def)
  moreover have "last (map ?move [1..<Suc swipe_steps]) = TouchMove x2 y2"
    by (simp add: last_map swipe_steps_def diff_divide_distrib)
  ultimately show ?thesis
    unfolding events p1 p2 by (auto simp: swipe_steps_def)
qed

definition demo_opts :: browser_opts where
  "demo_opts = browser_New \<lparr>bo_URL = ''u'', bo_ExecPath = [], bo_Width = 0, bo_Height = 0, bo_Scale = 0,
     bo_Name = [], bo_NoSandbox = False\<rparr>"

lemma demo_opts: "bo_Width demo_opts = 390" "bo_Height demo_opts = 844"
  by (simp_all add: demo_opts_def browser_New_def)

theorem swipe_path_witness:
  "list_all (in_viewport demo_opts) (swipe_events demo_opts demo_swipe) \<and>
   hd (swipe_events demo_opts demo_swipe) = TouchStart 0 422"
  using swipe_path [of demo_opts demo_swipe] demo_opts
  by (auto simp: css_def demo_swipe_def browser_clamp01_def)

text \<open>
  A swipe shorter than twelve nanoseconds brings the daemon down.  \<open>time.NewTicker\<close> gets
  the duration divided by twelve; it panics, in a goroutine nobody recovers, exactly if the
  touch started and the requested duration is positive but below twelve nanoseconds.
\<close>

theorem swipe_panics_iff:
  "(\<exists>es. browser_swipe opts oks i = SwipePanic es) \<longleftrightarrow>
     (oks = [] \<or> hd oks) \<and> 0 < in_duration i \<and> in_duration i < 12 / of_int second"
proof -
  have "\<lfloor>x\<rfloor> div 12 \<le> 0 \<longleftrightarrow> x < 12" for x :: rat
  proof -
    have "\<lfloor>x\<rfloor> div 12 \<le> 0 \<longleftrightarrow> \<lfloor>x\<rfloor> < 12" by linarith
    then show ?thesis by (simp add: floor_less_iff)
  qed
  then have "swipe_pace i \<le> 0 \<longleftrightarrow> 0 < in_duration i \<and> in_duration i < 12 / of_int second"
    by (auto simp: swipe_pace_def swipe_steps_def Let_def time_units field_simps)
  then show ?thesis by (auto simp: browser_swipe_def Let_def)
qed

end
