(* ===== verification/Command_Line.thy ===== *)
theory Command_Line
  imports Go_Flag Daemon_Main Signal_Main Relay_Gate Browser
begin

text \<open>
  The command lines of the two programs, from the arguments to the functions that
  \<open>Daemon_Main\<close>, \<open>Demo_Mode\<close> and \<open>Signal_Main\<close> model: the flags of \<open>serve\<close>, \<open>demo\<close>, \<open>unpair\<close>
  (\<open>cmd/simbeamd/main.go\<close>) and of the broker (\<open>cmd/simbeam-signal/main.go\<close>), their defaults,
  and where each value goes.
\<close>

section \<open>serve\<close>

text \<open>What a build fixes, and what the user's home directory is.\<close>

record build =
  bd_version :: string
  bd_signalURL :: string         \<comment> \<open>\<open>defaultSignalURL\<close>\<close>
  bd_clientURL :: string         \<comment> \<open>\<open>defaultClientURL\<close>\<close>
  bd_omitSignal :: string
  bd_home :: "string + string"

record serve_args = serve_flags +
  sa_clientURL :: string
  sa_identity :: string
  sa_clients :: string
  sa_pairTTL :: duration

definition serve_defaults :: "build \<Rightarrow> serve_args" where
  "serve_defaults bd =
     \<lparr>sf_addr = '':8080'', sf_webDir = [], sf_signalURL = bd_signalURL bd, sf_verbose = False,
      sf_noUpdateCheck = False, sa_clientURL = bd_clientURL bd,
      sa_identity = defaultStatePath (bd_home bd) ''identity.key'',
      sa_clients = defaultStatePath (bd_home bd) ''clients.json'', sa_pairTTL = 5 * minute\<rparr>"

definition serve_flagset :: "serve_args flagset" where
  "serve_flagset =
     [(''addr'', StringVar (\<lambda>v. sf_addr_update (\<lambda>_. v))),
      (''web'', StringVar (\<lambda>v. sf_webDir_update (\<lambda>_. v))),
      (''signal'', StringVar (\<lambda>v. sf_signalURL_update (\<lambda>_. v))),
      (''client-url'', StringVar (\<lambda>v. sa_clientURL_update (\<lambda>_. v))),
      (''identity'', StringVar (\<lambda>v. sa_identity_update (\<lambda>_. v))),
      (''clients'', StringVar (\<lambda>v. sa_clients_update (\<lambda>_. v))),
      (''pair-ttl'', DurationVar (\<lambda>d. sa_pairTTL_update (\<lambda>_. d))),
      (''v'', BoolVar (\<lambda>b. sf_verbose_update (\<lambda>_. b))),
      (''no-update-check'', BoolVar (\<lambda>b. sf_noUpdateCheck_update (\<lambda>_. b)))]"

text \<open>The positional arguments of \<open>serve\<close> and \<open>demo\<close> are not looked at.\<close>

definition parse_serve :: "build \<Rightarrow> string list \<Rightarrow> flag_error + serve_args" where
  "parse_serve bd argv = map_sum id fst (parse_flags serve_flagset argv (serve_defaults bd))"

definition serve_command ::
  "build \<Rightarrow> string list \<Rightarrow> string option \<Rightarrow> string + string \<Rightarrow> string option \<Rightarrow> string option \<Rightarrow> string option
     \<Rightarrow> flag_error + serve_start" where
  "serve_command bd argv toolchain control protocol scutil sw_vers =
     map_sum id
       (\<lambda>sa. runServe (serve_flags.truncate sa) (bd_version bd) toolchain control protocol scutil sw_vers)
       (parse_serve bd argv)"

text \<open>What \<open>runRemote\<close>'s console is given of them, beside the daemon's key.\<close>

definition serve_console :: "build \<Rightarrow> serve_args \<Rightarrow> Identity \<Rightarrow> console_config" where
  "serve_console bd sa me =
     \<lparr>cc_signalURL = sf_signalURL sa, cc_base = client_base (sa_clientURL sa) (sf_addr sa),
      cc_pairTTL = sa_pairTTL sa, cc_omitSignal = bd_omitSignal bd, cc_defaultSignal = bd_signalURL bd,
      cc_pubKey = id_PubB64 me\<rparr>"

section \<open>demo\<close>

record demo_args =
  da_signalURL :: string
  da_demoURL :: string
  da_chrome :: string
  da_noSandbox :: bool
  da_name :: string
  da_addr :: string
  da_webDir :: string
  da_clientURL :: string
  da_identity :: string
  da_clients :: string
  da_pairSecret :: string
  da_verbose :: bool

definition demo_defaults :: "build \<Rightarrow> demo_args" where
  "demo_defaults bd =
     \<lparr>da_signalURL = bd_signalURL bd, da_demoURL = [], da_chrome = [], da_noSandbox = False,
      da_name = ''simbeam demo'', da_addr = '':8080'', da_webDir = [], da_clientURL = bd_clientURL bd,
      da_identity = defaultStatePath (bd_home bd) ''demo-identity.key'',
      da_clients = defaultStatePath (bd_home bd) ''demo-clients.json'', da_pairSecret = [],
      da_verbose = False\<rparr>"

definition demo_flagset :: "demo_args flagset" where
  "demo_flagset =
     [(''signal'', StringVar (\<lambda>v. da_signalURL_update (\<lambda>_. v))),
      (''url'', StringVar (\<lambda>v. da_demoURL_update (\<lambda>_. v))),
      (''chrome'', StringVar (\<lambda>v. da_chrome_update (\<lambda>_. v))),
      (''chrome-no-sandbox'', BoolVar (\<lambda>b. da_noSandbox_update (\<lambda>_. b))),
      (''name'', StringVar (\<lambda>v. da_name_update (\<lambda>_. v))),
      (''addr'', StringVar (\<lambda>v. da_addr_update (\<lambda>_. v))),
      (''web'', StringVar (\<lambda>v. da_webDir_update (\<lambda>_. v))),
      (''client-url'', StringVar (\<lambda>v. da_clientURL_update (\<lambda>_. v))),
      (''identity'', StringVar (\<lambda>v. da_identity_update (\<lambda>_. v))),
      (''clients'', StringVar (\<lambda>v. da_clients_update (\<lambda>_. v))),
      (''pair-secret'', StringVar (\<lambda>v. da_pairSecret_update (\<lambda>_. v))),
      (''v'', BoolVar (\<lambda>b. da_verbose_update (\<lambda>_. b)))]"

definition parse_demo :: "build \<Rightarrow> string list \<Rightarrow> flag_error + demo_args" where
  "parse_demo bd argv = map_sum id fst (parse_flags demo_flagset argv (demo_defaults bd))"

definition demo_browser :: "demo_args \<Rightarrow> browser_opts" where
  "demo_browser da =
     browser_New
       \<lparr>bo_URL = da_demoURL da, bo_ExecPath = da_chrome da, bo_Width = 0, bo_Height = 0, bo_Scale = 0,
        bo_Name = da_name da, bo_NoSandbox = da_noSandbox da\<rparr>"

text \<open>
  \<open>runDemo\<close> from its arguments: identities and stores are found by path, the fixed secret of
  the environment and a generated one are at hand.
\<close>

definition demo_command ::
  "build \<Rightarrow> string list \<Rightarrow> (string \<Rightarrow> string + Identity) \<Rightarrow> (string \<Rightarrow> string + PinnedStore) \<Rightarrow> string
     \<Rightarrow> string + string \<Rightarrow> gotime \<Rightarrow> (string \<Rightarrow> string option) \<Rightarrow> flag_error + string + Identity \<times> string \<times> daemon" where
  "demo_command bd argv identity_at pinned_at envSecret generated now listen =
     map_sum id
       (\<lambda>da. demo_ready
          (start_demo (da_signalURL da) (da_demoURL da) (identity_at (da_identity da)) (pinned_at (da_clients da))
            (demo_secret (da_pairSecret da) envSecret generated) now)
          (da_webDir da) (da_addr da) (listen (da_addr da)))
       (parse_demo bd argv)"

section \<open>unpair\<close>

text \<open>The one variable is the path of the store; its directory is found by path.\<close>

definition unpair_flagset :: "string flagset" where
  "unpair_flagset = [(''clients'', StringVar (\<lambda>v _. v))]"

definition unpair_command ::
  "build \<Rightarrow> string list \<Rightarrow> save_call option \<Rightarrow> (string \<Rightarrow> pin_disk)
     \<Rightarrow> flag_error + (string + string) \<times> (string \<Rightarrow> pin_disk)" where
  "unpair_command bd argv fault fs =
     map_sum id
       (\<lambda>(path, args). (let (r, disk) = runUnpair args fault (fs path) in (r, fs(path := disk))))
       (parse_flags unpair_flagset argv (defaultStatePath (bd_home bd) ''clients.json''))"

section \<open>The exit code of simbeamd\<close>

text \<open>
  The flag sets end the process themselves; otherwise a command's error decides.  \<open>run\<close>
  stands for what the commands do once their flags are read.
\<close>

definition flags_stop :: "build \<Rightarrow> string list \<Rightarrow> flag_error option" where
  "flags_stop bd args =
     (let left = (\<lambda>x. case x of Inl e \<Rightarrow> Some e | Inr _ \<Rightarrow> None)
      in case args of
           [] \<Rightarrow> None
         | a # argv \<Rightarrow>
             (if a = ''serve'' then left (map_sum id (\<lambda>_. ()) (parse_serve bd argv))
              else if a = ''demo'' then left (map_sum id (\<lambda>_. ()) (parse_demo bd argv))
              else if a = ''unpair'' then left (map_sum id (\<lambda>_. ()) (parse_flags unpair_flagset argv []))
              else None))"

definition simbeamd_exit :: "build \<Rightarrow> (string \<Rightarrow> string list \<Rightarrow> string option) \<Rightarrow> string list \<Rightarrow> nat" where
  "simbeamd_exit bd run args =
     (case flags_stop bd args of Some e \<Rightarrow> flag_exit e | None \<Rightarrow> snd (main_exit run args))"

section \<open>simbeam-signal\<close>

record signal_args = signal_flags +
  sg_addr :: string
  sg_db :: string
  sg_statsAddr :: string

definition signal_defaults :: signal_args where
  "signal_defaults =
     \<lparr>sg_version = False, sg_stun = ''stun:stun.l.google.com:19302'', sg_turnKeyID = [], sg_turnTTL = 24 * hour,
      sg_turnOpen = False, sg_addr = '':9000'', sg_db = ''simbeam.db'', sg_statsAddr = []\<rparr>"

definition signal_flagset :: "signal_args flagset" where
  "signal_flagset =
     [(''version'', BoolVar (\<lambda>b. sg_version_update (\<lambda>_. b))),
      (''addr'', StringVar (\<lambda>v. sg_addr_update (\<lambda>_. v))),
      (''stun'', StringVar (\<lambda>v. sg_stun_update (\<lambda>_. v))),
      (''turn-key-id'', StringVar (\<lambda>v. sg_turnKeyID_update (\<lambda>_. v))),
      (''turn-ttl'', DurationVar (\<lambda>d. sg_turnTTL_update (\<lambda>_. d))),
      (''turn-open'', BoolVar (\<lambda>b. sg_turnOpen_update (\<lambda>_. b))),
      (''db'', StringVar (\<lambda>v. sg_db_update (\<lambda>_. v))),
      (''stats-addr'', StringVar (\<lambda>v. sg_statsAddr_update (\<lambda>_. v)))]"

definition parse_signal :: "string list \<Rightarrow> flag_error + signal_args" where
  "parse_signal argv = map_sum id fst (parse_flags signal_flagset argv signal_defaults)"

text \<open>The process, with its database found by path, and the listeners it ends up with.\<close>

definition signal_command :: "string list \<Rightarrow> (string \<Rightarrow> signal_env) \<Rightarrow> flag_error + signal_end" where
  "signal_command argv env_at =
     map_sum id (\<lambda>sg. signal_main (signal_flags.truncate sg) (env_at (sg_db sg))) (parse_signal argv)"

definition signal_listening :: "signal_args \<Rightarrow> (string \<times> (string \<Rightarrow> broker_route) \<times> string) list" where
  "signal_listening sg = signal_listeners (sg_statsAddr sg) (sg_addr sg) (sg_db sg)"

section \<open>What the flags can do\<close>

text \<open>An argument names a flag in four ways.\<close>

lemma names_flag_iff:
  assumes "plain_name n"
  shows "names_flag n s \<longleftrightarrow> (\<exists>d \<in> {''-'', ''--''}. s = d @ n \<or> (\<exists>v. s = d @ n @ ''='' @ v))"
proof
  assume "names_flag n s"
  then obtain v where v: "flag_arg s = Flag n v" by (auto simp: names_flag_def)
  then have two: "2 \<le> length s" "hd s = CHR ''-''" by (auto simp: flag_arg_def split: if_splits)
  let ?name = "if hd (tl s) = CHR ''-'' then drop 2 s else drop 1 s"
  from v two have "split_equals ?name = (n, v)"
    by (auto simp: flag_arg_def Let_def split: if_splits prod.splits)
  moreover have "s = (if hd (tl s) = CHR ''-'' then ''--'' else ''-'') @ ?name"
    using two by (cases s; cases "tl s") auto
  ultimately obtain d name where s: "s = d @ name" "d \<in> {''-'', ''--''}" and e: "split_equals name = (n, v)"
    using that [of "if hd (tl s) = CHR ''-'' then ''--'' else ''-''" ?name] by (auto split: if_splits)
  have "name = n \<or> (\<exists>w. name = n @ ''='' @ w)"
  proof (cases "n = name")
    case False
    have n: "n = takeWhile (\<lambda>c. c \<noteq> CHR ''='') name" using e by (simp add: split_equals_def Let_def)
    with False obtain c r where "dropWhile (\<lambda>c. c \<noteq> CHR ''='') name = c # r"
      using takeWhile_dropWhile_id [of "\<lambda>c. c \<noteq> CHR ''=''" name]
      by (cases "dropWhile (\<lambda>c. c \<noteq> CHR ''='') name") auto
    moreover from this have "c = CHR ''=''" using hd_dropWhile [of "\<lambda>c. c \<noteq> CHR ''=''" name] by simp
    ultimately have "name = n @ ''='' @ r"
      using takeWhile_dropWhile_id [of "\<lambda>c. c \<noteq> CHR ''=''" name] n by simp
    then show ?thesis by blast
  qed simp
  then show "\<exists>d \<in> {''-'', ''--''}. s = d @ n \<or> (\<exists>v. s = d @ n @ ''='' @ v)" using s by auto
next
  assume "\<exists>d \<in> {''-'', ''--''}. s = d @ n \<or> (\<exists>v. s = d @ n @ ''='' @ v)"
  moreover have "split_equals n = (n, None)"
    using assms by (simp add: split_equals_def plain_name_def takeWhile_eq_all_conv Let_def)
  ultimately show "names_flag n s"
    using assms split_equals_render [of n]
    by (cases n) (auto simp: names_flag_def flag_arg_def plain_name_def)
qed

lemma parse_signal_keeps:
  assumes "parse_signal argv = Inr sg" "P signal_defaults" "\<forall>s \<in> set argv. \<not> names_flag n s"
    and "\<And>m f v r r'. map_of signal_flagset m = Some f \<Longrightarrow> m \<noteq> n \<Longrightarrow> set_flag f v r = Some r' \<Longrightarrow> P r \<Longrightarrow> P r'"
  shows "P sg"
proof -
  from assms(1) obtain rest where "parse_flags signal_flagset argv signal_defaults = Inr (sg, rest)"
    by (auto simp: parse_signal_def map_sum_def split: sum.splits)
  then show ?thesis
    by (rule parse_flags_keeps [where N = "{n}" and P = P, rotated]) (use assms(2-4) in auto)
qed

text \<open>Without the flag the gate is closed; with it apart from its value, the gate is open and the rest ignored.\<close>

lemma turn_open_named:
  assumes "parse_signal argv = Inr sg" "\<forall>s \<in> set argv. \<not> names_flag ''turn-open'' s"
  shows "\<not> sg_turnOpen sg"
  using assms(1) _ assms(2)
proof (rule parse_signal_keeps [where P = "\<lambda>r. \<not> sg_turnOpen r"])
  fix m f v and r r' :: signal_args
  assume "map_of signal_flagset m = Some f" "m \<noteq> ''turn-open''" "set_flag f v r = Some r'" "\<not> sg_turnOpen r"
  then show "\<not> sg_turnOpen r'"
    by (auto simp: signal_flagset_def set_flag_def split: if_splits)
qed (simp add: signal_defaults_def)

lemma turn_open_detached:
  "parse_signal (''-turn-open'' # ''false'' # args) = Inr (signal_defaults\<lparr>sg_turnOpen := True\<rparr>)"
proof -
  have "parse_flags signal_flagset (''-turn-open'' # ''false'' # args) signal_defaults =
      Inr (signal_defaults\<lparr>sg_turnOpen := True\<rparr>, ''false'' # args)"
    by (rule detached_bool [where n = "''turn-open''"]) (simp_all add: flag_arg_def split_equals_def signal_flagset_def)
  then show ?thesis by (simp add: parse_signal_def)
qed

text \<open>
  From the command line to the relay.  A broker started without \<open>--turn-open\<close>, however the
  rest of its command line reads, grants the relay to a key only after a report, signed by that
  key and carrying the app's MAC, of a subscription that has not yet ended.
\<close>

theorem unopened_broker_gates_relay:
  assumes "signal_command argv env_at = Inr (Served cfg warn e)" "\<forall>s \<in> set argv. \<not> names_flag ''turn-open'' s"
    and "list_all clock_ok ds" "over_table dbErr (serve_reports C sec ds Map.empty) env"
    and "relay_granted (fst (New cfg)) env k b"
  shows "\<exists>now r q issued expires. (now, None, r) \<in> set ds \<and> report_ok C sec now r q issued expires \<and>
    rq_client_pubkey q = k \<and> bv_now env < expires"
proof -
  from assms(1) obtain sg where sg: "parse_signal argv = Inr sg"
      "signal_main (signal_flags.truncate sg) (env_at (sg_db sg)) = Served cfg warn e"
    by (auto simp: signal_command_def map_sum_def split: sum.splits)
  have "\<not> cf_TURNOpen (fst (New cfg))"
    using sg(2) turn_open_named [OF sg(1) assms(2)]
    by (auto simp: signal_main_def New_def Let_def signal_flags.truncate_def split: if_splits option.splits)
  from granted_needs_report [OF assms(3,4) this assms(5)] show ?thesis by blast
qed

text \<open>A build without a broker stays local unless one is named.\<close>

lemma unbaked_serve_is_local:
  assumes "bd_signalURL bd = []" "serve_command bd argv toolchain control protocol sc sw = Inr started"
    "\<forall>s \<in> set argv. \<not> names_flag ''signal'' s"
  shows "started \<notin> range (case_prod ServeRemote)"
proof -
  from assms(2) obtain sa rest where sa: "parse_flags serve_flagset argv (serve_defaults bd) = Inr (sa, rest)"
      "started = runServe (serve_flags.truncate sa) (bd_version bd) toolchain control protocol sc sw"
    by (auto simp: serve_command_def parse_serve_def map_sum_def split: sum.splits)
  have "sf_signalURL sa = []"
    using sa(1)
    by (rule parse_flags_keeps [where N = "{''signal''}" and P = "\<lambda>r. sf_signalURL r = []", rotated])
      (use assms(1,3) in \<open>auto simp: serve_flagset_def serve_defaults_def set_flag_def split: if_splits\<close>)
  then show ?thesis
    using sa(2) by (auto simp: runServe_def Let_def serve_flags.truncate_def split: option.splits sum.splits prod.splits)
qed

text \<open>The lifetime of a pairing code and the broker are those last given.\<close>

lemma serve_rendered:
  assumes "parse_duration ttl = Some d"
  shows "parse_serve bd (map render [(''signal'', u'), (''signal'', u), (''pair-ttl'', ttl)]) =
    Inr ((serve_defaults bd)\<lparr>sf_signalURL := u, sa_pairTTL := d\<rparr>)"
  using assms parse_rendered [of "[(''signal'', u'), (''signal'', u), (''pair-ttl'', ttl)]" serve_flagset "[]" "serve_defaults bd"]
  by (simp add: parse_serve_def plain_name_def serve_flagset_def assign_def set_flag_def)

section \<open>Revoking by command\<close>

lemma b64_not_flag: "flag_arg (b64_encode k) = NoFlag"
proof -
  have "b64_char i \<noteq> CHR ''-''" for i
  proof
    assume "b64_char i = CHR ''-''"
    then have "(of_char (b64_char i) :: nat) = 45" by simp
    then show False by (simp add: b64_char_def split: if_splits)
  qed
  then show ?thesis by (cases k rule: b64_encode.cases) (simp_all add: flag_arg_def Let_def)
qed

text \<open>
  \<open>unpair --clients=path key\<close> takes any key as it is printed, removes it from the store at that
  path and touches no other.
\<close>

lemma unpair_by_command:
  assumes "unpair_command bd [render (''clients'', path), b64_encode k] fault fs = Inr (Inr m, fs')"
  shows "(\<exists>t. LoadPinnedStore (fs' path) = Some t \<and> \<not> pinned_Contains (b64_encode k) t) \<and> (\<forall>p. p \<noteq> path \<longrightarrow> fs' p = fs p)"
proof -
  have "parse_flags unpair_flagset ([render (''clients'', path)] @ [b64_encode k]) x = Inr (path, [b64_encode k])" for x
    using parse_rendered [of "[(''clients'', path)]" unpair_flagset "[b64_encode k]" x]
    by (simp add: plain_name_def unpair_flagset_def assign_def set_flag_def b64_not_flag)
  then have "runUnpair [b64_encode k] fault (fs path) = (Inr m, fs' path)" "\<forall>p. p \<noteq> path \<longrightarrow> fs' p = fs p"
    using assms by (auto simp: unpair_command_def split: prod.splits)
  then show ?thesis using unpair_removes by blast
qed

section \<open>Exit codes\<close>

lemma main_exit_two_iff:
  "snd (main_exit run args) = 2 \<longleftrightarrow>
     (case args of [] \<Rightarrow> True
      | a # _ \<Rightarrow> a \<notin> set commands \<union> set [''version'', ''--version'', ''-v'', ''-h'', ''--help'', ''help''])"
  by (cases args) (auto simp: main_exit_def split: option.splits)

text \<open>Two is for a command line that cannot be read; one for a command that failed.\<close>

theorem exit_two_iff:
  "simbeamd_exit bd run args = 2 \<longleftrightarrow>
     (case flags_stop bd args of
        Some e \<Rightarrow> e \<noteq> ErrHelp
      | None \<Rightarrow> (case args of [] \<Rightarrow> True
          | a # _ \<Rightarrow> a \<notin> set commands \<union> set [''version'', ''--version'', ''-v'', ''-h'', ''--help'', ''help'']))"
  by (simp add: simbeamd_exit_def flag_exit_def main_exit_two_iff split: option.split)

end
