(* ===== verification/Go_Json_Read.thy ===== *)
theory Go_Json_Read
  imports Go_Json
begin

text \<open>
  The input half of Go's \<open>encoding/json\<close>: its scanner, as a split into tokens and a machine
  with a stack of open arrays and objects, and what a string literal stands for.  Numbers are
  kept as the text they were written in, as the decoder does until it knows the field's type.
\<close>

section \<open>Values and their text\<close>

datatype json =
    JNull
  | JBool bool
  | JNum string
  | JStr string
  | JArr "json list"
  | JObj "(string \<times> json) list"

text \<open>How \<open>Marshal\<close> writes a value.\<close>

fun json_text :: "json \<Rightarrow> string" where
  "json_text JNull = ''null''"
| "json_text (JBool b) = json_bool b"
| "json_text (JNum n) = n"
| "json_text (JStr s) = json_string s"
| "json_text (JArr vs) = json_array (map json_text vs)"
| "json_text (JObj kvs) = json_object (map (\<lambda>(k, v). json_field k (json_text v)) kvs)"

section \<open>String literals\<close>

definition hex_value :: "char \<Rightarrow> nat option" where
  "hex_value c =
     (let n = of_char c :: nat in
      if 48 \<le> n \<and> n \<le> 57 then Some (n - 48)
      else if 97 \<le> n \<and> n \<le> 102 then Some (n - 87)
      else if 65 \<le> n \<and> n \<le> 70 then Some (n - 55) else None)"

text \<open>Four hexadecimal digits and what follows them.\<close>

fun getu4 :: "string \<Rightarrow> (nat \<times> string) option" where
  "getu4 (a # b # c # d # r) =
     (case (hex_value a, hex_value b, hex_value c, hex_value d) of
        (Some a, Some b, Some c, Some d) \<Rightarrow> Some (((a * 16 + b) * 16 + c) * 16 + d, r)
      | _ \<Rightarrow> None)"
| "getu4 _ = None"

definition encode_rune :: "nat \<Rightarrow> string" where
  "encode_rune n =
     map char_of
       (if n < 128 then [n]
        else if n < 2048 then [192 + n div 64, 128 + n mod 64]
        else if n < 65536 then [224 + n div 4096, 128 + n div 64 mod 64, 128 + n mod 64]
        else [240 + n div 262144, 128 + n div 4096 mod 64, 128 + n div 64 mod 64, 128 + n mod 64])"

definition replacement :: string where
  "replacement = encode_rune 65533"

text \<open>
  An escape after its backslash: the bytes it stands for and the rest.  A surrogate that is
  not the first of a pair becomes the replacement character, and only its own escape is
  consumed.
\<close>

definition read_unicode :: "string \<Rightarrow> (string \<times> string) option" where
  "read_unicode s =
     (case getu4 s of
        None \<Rightarrow> None
      | Some (u, r) \<Rightarrow>
          if 55296 \<le> u \<and> u < 57344 then
            (case (if u < 56320 \<and> has_prefix [CHR 0x5C, CHR ''u''] r then getu4 (drop 2 r) else None) of
               Some (l, r') \<Rightarrow>
                 if 56320 \<le> l \<and> l < 57344
                 then Some (encode_rune ((u - 55296) * 1024 + (l - 56320) + 65536), r')
                 else Some (replacement, r)
             | None \<Rightarrow> Some (replacement, r))
          else Some (encode_rune u, r))"

definition read_escape :: "string \<Rightarrow> (string \<times> string) option" where
  "read_escape s =
     (case s of
        [] \<Rightarrow> None
      | c # r \<Rightarrow>
          (if c \<in> {CHR 0x22, CHR 0x5C, CHR ''/''} then Some ([c], r)
           else if c = CHR ''b'' then Some ([CHR 0x08], r)
           else if c = CHR ''f'' then Some ([CHR 0x0C], r)
           else if c = CHR ''n'' then Some ([CHR 0x0A], r)
           else if c = CHR ''r'' then Some ([CHR 0x0D], r)
           else if c = CHR ''t'' then Some ([CHR 0x09], r)
           else if c = CHR ''u'' then read_unicode r
           else None))"

lemma getu4_shorter: "getu4 s = Some (u, r) \<Longrightarrow> length r < length s"
  by (cases s rule: getu4.cases) (auto split: option.splits prod.splits)

lemma read_unicode_shorter: "read_unicode s = Some (u, r) \<Longrightarrow> length r < length s"
  by (auto simp: read_unicode_def split: option.splits if_splits dest!: getu4_shorter)

lemma read_escape_shorter: "read_escape s = Some (u, r) \<Longrightarrow> length r < length s"
  by (auto simp: read_escape_def split: list.splits if_splits dest!: read_unicode_shorter)

text \<open>
  The literal after its opening quote: its value and what follows the closing quote.  Control
  bytes are refused; a byte that is not UTF-8 stands for the replacement character.
\<close>

function read_string :: "string \<Rightarrow> (string \<times> string) option" where
  "read_string s =
     (case s of
        [] \<Rightarrow> None
      | c # cs \<Rightarrow>
          (let b = of_char c :: nat in
           if b = 34 then Some ([], cs)
           else if b = 92 then
             (case read_escape cs of
                None \<Rightarrow> None
              | Some (u, r) \<Rightarrow> map_option (\<lambda>(v, r'). (u @ v, r')) (read_string r))
           else if b < 32 then None
           else
             (case rune_len (bytes_of s) of
                None \<Rightarrow> map_option (\<lambda>(v, r). (replacement @ v, r)) (read_string cs)
              | Some n \<Rightarrow> map_option (\<lambda>(v, r). (take n s @ v, r)) (read_string (drop n s)))))"
  by pat_completeness auto
termination
  by (relation "measure length") (auto dest: rune_len_bounds read_escape_shorter)

declare read_string.simps [simp del]

lemma read_string_Nil [simp]: "read_string [] = None"
  by (simp add: read_string.simps)

lemma read_string_quote [simp]: "read_string (CHR 0x22 # r) = Some ([], r)"
  by (simp add: read_string.simps)

lemma read_string_escape:
  "read_string (CHR 0x5C # cs) =
     (case read_escape cs of
        None \<Rightarrow> None
      | Some (u, r) \<Rightarrow> map_option (\<lambda>(v, r'). (u @ v, r')) (read_string r))"
  by (subst read_string.simps) simp

lemma read_string_rune:
  assumes "of_char c \<noteq> (34 :: nat)" "of_char c \<noteq> (92 :: nat)"
  shows "read_string (c # cs) =
     (if of_char c < (32 :: nat) then None
      else (case rune_len (bytes_of (c # cs)) of
              None \<Rightarrow> map_option (\<lambda>(v, r). (replacement @ v, r)) (read_string cs)
            | Some n \<Rightarrow> map_option (\<lambda>(v, r). (take n (c # cs) @ v, r)) (read_string (drop n (c # cs)))))"
  using assms by (subst read_string.simps) (simp add: Let_def)

lemma code_34_92:
  "of_char c = (34 :: nat) \<longleftrightarrow> c = CHR 0x22" "of_char c = (92 :: nat) \<longleftrightarrow> c = CHR 0x5C"
proof -
  have "of_char c = (of_char (CHR 0x22) :: nat) \<longleftrightarrow> c = CHR 0x22"
    "of_char c = (of_char (CHR 0x5C) :: nat) \<longleftrightarrow> c = CHR 0x5C"
    unfolding of_char_eq_iff by simp_all
  then show "of_char c = (34 :: nat) \<longleftrightarrow> c = CHR 0x22" "of_char c = (92 :: nat) \<longleftrightarrow> c = CHR 0x5C"
    by simp_all
qed

lemma read_string_shorter: "read_string s = Some (v, r) \<Longrightarrow> length r < length s"
proof (induction s arbitrary: v r rule: read_string.induct)
  case (1 s)
  show ?case
  proof (cases s)
    case (Cons c cs)
    let ?b = "of_char c :: nat"
    consider "?b = 34" | "?b = 92" | "?b \<noteq> 34" "?b \<noteq> 92" by blast
    then show ?thesis
    proof cases
      case 1
      then have "c = CHR 0x22" by (simp only: code_34_92)
      then show ?thesis using "1.prems" Cons by simp
    next
      case 2
      then have c: "c = CHR 0x5C" by (simp only: code_34_92)
      with "1.prems" Cons obtain u r' v' where esc: "read_escape cs = Some (u, r')" "read_string r' = Some (v', r)"
        by (auto simp: read_string_escape split: option.splits)
      then show ?thesis
        using "1.IH"(1) [OF Cons refl _ 2 esc(1) refl esc(2)] read_escape_shorter [OF esc(1)] by (simp add: Cons c)
    next
      case 3
      note eq = "1.prems" [unfolded Cons read_string_rune [OF 3]]
      then have "\<not> ?b < 32" by (auto split: if_splits)
      show ?thesis
      proof (cases "rune_len (bytes_of s)")
        case None
        then obtain v' where "read_string cs = Some (v', r)"
          using eq \<open>\<not> ?b < 32\<close> by (auto simp: Cons)
        then show ?thesis
          using "1.IH"(2) [OF Cons refl 3 \<open>\<not> ?b < 32\<close> None] by (simp add: Cons)
      next
        case (Some n)
        then obtain v' where "read_string (drop n s) = Some (v', r)"
          using eq \<open>\<not> ?b < 32\<close> by (auto simp: Cons)
        moreover have "0 < n" "n \<le> length s"
          using rune_len_bounds [OF Some] by (auto simp: bytes_of_def)
        ultimately show ?thesis
          using "1.IH"(3) [OF Cons refl 3 \<open>\<not> ?b < 32\<close> Some] by fastforce
      qed
    qed
  qed (use "1.prems" in simp)
qed

section \<open>Number literals\<close>

definition is_digit :: "char \<Rightarrow> bool" where
  "is_digit c \<longleftrightarrow> digit_value c \<noteq> None"

text \<open>An optional sign, digits without a leading zero, a fraction, an exponent.\<close>

definition read_sign :: "string \<Rightarrow> string \<Rightarrow> string \<times> string" where
  "read_sign signs s =
     (case s of c # r \<Rightarrow> if c \<in> set signs then ([c], r) else ([], s) | [] \<Rightarrow> ([], s))"

definition digit_run :: "string \<Rightarrow> string \<times> string" where
  "digit_run s = (takeWhile is_digit s, dropWhile is_digit s)"

definition read_integer :: "string \<Rightarrow> (string \<times> string) option" where
  "read_integer s =
     (case s of
        [] \<Rightarrow> None
      | c # r \<Rightarrow> if c = CHR ''0'' then Some ([c], r) else if is_digit c then Some (digit_run s) else None)"

definition read_fraction :: "string \<Rightarrow> (string \<times> string) option" where
  "read_fraction s =
     (case s of
        [] \<Rightarrow> Some ([], s)
      | c # r \<Rightarrow>
          if c = CHR ''.'' then (case digit_run r of (ds, r') \<Rightarrow> if ds = [] then None else Some (c # ds, r'))
          else Some ([], s))"

definition read_exponent :: "string \<Rightarrow> (string \<times> string) option" where
  "read_exponent s =
     (case s of
        [] \<Rightarrow> Some ([], s)
      | c # r \<Rightarrow>
          if c = CHR ''e'' \<or> c = CHR ''E'' then
            (case read_sign ''+-'' r of
               (sg, r1) \<Rightarrow> (case digit_run r1 of (ds, r2) \<Rightarrow> if ds = [] then None else Some (c # sg @ ds, r2)))
          else Some ([], s))"

definition read_number :: "string \<Rightarrow> (string \<times> string) option" where
  "read_number s =
     (case read_sign ''-'' s of
        (sg, s1) \<Rightarrow>
          (case read_integer s1 of
             None \<Rightarrow> None
           | Some (i, s2) \<Rightarrow>
               (case read_fraction s2 of
                  None \<Rightarrow> None
                | Some (f, s3) \<Rightarrow>
                    (case read_exponent s3 of
                       None \<Rightarrow> None
                     | Some (e, s4) \<Rightarrow> Some (sg @ i @ f @ e, s4)))))"

lemma read_sign_split: "read_sign signs s = (x, r) \<Longrightarrow> x @ r = s"
  by (auto simp: read_sign_def split: list.splits if_splits)

lemma digit_run_split: "digit_run s = (x, r) \<Longrightarrow> x @ r = s"
  by (auto simp: digit_run_def)

lemma read_integer_split: "read_integer s = Some (x, r) \<Longrightarrow> x @ r = s \<and> x \<noteq> []"
  by (auto simp: read_integer_def digit_run_def split: list.splits if_splits)

lemma read_fraction_split: "read_fraction s = Some (x, r) \<Longrightarrow> x @ r = s"
  by (auto simp: read_fraction_def split: list.splits if_splits prod.splits dest: digit_run_split)

lemma read_exponent_split: "read_exponent s = Some (x, r) \<Longrightarrow> x @ r = s"
  by (auto simp: read_exponent_def split: list.splits if_splits prod.splits
      dest!: digit_run_split read_sign_split)

text \<open>The literal is the text consumed, and is not empty.\<close>

lemma read_number_split:
  assumes "read_number s = Some (x, r)"
  shows "x @ r = s \<and> x \<noteq> []"
proof -
  obtain sg s1 where 1: "read_sign ''-'' s = (sg, s1)" by fastforce
  with assms obtain i s2 where 2: "read_integer s1 = Some (i, s2)"
    by (auto simp: read_number_def split: option.splits)
  with assms 1 obtain f s3 where 3: "read_fraction s2 = Some (f, s3)"
    by (auto simp: read_number_def split: option.splits)
  with assms 1 2 obtain e where 4: "read_exponent s3 = Some (e, r)" "x = sg @ i @ f @ e"
    by (auto simp: read_number_def split: option.splits)
  show ?thesis
    using read_sign_split [OF 1] read_integer_split [OF 2] read_fraction_split [OF 3]
      read_exponent_split [OF 4(1)] 4(2) by auto
qed

lemma read_number_shorter: "read_number s = Some (x, r) \<Longrightarrow> length r < length s"
  by (auto dest!: read_number_split)

section \<open>Tokens\<close>

datatype token =
    Atom json
  | OpenArr | CloseArr
  | OpenObj | CloseObj
  | Comma | Colon
  | Bad     \<comment> \<open>no token begins here\<close>

definition is_space :: "char \<Rightarrow> bool" where
  "is_space c \<longleftrightarrow> c \<in> {CHR 0x20, CHR 0x09, CHR 0x0D, CHR 0x0A}"

text \<open>The token at the front of a text that does not start with a space.\<close>

definition first_token :: "string \<Rightarrow> (token \<times> string) option" where
  "first_token s =
     (case s of
        [] \<Rightarrow> None
      | c # r \<Rightarrow>
          (if c = CHR ''['' then Some (OpenArr, r)
           else if c = CHR '']'' then Some (CloseArr, r)
           else if c = CHR 0x7B then Some (OpenObj, r)
           else if c = CHR 0x7D then Some (CloseObj, r)
           else if c = CHR '','' then Some (Comma, r)
           else if c = CHR '':'' then Some (Colon, r)
           else if c = CHR 0x22 then map_option (\<lambda>(v, r). (Atom (JStr v), r)) (read_string r)
           else if has_prefix ''true'' s then Some (Atom (JBool True), drop 4 s)
           else if has_prefix ''false'' s then Some (Atom (JBool False), drop 5 s)
           else if has_prefix ''null'' s then Some (Atom JNull, drop 4 s)
           else map_option (\<lambda>(v, r). (Atom (JNum v), r)) (read_number s)))"

lemma first_token_shorter: "first_token s = Some (t, r) \<Longrightarrow> length r < length s"
  by (auto simp: first_token_def split: list.splits if_splits
      dest!: read_string_shorter read_number_shorter)

function tokens :: "string \<Rightarrow> token list" where
  "tokens s =
     (let s = dropWhile is_space s in
      if s = [] then []
      else (case first_token s of None \<Rightarrow> [Bad] | Some (t, r) \<Rightarrow> t # tokens r))"
  by pat_completeness auto
termination
proof (relation "measure length")
  fix s x a t r
  assume "x = dropWhile is_space s" "first_token x = Some a" "(t, r) = a"
  then have "length r < length x" using first_token_shorter by fastforce
  also have "length x \<le> length s" using \<open>x = _\<close> by (simp add: length_dropWhile_le)
  finally show "(r, s) \<in> measure length" by simp
qed simp

declare tokens.simps [simp del]

section \<open>The machine\<close>

text \<open>
  The arrays and objects that are open, the innermost first: what has been read of each, the
  last element first, and an object's key whose value is awaited.
\<close>

datatype frame = InArr "json list" | InObj "(string \<times> json) list" string

datatype expect =
    Value
  | ValueOrClose                                    \<comment> \<open>after an opening bracket\<close>
  | KeyOrClose "(string \<times> json) list"              \<comment> \<open>after an opening brace\<close>
  | Key "(string \<times> json) list"                     \<comment> \<open>after a comma in an object\<close>
  | ColonOf "(string \<times> json) list" string
  | Next                                            \<comment> \<open>a comma or the end of the innermost\<close>

definition maxNestingDepth :: nat where "maxNestingDepth = 10000"

text \<open>A value is complete: it is the result, or goes into the innermost frame.\<close>

fun deliver :: "json \<Rightarrow> frame list \<Rightarrow> json + frame list" where
  "deliver v [] = Inl v"
| "deliver v (InArr vs # fs) = Inr (InArr (v # vs) # fs)"
| "deliver v (InObj kvs k # fs) = Inr (InObj ((k, v) # kvs) [] # fs)"

text \<open>
  One token: the error, the result, or what is expected next.  A frame is pushed for a brace
  once its first key is known; an object counts as open from its brace on.
\<close>

datatype parse_state = Failed | Done json | Going "frame list" expect

definition complete :: "json \<Rightarrow> frame list \<Rightarrow> parse_state" where
  "complete v fs = (case deliver v fs of Inl v \<Rightarrow> Done v | Inr fs \<Rightarrow> Going fs Next)"

fun parse_value :: "frame list \<Rightarrow> token \<Rightarrow> parse_state" where
  "parse_value fs (Atom v) = complete v fs"
| "parse_value fs OpenArr =
     (if length fs < maxNestingDepth then Going (InArr [] # fs) ValueOrClose else Failed)"
| "parse_value fs OpenObj = (if length fs < maxNestingDepth then Going fs (KeyOrClose []) else Failed)"
| "parse_value fs _ = Failed"

fun parse_token :: "frame list \<Rightarrow> expect \<Rightarrow> token \<Rightarrow> parse_state" where
  "parse_token fs Value t = parse_value fs t"
| "parse_token (InArr vs # fs) ValueOrClose CloseArr = complete (JArr []) fs"
| "parse_token fs ValueOrClose t = parse_value fs t"
| "parse_token fs (KeyOrClose kvs) CloseObj = complete (JObj []) fs"
| "parse_token fs (KeyOrClose kvs) (Atom (JStr k)) = Going fs (ColonOf kvs k)"
| "parse_token fs (Key kvs) (Atom (JStr k)) = Going fs (ColonOf kvs k)"
| "parse_token fs (ColonOf kvs k) Colon = Going (InObj kvs k # fs) Value"
| "parse_token (InArr vs # fs) Next Comma = Going (InArr vs # fs) Value"
| "parse_token (InArr vs # fs) Next CloseArr = complete (JArr (rev vs)) fs"
| "parse_token (InObj kvs k # fs) Next Comma = Going fs (Key kvs)"
| "parse_token (InObj kvs k # fs) Next CloseObj = complete (JObj (rev kvs)) fs"
| "parse_token fs e t = Failed"

text \<open>The first value of a list of tokens, and the tokens after it.\<close>

fun parse_tokens :: "parse_state \<Rightarrow> token list \<Rightarrow> (json \<times> token list) option" where
  "parse_tokens Failed ts = None"
| "parse_tokens (Done v) ts = Some (v, ts)"
| "parse_tokens (Going fs e) [] = None"
| "parse_tokens (Going fs e) (t # ts) = parse_tokens (parse_token fs e t) ts"

text \<open>
  \<open>Decoder.Decode\<close> (and \<open>ReadJSON\<close>) takes the first value of a stream; \<open>Unmarshal\<close> wants the
  text to be one value and nothing else.
\<close>

definition decode_first :: "string \<Rightarrow> json option" where
  "decode_first s = map_option fst (parse_tokens (Going [] Value) (tokens s))"

definition unmarshal_json :: "string \<Rightarrow> json option" where
  "unmarshal_json s =
     (case parse_tokens (Going [] Value) (tokens s) of Some (v, []) \<Rightarrow> Some v | _ \<Rightarrow> None)"

section \<open>A string reads back as itself\<close>

text \<open>What survives: every byte that is not UTF-8 becomes the replacement character.\<close>

function utf8_repair :: "string \<Rightarrow> string" where
  "utf8_repair s =
     (if s = [] then []
      else (case rune_len (bytes_of s) of
              None \<Rightarrow> replacement @ utf8_repair (drop 1 s)
            | Some n \<Rightarrow> take n s @ utf8_repair (drop n s)))"
  by pat_completeness auto
termination
  by (relation "measure length") (auto dest: rune_len_bounds)

declare utf8_repair.simps [simp del]

lemma utf8_repair_Nil [simp]: "utf8_repair [] = []"
  by (simp add: utf8_repair.simps)

lemma utf8_repair_ascii [simp]:
  "(of_char c :: nat) < 128 \<Longrightarrow> utf8_repair (c # cs) = c # utf8_repair cs"
  by (subst utf8_repair.simps) (simp add: bytes_of_def)

lemma rune_len_local: "rune_len bs = Some n \<Longrightarrow> rune_len (take n bs @ xs) = Some n"
  by (cases bs) (auto split: if_splits list.splits)

lemma hex_value_digit [simp]: "d < 16 \<Longrightarrow> hex_value (hex_digit d) = Some d"
  by (auto simp: hex_value_def hex_digit_def)

lemma hex_value_0 [simp]: "hex_value CHR ''0'' = Some 0"
  by (simp add: hex_value_def)

lemma read_u00:
  assumes "b < 128"
  shows "read_escape (CHR ''u'' # CHR ''0'' # CHR ''0'' # hex_digit (b div 16) # hex_digit (b mod 16) # r) =
     Some ([char_of b], r)"
proof -
  have "getu4 (CHR ''0'' # CHR ''0'' # hex_digit (b div 16) # hex_digit (b mod 16) # r) = Some (b, r)"
    using assms by simp
  then have "read_unicode (CHR ''0'' # CHR ''0'' # hex_digit (b div 16) # hex_digit (b mod 16) # r) =
      Some (encode_rune b, r)"
    using assms by (simp add: read_unicode_def)
  then show ?thesis using assms by (simp add: read_escape_def encode_rune_def)
qed

lemma short_escapes:
  "CHR 0x5C = char_of (92::nat)" "CHR 0x22 = char_of (34::nat)" "CHR 0x08 = char_of (8::nat)"
  "CHR 0x0C = char_of (12::nat)" "CHR 0x0A = char_of (10::nat)" "CHR 0x0D = char_of (13::nat)"
  "CHR 0x09 = char_of (9::nat)"
  by (simp_all add: char_of_def bit_Suc_0_iff)

lemma read_escape_byte:
  assumes "b < 128" "\<not> json_safe b"
  shows "read_string (json_escape_byte b @ r) = map_option (\<lambda>(v, r). (char_of b # v, r)) (read_string r)"
proof -
  consider "b = 92" | "b = 34" | "b = 8" | "b = 12" | "b = 10" | "b = 13" | "b = 9" | "b \<notin> {92, 34, 8, 12, 10, 13, 9}"
    by blast
  then have "\<exists>t. json_escape_byte b = CHR 0x5C # t \<and> read_escape (t @ r) = Some ([char_of b], r)"
  proof cases
    case 8
    then show ?thesis using read_u00 [OF assms(1), of r] by (simp add: json_escape_byte_def)
  qed (simp_all add: json_escape_byte_def read_escape_def short_escapes [symmetric])
  then show ?thesis by (auto simp: read_string_escape)
qed

lemma read_string_safe:
  assumes "json_safe (of_char c)"
  shows "read_string (c # r) = map_option (\<lambda>(v, r). (c # v, r)) (read_string r)"
  using assms by (subst read_string_rune) (auto simp: json_safe_def bytes_of_def)

lemma read_string_multi:
  assumes "rune_len (bytes_of (c # cs)) = Some n" "128 \<le> (of_char c :: nat)"
  shows "read_string (take n (c # cs) @ r) = map_option (\<lambda>(v, r). (take n (c # cs) @ v, r)) (read_string r)"
proof -
  have n: "0 < n" "n \<le> length (c # cs)" using rune_len_bounds [OF assms(1)] by (auto simp: bytes_of_def)
  then obtain x where x: "take n (c # cs) @ r = c # x" by (cases n) auto
  have "bytes_of (take n (c # cs) @ r) = take n (bytes_of (c # cs)) @ bytes_of r"
    by (simp add: bytes_of_def take_map del: list.map)
  then have "rune_len (bytes_of (take n (c # cs) @ r)) = Some n"
    using rune_len_local [OF assms(1), of "bytes_of r"] by simp
  then show ?thesis
    unfolding x using assms(2) n
    by (subst read_string_rune) (auto simp: x [symmetric] split: option.splits)
qed

lemma take_bytes: "take n s = map char_of (take n (bytes_of s))"
  by (simp add: bytes_of_def take_map)

lemma read_separators:
  "read_escape (CHR ''u'' # CHR ''2'' # CHR ''0'' # CHR ''2'' # CHR ''8'' # r) = Some (encode_rune 8232, r)"
  "read_escape (CHR ''u'' # CHR ''2'' # CHR ''0'' # CHR ''2'' # CHR ''9'' # r) = Some (encode_rune 8233, r)"
  "read_escape (CHR ''u'' # CHR ''f'' # CHR ''f'' # CHR ''f'' # CHR ''d'' # r) = Some (replacement, r)"
  by (simp_all add: read_escape_def read_unicode_def hex_value_def replacement_def)

lemma read_escaped:
  "read_string (json_escape s @ CHR 0x22 # r) = Some (utf8_repair s, r)"
proof (induction s rule: json_escape.induct)
  case (1 s)
  show ?case
  proof (cases s)
    case (Cons c cs)
    let ?b = "of_char c :: nat"
    consider "?b < 128" | "128 \<le> ?b" "rune_len (bytes_of s) = None"
      | n where "128 \<le> ?b" "rune_len (bytes_of s) = Some n" by fastforce
    then show ?thesis
    proof cases
      case 1
      with "1.IH"(1) [OF Cons refl] show ?thesis
        by (simp add: Cons json_escape_ascii read_string_safe read_escape_byte)
    next
      case 2
      with "1.IH"(2) [OF Cons refl] show ?thesis
        by (subst json_escape.simps, subst utf8_repair.simps) (simp add: Cons read_string_escape read_separators)
    next
      case 3
      then have "0 < n" "n \<le> length s"
        using rune_len_bounds [of "bytes_of s" n] by (auto simp: bytes_of_def)
      have IH: "read_string (json_escape (drop n s) @ CHR 0x22 # r) = Some (utf8_repair (drop n s), r)"
        using "1.IH"(3) [OF Cons refl _ 3(2)] 3(1) by simp
      have rep: "utf8_repair s = take n s @ utf8_repair (drop n s)"
        using 3 Cons by (subst utf8_repair.simps) simp
      consider (ls) "take n (bytes_of s) = [226, 128, 168]" | (ps) "take n (bytes_of s) = [226, 128, 169]"
        | (plain) "take n (bytes_of s) \<noteq> [226, 128, 168]" "take n (bytes_of s) \<noteq> [226, 128, 169]"
        by blast
      then show ?thesis
      proof cases
        case ls
        then have "take n s = encode_rune 8232"
          using take_bytes [of n s] by (simp add: encode_rune_def)
        moreover have "json_escape s = CHR 0x5C # ''u2028'' @ json_escape (drop n s)"
          using 3 ls Cons by (subst json_escape.simps) (simp add: Let_def)
        ultimately show ?thesis using IH rep by (simp add: read_string_escape read_separators)
      next
        case ps
        then have "take n s = encode_rune 8233"
          using take_bytes [of n s] by (simp add: encode_rune_def)
        moreover have "json_escape s = CHR 0x5C # ''u2029'' @ json_escape (drop n s)"
          using 3 ps Cons by (subst json_escape.simps) (simp add: Let_def)
        ultimately show ?thesis using IH rep by (simp add: read_string_escape read_separators)
      next
        case plain
        then have "json_escape s = take n s @ json_escape (drop n s)"
          using 3 Cons by (subst json_escape.simps) (simp add: Let_def)
        then show ?thesis
          using IH rep read_string_multi [OF 3(2) [unfolded Cons] 3(1), of "json_escape (drop n s) @ CHR 0x22 # r"]
          by (simp add: Cons)
      qed
    qed
  qed simp
qed

section \<open>Texts read back\<close>

definition valid_utf8 :: "string \<Rightarrow> bool" where
  "valid_utf8 s \<longleftrightarrow> utf8_repair s = s"

lemma valid_utf8_Nil [simp]: "valid_utf8 []"
  by (simp add: valid_utf8_def)

lemma valid_utf8_ascii: "list_all (\<lambda>c. of_char c < (128 :: nat)) s \<Longrightarrow> valid_utf8 s"
  by (induction s) (simp_all add: valid_utf8_def)

text \<open>What a number may be followed by without being read on.\<close>

definition number_ends :: "string \<Rightarrow> bool" where
  "number_ends r \<longleftrightarrow> (case r of [] \<Rightarrow> True | c # _ \<Rightarrow> \<not> is_digit c \<and> c \<notin> set ''.eE'')"

lemma digit_run_append:
  "number_ends r \<Longrightarrow> digit_run (s @ r) = map_prod id (\<lambda>s'. s' @ r) (digit_run s)"
  by (induction s) (auto simp: digit_run_def number_ends_def split: list.splits)

lemma digit_run_nonempty: "digit_run s = (ds, r) \<Longrightarrow> ds \<noteq> [] \<Longrightarrow> s \<noteq> []"
  by (auto simp: digit_run_def)

lemma read_integer_append:
  "read_integer s = Some (x, s') \<Longrightarrow> number_ends r \<Longrightarrow> read_integer (s @ r) = Some (x, s' @ r)"
  using digit_run_append [of r s] by (auto simp: read_integer_def split: list.splits if_splits)

lemma read_fraction_append:
  "read_fraction s = Some (x, s') \<Longrightarrow> number_ends r \<Longrightarrow> read_fraction (s @ r) = Some (x, s' @ r)"
  by (auto simp: read_fraction_def digit_run_append number_ends_def split: list.splits if_splits prod.splits)

lemma read_sign_append: "s \<noteq> [] \<Longrightarrow> read_sign signs (s @ r) = map_prod id (\<lambda>s'. s' @ r) (read_sign signs s)"
  by (auto simp: read_sign_def split: list.splits)

lemma read_exponent_append:
  assumes "read_exponent s = Some (x, s')" "number_ends r"
  shows "read_exponent (s @ r) = Some (x, s' @ r)"
proof (cases s)
  case (Cons c t)
  show ?thesis
  proof (cases "c = CHR ''e'' \<or> c = CHR ''E''")
    case True
    obtain sg r1 where sg: "read_sign ''+-'' t = (sg, r1)" by fastforce
    obtain ds r2 where ds: "digit_run r1 = (ds, r2)" by fastforce
    have "ds \<noteq> []" using assms(1) Cons True sg ds by (auto simp: read_exponent_def)
    then have "t \<noteq> []" using sg ds by (auto simp: read_sign_def digit_run_def)
    then show ?thesis
      using assms Cons True sg ds digit_run_append [OF assms(2), of r1] read_sign_append [of t "''+-''" r]
      by (auto simp: read_exponent_def)
  qed (use assms(1) Cons in \<open>auto simp: read_exponent_def\<close>)
qed (use assms in \<open>auto simp: read_exponent_def number_ends_def split: list.splits\<close>)

lemma read_number_append:
  assumes "read_number s = Some (x, s')" "number_ends r"
  shows "read_number (s @ r) = Some (x, s' @ r)"
proof -
  obtain sg s1 where 1: "read_sign ''-'' s = (sg, s1)" by fastforce
  with assms obtain i s2 where 2: "read_integer s1 = Some (i, s2)"
    by (auto simp: read_number_def split: option.splits)
  with assms 1 obtain f s3 where 3: "read_fraction s2 = Some (f, s3)"
    by (auto simp: read_number_def split: option.splits)
  with assms 1 2 obtain e where 4: "read_exponent s3 = Some (e, s')" "x = sg @ i @ f @ e"
    by (auto simp: read_number_def split: option.splits)
  have "s \<noteq> []" using read_number_split [OF assms(1)] by auto
  with 1 have "read_sign ''-'' (s @ r) = (sg, s1 @ r)" by (simp add: read_sign_append)
  then show ?thesis
    using read_integer_append [OF 2 assms(2)] read_fraction_append [OF 3 assms(2)]
      read_exponent_append [OF 4(1) assms(2)] 4(2)
    by (simp add: read_number_def)
qed

definition number_text :: "string \<Rightarrow> bool" where
  "number_text n \<longleftrightarrow> read_number n = Some (n, [])"

text \<open>The values that can be written: their numbers are literals.\<close>

fun writable :: "json \<Rightarrow> bool" where
  "writable (JNum n) \<longleftrightarrow> number_text n"
| "writable (JArr vs) \<longleftrightarrow> list_all writable vs"
| "writable (JObj kvs) \<longleftrightarrow> list_all (\<lambda>(k, v). writable v) kvs"
| "writable _ \<longleftrightarrow> True"

fun json_depth :: "json \<Rightarrow> nat" where
  "json_depth (JArr vs) = Suc (fold max (map json_depth vs) 0)"
| "json_depth (JObj kvs) = Suc (fold max (map (\<lambda>(k, v). json_depth v) kvs) 0)"
| "json_depth _ = 0"

text \<open>A value as it comes back: strings and keys repaired.\<close>

fun repaired :: "json \<Rightarrow> json" where
  "repaired (JStr s) = JStr (utf8_repair s)"
| "repaired (JArr vs) = JArr (map repaired vs)"
| "repaired (JObj kvs) = JObj (map (\<lambda>(k, v). (utf8_repair k, repaired v)) kvs)"
| "repaired v = v"

text \<open>The tokens of a value's text.\<close>

fun comma_sep :: "token list list \<Rightarrow> token list" where
  "comma_sep [] = []"
| "comma_sep [p] = p"
| "comma_sep (p # q # ps) = p @ Comma # comma_sep (q # ps)"

fun value_tokens :: "json \<Rightarrow> token list" where
  "value_tokens (JArr vs) = OpenArr # comma_sep (map value_tokens vs) @ [CloseArr]"
| "value_tokens (JObj kvs) =
     OpenObj # comma_sep (map (\<lambda>(k, v). Atom (JStr (utf8_repair k)) # Colon # value_tokens v) kvs) @ [CloseObj]"
| "value_tokens v = [Atom (repaired v)]"

lemma tokens_Nil [simp]: "tokens [] = []"
  by (simp add: tokens.simps)

lemma tokens_punct [simp]:
  "tokens (CHR ''['' # r) = OpenArr # tokens r" "tokens (CHR '']'' # r) = CloseArr # tokens r"
  "tokens (CHR 0x7B # r) = OpenObj # tokens r" "tokens (CHR 0x7D # r) = CloseObj # tokens r"
  "tokens (CHR '','' # r) = Comma # tokens r" "tokens (CHR '':'' # r) = Colon # tokens r"
  by (subst tokens.simps, simp add: is_space_def first_token_def)+

lemma tokens_space: "is_space c \<Longrightarrow> tokens (c # r) = tokens r"
  by (subst tokens.simps, subst (2) tokens.simps) simp

lemma tokens_string [simp]: "tokens (json_string s @ r) = Atom (JStr (utf8_repair s)) # tokens r"
  by (subst tokens.simps) (simp add: is_space_def first_token_def json_string_def read_escaped)

lemma tokens_words [simp]:
  "tokens (CHR ''t'' # CHR ''r'' # CHR ''u'' # CHR ''e'' # r) = Atom (JBool True) # tokens r"
  "tokens (CHR ''f'' # CHR ''a'' # CHR ''l'' # CHR ''s'' # CHR ''e'' # r) = Atom (JBool False) # tokens r"
  "tokens (CHR ''n'' # CHR ''u'' # CHR ''l'' # CHR ''l'' # r) = Atom JNull # tokens r"
  by (subst tokens.simps, simp add: is_space_def first_token_def has_prefix_def)+

lemma digit_chars: "is_digit c \<longleftrightarrow> c \<in> set ''0123456789''"
proof -
  have "is_digit c \<longleftrightarrow> (of_char c :: nat) \<in> {48, 49, 50, 51, 52, 53, 54, 55, 56, 57}"
    unfolding is_digit_def digit_value_def Let_def by simp presburger
  also have "\<dots> \<longleftrightarrow> c \<in> char_of ` {48, 49, 50, 51, 52, 53, 54, 55, 56, 57 :: nat}"
    by (auto simp: image_iff) (metis char_of_char)+
  also have "char_of ` {48, 49, 50, 51, 52, 53, 54, 55, 56, 57 :: nat} = set ''0123456789''"
    by (simp add: char_of_def bit_Suc_0_iff)
  finally show ?thesis .
qed

lemma tokens_number:
  assumes "number_text n" "number_ends r"
  shows "tokens (n @ r) = Atom (JNum n) # tokens r"
proof -
  have n: "n \<noteq> []" using assms(1) read_number_split [of n] by (auto simp: number_text_def)
  then obtain c t where c: "n = c # t" by (cases n) auto
  have r: "read_number (n @ r) = Some (n, r)"
    using read_number_append [OF _ assms(2), of n n "[]"] assms(1) by (simp add: number_text_def)
  have "c \<in> set ''-0123456789''"
  proof (rule ccontr)
    assume no: "c \<notin> set ''-0123456789''"
    then have "\<not> is_digit c" by (simp add: digit_chars)
    with no have "read_number n = None"
      by (simp add: c read_number_def read_sign_def read_integer_def)
    then show False using assms(1) by (simp add: number_text_def)
  qed
  then have other: "c \<notin> set ''[]{},:tfn''" "c \<noteq> CHR 0x22" "\<not> is_space c"
    unfolding is_space_def by (fastforce)+
  then have "first_token (n @ r) = map_option (\<lambda>(v, r). (Atom (JNum v), r)) (read_number (n @ r))"
    by (simp add: c first_token_def has_prefix_def)
  then show ?thesis
    using n r other by (subst tokens.simps) (simp add: c)
qed

text \<open>The text of a value becomes its tokens, whatever follows that does not extend a number.\<close>

lemma number_ends_punct [simp]:
  "number_ends []" "number_ends (CHR '','' # r)" "number_ends (CHR '']'' # r)" "number_ends (CHR 0x7D # r)"
  "number_ends (CHR 0x0A # r)"
  by (simp_all add: number_ends_def is_digit_def digit_value_def)

lemma tokens_join:
  assumes "\<And>p r. p \<in> set ps \<Longrightarrow> number_ends r \<Longrightarrow> tokens (f p @ r) = g p @ tokens r" "number_ends r"
  shows "tokens (join_with '','' (map f ps) @ r) = comma_sep (map g ps) @ tokens r"
  using assms
proof (induction ps)
  case (Cons p ps)
  show ?case
  proof (cases ps)
    case Nil
    then show ?thesis using Cons.prems by simp
  next
    case (Cons q qs)
    have "tokens (join_with '','' (map f ps) @ r) = comma_sep (map g ps) @ tokens r"
      using Cons.IH Cons.prems by simp
    then show ?thesis using Cons Cons.prems by simp
  qed
qed simp

lemma tokens_text:
  "writable v \<Longrightarrow> number_ends r \<Longrightarrow> tokens (json_text v @ r) = value_tokens v @ tokens r"
proof (induction v arbitrary: r rule: json_text.induct)
  case (2 b)
  then show ?case by (simp add: json_bool_def)
next
  case (3 n)
  then show ?case by (simp add: tokens_number)
next
  case (5 vs)
  have "tokens (join_with '','' (map json_text vs) @ CHR '']'' # r) =
      comma_sep (map value_tokens vs) @ tokens (CHR '']'' # r)"
    using 5 by (intro tokens_join) (auto simp: list_all_iff)
  then show ?case by (simp add: json_array_def)
next
  case (6 kvs)
  have "tokens (join_with '','' (map (\<lambda>(k, v). json_field k (json_text v)) kvs) @ CHR 0x7D # r) =
      comma_sep (map (\<lambda>(k, v). Atom (JStr (utf8_repair k)) # Colon # value_tokens v) kvs) @ tokens (CHR 0x7D # r)"
    using 6 by (intro tokens_join) (auto simp: list_all_iff json_field_def)
  then show ?case by (simp add: json_object_def)
qed simp_all

section \<open>The machine reads a value's tokens\<close>

lemma parse_tokens_value:
  "parse_tokens (Going fs Value) (t # ts) = parse_tokens (parse_value fs t) ts"
  by simp

lemma value_tokens_head: "\<exists>t ts. value_tokens v = t # ts \<and> t \<noteq> CloseArr"
  by (cases v) simp_all

lemma parse_first_element:
  "parse_tokens (Going (InArr [] # fs) ValueOrClose) (value_tokens v @ ts) =
     parse_tokens (Going (InArr [] # fs) Value) (value_tokens v @ ts)"
proof -
  obtain t us where "value_tokens v = t # us" "t \<noteq> CloseArr" using value_tokens_head by blast
  moreover from this(2) have "parse_token (InArr [] # fs) ValueOrClose t = parse_value (InArr [] # fs) t"
    by (cases t) simp_all
  ultimately show ?thesis by simp
qed

lemma fold_max_le: "fold max ns (m :: nat) \<le> k \<longleftrightarrow> m \<le> k \<and> (\<forall>n \<in> set ns. n \<le> k)"
  by (induction ns arbitrary: m) auto

text \<open>The remaining elements of an open array, and the remaining members of an open object.\<close>

lemma parse_elements:
  assumes "\<And>v ts vs. v \<in> set (u # us) \<Longrightarrow> parse_tokens (Going (InArr vs # fs) Value) (value_tokens v @ ts) =
      parse_tokens (complete (repaired v) (InArr vs # fs)) ts"
  shows "parse_tokens (Going (InArr vs # fs) Value) (comma_sep (map value_tokens (u # us)) @ CloseArr # ts) =
      parse_tokens (complete (JArr (rev vs @ map repaired (u # us))) fs) ts"
  using assms
proof (induction us arbitrary: u vs)
  case Nil
  then show ?case by (simp add: complete_def)
next
  case (Cons w us)
  have "parse_tokens (Going (InArr (repaired u # vs) # fs) Value) (comma_sep (map value_tokens (w # us)) @ CloseArr # ts) =
      parse_tokens (complete (JArr (rev (repaired u # vs) @ map repaired (w # us))) fs) ts"
    by (rule Cons.IH) (use Cons.prems in simp)
  then show ?case using Cons.prems by (simp add: complete_def)
qed

lemma parse_members:
  assumes "\<And>m ts kvs key. m \<in> set ms \<Longrightarrow> parse_tokens (Going (InObj kvs key # fs) Value) (value_tokens (snd m) @ ts) =
      parse_tokens (complete (repaired (snd m)) (InObj kvs key # fs)) ts"
  shows "ms \<noteq> [] \<Longrightarrow> e = Key kvs \<or> e = KeyOrClose kvs \<Longrightarrow>
    parse_tokens (Going fs e)
       (comma_sep (map (\<lambda>(k, v). Atom (JStr (utf8_repair k)) # Colon # value_tokens v) ms) @ CloseObj # ts) =
      parse_tokens (complete (JObj (rev kvs @ map (\<lambda>(k, v). (utf8_repair k, repaired v)) ms)) fs) ts"
  using assms
proof (induction ms arbitrary: kvs e)
  case outer: (Cons m ms)
  obtain k v where m: "m = (k, v)" by fastforce
  have v: "parse_tokens (Going (InObj kvs key # fs) Value) (value_tokens v @ ts) =
      parse_tokens (complete (repaired v) (InObj kvs key # fs)) ts" for kvs key ts
    using outer.prems(3) [of m] by (simp add: m)
  show ?case
  proof (cases ms)
    case Nil
    then show ?thesis using outer.prems(2) m v by (auto simp: complete_def)
  next
    case (Cons m' ms')
    have "parse_tokens (Going fs (Key ((utf8_repair k, repaired v) # kvs)))
       (comma_sep (map (\<lambda>(k, v). Atom (JStr (utf8_repair k)) # Colon # value_tokens v) ms) @ CloseObj # ts) =
      parse_tokens (complete (JObj (rev ((utf8_repair k, repaired v) # kvs) @
          map (\<lambda>(k, v). (utf8_repair k, repaired v)) ms)) fs) ts"
      using Cons by (intro outer.IH) (simp, simp, rule outer.prems(3), simp)
    then show ?thesis using outer.prems(2) m v Cons by (auto simp: complete_def case_prod_unfold)
  qed
qed simp

lemma parse_value_tokens:
  "length fs + json_depth v \<le> maxNestingDepth \<Longrightarrow>
     parse_tokens (Going fs Value) (value_tokens v @ ts) = parse_tokens (complete (repaired v) fs) ts"
proof (induction v arbitrary: fs ts rule: value_tokens.induct)
  case (1 vs)
  then have d: "\<And>v. v \<in> set vs \<Longrightarrow> Suc (length fs) + json_depth v \<le> maxNestingDepth" "length fs < maxNestingDepth"
    using fold_max_le [of "map json_depth vs" 0 "fold max (map json_depth vs) 0"] by fastforce+
  show ?case
  proof (cases vs)
    case Nil
    then show ?thesis using d by simp
  next
    case (Cons u us)
    have IH: "parse_tokens (Going (InArr ws # fs) Value) (value_tokens v @ ts) =
      parse_tokens (complete (repaired v) (InArr ws # fs)) ts" if "v \<in> set vs" for v ws ts
      using "1.IH" [OF that] d(1) [OF that] by simp
    have first: "parse_tokens (Going (InArr [] # fs) ValueOrClose) (comma_sep (map value_tokens vs) @ CloseArr # ts) =
       parse_tokens (Going (InArr [] # fs) Value) (comma_sep (map value_tokens vs) @ CloseArr # ts)"
      using parse_first_element [of fs u] Cons by (cases us) simp_all
    show ?thesis
      using parse_elements [where us = us and u = u and vs = "[]" and fs = fs and ts = ts] IH Cons first d(2) by simp
  qed
next
  case (2 kvs)
  then have d: "\<And>k v. (k, v) \<in> set kvs \<Longrightarrow> Suc (length fs) + json_depth v \<le> maxNestingDepth" "length fs < maxNestingDepth"
    using fold_max_le [of "map (\<lambda>(k, v). json_depth v) kvs" 0 "fold max (map (\<lambda>(k, v). json_depth v) kvs) 0"]
    by fastforce+
  have IH: "parse_tokens (Going (InObj ws key # fs) Value) (value_tokens v @ ts) =
    parse_tokens (complete (repaired v) (InObj ws key # fs)) ts" if "(k, v) \<in> set kvs" for k v ws key ts
    using "2.IH" [OF that refl] d(1) [OF that] by simp
  then have IH: "parse_tokens (Going (InObj ws key # fs) Value) (value_tokens (snd m) @ ts) =
    parse_tokens (complete (repaired (snd m)) (InObj ws key # fs)) ts" if "m \<in> set kvs" for m ws key ts
    using that by (cases m) simp
  show ?case
    using parse_members [of kvs fs "KeyOrClose []" "[]" ts] IH d(2) by (cases "kvs = []") simp_all
qed simp_all

text \<open>A value that can be written and is not nested too deeply reads back, its strings repaired.\<close>

lemma decode_text:
  assumes "writable v" "json_depth v \<le> maxNestingDepth" "number_ends r"
  shows "decode_first (json_text v @ r) = Some (repaired v)"
  using tokens_text [OF assms(1,3)] parse_value_tokens [of "[]" v "tokens r"] assms(2)
  by (simp add: decode_first_def complete_def)

lemma unmarshal_text:
  assumes "writable v" "json_depth v \<le> maxNestingDepth" "tokens r = []" "number_ends r"
  shows "unmarshal_json (json_text v @ r) = Some (repaired v)"
  using tokens_text [OF assms(1,4)] parse_value_tokens [of "[]" v "[]"] assms(2,3)
  by (simp add: unmarshal_json_def complete_def)

section \<open>What is read is UTF-8\<close>

definition one_rune :: "string \<Rightarrow> bool" where
  "one_rune u \<longleftrightarrow> rune_len (bytes_of u) = Some (length u)"

lemma valid_utf8_rune:
  assumes "one_rune u" "valid_utf8 v"
  shows "valid_utf8 (u @ v)"
proof -
  have u: "u \<noteq> []" using assms(1) rune_len_bounds [of "bytes_of u"] by (auto simp: one_rune_def)
  have "rune_len (bytes_of (u @ v)) = Some (length u)"
    using rune_len_local [of "bytes_of u" "length u" "bytes_of v"] assms(1)
    by (simp add: one_rune_def bytes_of_def)
  with u have "utf8_repair (u @ v) = u @ utf8_repair v"
    by (subst utf8_repair.simps) simp
  with assms(2) show ?thesis by (simp add: valid_utf8_def)
qed

lemma one_rune_take:
  assumes "rune_len (bytes_of s) = Some n"
  shows "one_rune (take n s)"
proof -
  have "n \<le> length s" using rune_len_bounds [OF assms] by (simp add: bytes_of_def)
  then show ?thesis
    using rune_len_local [OF assms, of "[]"] by (simp add: one_rune_def bytes_of_def take_map)
qed

lemma of_char_bytes: "list_all (\<lambda>n. n < 256) ns \<Longrightarrow> bytes_of (map char_of ns) = ns"
  by (induction ns) (simp_all add: bytes_of_def)

lemma one_rune_encode:
  assumes "n < 55296 \<or> 57344 \<le> n" "n < 1114112"
  shows "one_rune (encode_rune n)"
proof -
  consider "n < 128" | "128 \<le> n" "n < 2048" | "2048 \<le> n" "n < 65536" | "65536 \<le> n" by linarith
  then show ?thesis
  proof cases
    case 1
    then show ?thesis by (simp add: one_rune_def encode_rune_def bytes_of_def)
  next
    case 2
    then have "2 \<le> n div 64" "n div 64 < 32" by auto
    with 2 show ?thesis
      by (simp add: one_rune_def encode_rune_def bytes_of_def is_cont_def)
  next
    case 3
    define a where "a = n div 4096"
    define b where "b = n div 64 mod 64"
    define c where "c = n mod 64"
    have bounds: "a < 16" "b < 64" "c < 64" using 3 by (auto simp: a_def b_def c_def)
    have "n div 4096 = n div 64 div 64" by (simp add: div_mult2_eq [symmetric])
    then have "n div 64 = 64 * a + b" unfolding a_def b_def by simp
    then have n: "n = 4096 * a + 64 * b + c" using mult_div_mod_eq [of 64 n] unfolding c_def by linarith
    have "a = 0 \<Longrightarrow> 32 \<le> b" "a = 13 \<Longrightarrow> b \<le> 31" using n bounds 3 assms by auto
    with bounds 3 show ?thesis
      by (simp add: one_rune_def encode_rune_def bytes_of_def is_cont_def a_def [symmetric] b_def [symmetric] c_def [symmetric])
  next
    case 4
    define a where "a = n div 262144"
    define b where "b = n div 4096 mod 64"
    define c where "c = n div 64 mod 64"
    define d where "d = n mod 64"
    have bounds: "a < 5" "b < 64" "c < 64" "d < 64" using assms by (auto simp: a_def b_def c_def d_def)
    have "n div 262144 = n div 4096 div 64" "n div 4096 = n div 64 div 64" by (simp_all add: div_mult2_eq [symmetric])
    then have "n div 4096 = 64 * a + b" "n div 64 = 64 * (n div 4096) + c" unfolding a_def b_def c_def by simp_all
    then have n: "n = 262144 * a + 4096 * b + 64 * c + d" using mult_div_mod_eq [of 64 n] unfolding d_def by linarith
    have "a = 0 \<Longrightarrow> 16 \<le> b" "a = 4 \<Longrightarrow> b \<le> 15" using n bounds 4 assms by auto
    with bounds 4 show ?thesis
      by (simp add: one_rune_def encode_rune_def bytes_of_def is_cont_def a_def [symmetric] b_def [symmetric]
          c_def [symmetric] d_def [symmetric])
  qed
qed

lemma one_rune_replacement [simp]: "one_rune replacement"
  unfolding replacement_def by (rule one_rune_encode) simp_all

lemma getu4_bound: "getu4 s = Some (u, r) \<Longrightarrow> u < 65536"
proof (cases s rule: getu4.cases)
  case (1 a b c d r')
  have h: "hex_value x = Some y \<Longrightarrow> y < 16" for x y
    by (auto simp: hex_value_def Let_def split: if_splits)
  assume "getu4 s = Some (u, r)"
  with 1 obtain a' b' c' d' where v: "hex_value a = Some a'" "hex_value b = Some b'" "hex_value c = Some c'"
    "hex_value d = Some d'" "u = ((a' * 16 + b') * 16 + c') * 16 + d'"
    by (auto split: option.splits)
  from v(1-4)[THEN h] v(5) show ?thesis by simp
qed simp_all

lemma read_unicode_rune: "read_unicode s = Some (u, r) \<Longrightarrow> one_rune u"
  by (auto simp: read_unicode_def split: option.splits if_splits prod.splits
      intro!: one_rune_encode dest!: getu4_bound)

lemma read_escape_rune: "read_escape s = Some (u, r) \<Longrightarrow> one_rune u"
  by (auto simp: read_escape_def one_rune_def bytes_of_def split: list.splits if_splits
      dest!: read_unicode_rune)

lemma read_string_valid: "read_string s = Some (v, r) \<Longrightarrow> valid_utf8 v"
proof (induction s arbitrary: v r rule: read_string.induct)
  case (1 s)
  show ?case
  proof (cases s)
    case (Cons c cs)
    let ?b = "of_char c :: nat"
    consider "?b = 34" | "?b = 92" | "?b \<noteq> 34" "?b \<noteq> 92" by blast
    then show ?thesis
    proof cases
      case 1
      then have "c = CHR 0x22" by (simp only: code_34_92)
      then show ?thesis using "1.prems" Cons by simp
    next
      case 2
      then have c: "c = CHR 0x5C" by (simp only: code_34_92)
      with "1.prems" Cons obtain u r' v' where esc: "read_escape cs = Some (u, r')" "read_string r' = Some (v', r)"
        "v = u @ v'"
        by (auto simp: read_string_escape split: option.splits)
      then have "valid_utf8 v'" using "1.IH"(1) [OF Cons refl _ 2 esc(1) refl esc(2)] by (simp add: c)
      then show ?thesis unfolding esc(3) by (intro valid_utf8_rune read_escape_rune [OF esc(1)])
    next
      case 3
      note eq = "1.prems" [unfolded Cons read_string_rune [OF 3]]
      then have "\<not> ?b < 32" by (auto split: if_splits)
      show ?thesis
      proof (cases "rune_len (bytes_of s)")
        case None
        then obtain v' where v: "read_string cs = Some (v', r)" "v = replacement @ v'"
          using eq \<open>\<not> ?b < 32\<close> by (auto simp: Cons)
        show ?thesis
          unfolding v(2) using "1.IH"(2) [OF Cons refl 3 \<open>\<not> ?b < 32\<close> None v(1)] by (intro valid_utf8_rune) simp_all
      next
        case (Some n)
        then obtain v' where v: "read_string (drop n s) = Some (v', r)" "v = take n s @ v'"
          using eq \<open>\<not> ?b < 32\<close> by (auto simp: Cons)
        show ?thesis
          unfolding v(2) using "1.IH"(3) [OF Cons refl 3 \<open>\<not> ?b < 32\<close> Some v(1)]
          by (intro valid_utf8_rune one_rune_take [OF Some])
      qed
    qed
  qed (use "1.prems" in simp)
qed

text \<open>Every string and key of a value.\<close>

fun clean_json :: "json \<Rightarrow> bool" where
  "clean_json (JStr s) \<longleftrightarrow> valid_utf8 s"
| "clean_json (JArr vs) \<longleftrightarrow> list_all clean_json vs"
| "clean_json (JObj kvs) \<longleftrightarrow> list_all (\<lambda>(k, v). valid_utf8 k \<and> clean_json v) kvs"
| "clean_json _ \<longleftrightarrow> True"

fun clean_frame :: "frame \<Rightarrow> bool" where
  "clean_frame (InArr vs) \<longleftrightarrow> list_all clean_json vs"
| "clean_frame (InObj kvs k) \<longleftrightarrow> clean_json (JObj kvs) \<and> valid_utf8 k"

fun clean_expect :: "expect \<Rightarrow> bool" where
  "clean_expect (KeyOrClose kvs) \<longleftrightarrow> clean_json (JObj kvs)"
| "clean_expect (Key kvs) \<longleftrightarrow> clean_json (JObj kvs)"
| "clean_expect (ColonOf kvs k) \<longleftrightarrow> clean_json (JObj kvs) \<and> valid_utf8 k"
| "clean_expect _ \<longleftrightarrow> True"

fun clean_state :: "parse_state \<Rightarrow> bool" where
  "clean_state Failed \<longleftrightarrow> True"
| "clean_state (Done v) \<longleftrightarrow> clean_json v"
| "clean_state (Going fs e) \<longleftrightarrow> list_all clean_frame fs \<and> clean_expect e"

fun clean_token :: "token \<Rightarrow> bool" where
  "clean_token (Atom v) \<longleftrightarrow> clean_json v"
| "clean_token _ \<longleftrightarrow> True"

lemma clean_complete: "clean_json v \<Longrightarrow> list_all clean_frame fs \<Longrightarrow> clean_state (complete v fs)"
  by (cases "(v, fs)" rule: deliver.cases) (auto simp: complete_def)

lemma clean_parse_value: "list_all clean_frame fs \<Longrightarrow> clean_token t \<Longrightarrow> clean_state (parse_value fs t)"
  by (cases t) (auto intro: clean_complete)

lemma clean_parse_token:
  "list_all clean_frame fs \<Longrightarrow> clean_expect e \<Longrightarrow> clean_token t \<Longrightarrow> clean_state (parse_token fs e t)"
  by (induction fs e t rule: parse_token.induct) (auto intro!: clean_complete clean_parse_value simp: list_all_iff)

lemma clean_first_token: "first_token s = Some (t, r) \<Longrightarrow> clean_token t"
  by (auto simp: first_token_def split: list.splits if_splits dest!: read_string_valid)

lemma clean_tokens: "list_all clean_token (tokens s)"
proof (induction s rule: tokens.induct)
  case (1 s)
  show ?case
  proof (cases "first_token (dropWhile is_space s)")
    case (Some p)
    then obtain t r where "first_token (dropWhile is_space s) = Some (t, r)" by (cases p) simp
    moreover from first_token_shorter [OF this] have "dropWhile is_space s \<noteq> []"
      by (cases "dropWhile is_space s") simp_all
    ultimately show ?thesis
      using 1 [of "dropWhile is_space s" "(t, r)" t r] clean_first_token by (subst tokens.simps) simp
  qed (subst tokens.simps, simp)
qed

lemma clean_parse_tokens:
  "clean_state st \<Longrightarrow> list_all clean_token ts \<Longrightarrow> parse_tokens st ts = Some (v, r) \<Longrightarrow> clean_json v"
  by (induction st ts rule: parse_tokens.induct) (auto dest: clean_parse_token)

theorem decoded_clean: "decode_first s = Some v \<Longrightarrow> clean_json v"
  using clean_parse_tokens [of "Going [] Value" "tokens s"] clean_tokens [of s]
  by (auto simp: decode_first_def)

lemma unmarshalled_clean: "unmarshal_json s = Some v \<Longrightarrow> clean_json v"
  using clean_parse_tokens [of "Going [] Value" "tokens s"] clean_tokens [of s]
  by (auto simp: unmarshal_json_def split: option.splits list.splits prod.splits)

lemma repaired_clean: "clean_json v \<Longrightarrow> repaired v = v"
  by (induction v rule: repaired.induct) (auto simp: valid_utf8_def list_all_iff intro!: map_idI)

end
