(* ===== verification/Go_Json_Decode.thy ===== *)
theory Go_Json_Decode
  imports Go_Json_Read
begin

text \<open>
  Decoding into typed values, as \<open>encoding/json\<close> does: a value is stored into a variable that
  has a value already, so that \<open>null\<close> leaves a string, a number or a structure alone; the
  members of an object go to the fields of the same name, or of the same name up to case, and
  unknown members are ignored.  A member of the wrong type is an error of the whole decoding:
  every caller drops what was decoded then.
\<close>

section \<open>Values\<close>

text \<open>How a JSON value goes into a variable of type \<open>'a\<close>: \<open>None\<close> is the type error.\<close>

type_synonym 'a into = "json \<Rightarrow> 'a \<Rightarrow> 'a option"

definition into_string :: "string into" where
  "into_string j old = (case j of JStr s \<Rightarrow> Some s | JNull \<Rightarrow> Some old | _ \<Rightarrow> None)"

definition into_bool :: "bool into" where
  "into_bool j old = (case j of JBool b \<Rightarrow> Some b | JNull \<Rightarrow> Some old | _ \<Rightarrow> None)"

text \<open>\<open>ParseInt\<close> and \<open>ParseUint\<close> of the literal, with the width of the variable.\<close>

definition into_int :: "int into" where
  "into_int j old = (case j of JNum n \<Rightarrow> atoi n | JNull \<Rightarrow> Some old | _ \<Rightarrow> None)"

definition parse_uint :: "nat \<Rightarrow> string \<Rightarrow> nat option" where
  "parse_uint width n =
     (if n = [] then None
      else (case read_digits 0 n of None \<Rightarrow> None | Some v \<Rightarrow> if v < 2 ^ width then Some v else None))"

definition into_uint :: "nat \<Rightarrow> nat into" where
  "into_uint width j old = (case j of JNum n \<Rightarrow> parse_uint width n | JNull \<Rightarrow> Some old | _ \<Rightarrow> None)"

text \<open>
  \<open>ParseFloat\<close>, exactly: what would round to an infinity is out of range.
\<close>

definition exponent_value :: "string \<Rightarrow> int option" where
  "exponent_value e =
     (case e of
        [] \<Rightarrow> Some 0
      | _ # r \<Rightarrow>
          (case read_sign ''+-'' r of
             (sg, ds) \<Rightarrow> map_option (\<lambda>k. if sg = ''-'' then - int k else int k) (read_digits 0 ds)))"

definition number_value :: "string \<Rightarrow> rat option" where
  "number_value n =
     (case read_sign ''-'' n of
        (sg, s1) \<Rightarrow>
          (case digit_run s1 of
             (i, s2) \<Rightarrow>
               (case read_fraction s2 of
                  None \<Rightarrow> None
                | Some (f, s3) \<Rightarrow>
                    (case read_exponent s3 of
                       None \<Rightarrow> None
                     | Some (e, _) \<Rightarrow>
                         (case (read_digits 0 (i @ tl f), exponent_value e) of
                            (Some m, Some k) \<Rightarrow>
                              (let k = k - int (length (tl f));
                                   v = (if k < 0 then of_nat m / 10 ^ nat (- k) else of_nat m * 10 ^ nat k)
                               in if v < 2 ^ 1024 - 2 ^ 970
                                  then Some (if sg = [] then v else - v) else None)
                          | _ \<Rightarrow> None)))))"

definition into_rat :: "rat into" where
  "into_rat j old = (case j of JNum n \<Rightarrow> number_value n | JNull \<Rightarrow> Some old | _ \<Rightarrow> None)"

text \<open>A pointer: \<open>null\<close> is nil; a value goes into what is pointed to, or into a new zero.\<close>

definition into_pointer :: "'a into \<Rightarrow> 'a \<Rightarrow> 'a option into" where
  "into_pointer f zero j old =
     (case j of
        JNull \<Rightarrow> Some None
      | _ \<Rightarrow> map_option Some (f j (case old of None \<Rightarrow> zero | Some x \<Rightarrow> x)))"

text \<open>A slice: the elements go into those that are there, in place, and then into zero ones.\<close>

fun into_elements :: "'a into \<Rightarrow> 'a \<Rightarrow> json list \<Rightarrow> 'a list \<Rightarrow> 'a list option" where
  "into_elements f zero [] old = Some []"
| "into_elements f zero (j # js) old =
     (case f j (case old of [] \<Rightarrow> zero | x # _ \<Rightarrow> x) of
        None \<Rightarrow> None
      | Some y \<Rightarrow> map_option ((#) y) (into_elements f zero js (tl old)))"

definition into_slice :: "'a into \<Rightarrow> 'a \<Rightarrow> 'a list into" where
  "into_slice f zero j old =
     (case j of JArr js \<Rightarrow> into_elements f zero js old | JNull \<Rightarrow> Some [] | _ \<Rightarrow> None)"

text \<open>A map keeps its entries; each member's value starts from zero.\<close>

fun into_entries :: "'a into \<Rightarrow> 'a \<Rightarrow> (string \<times> json) list \<Rightarrow> (string \<rightharpoonup> 'a) \<Rightarrow> (string \<rightharpoonup> 'a) option" where
  "into_entries f zero [] m = Some m"
| "into_entries f zero ((k, j) # kjs) m =
     (case f j zero of None \<Rightarrow> None | Some x \<Rightarrow> into_entries f zero kjs (m(k \<mapsto> x)))"

definition into_map :: "'a into \<Rightarrow> 'a \<Rightarrow> (string \<rightharpoonup> 'a) into" where
  "into_map f zero j old =
     (case j of JObj kjs \<Rightarrow> into_entries f zero kjs old | JNull \<Rightarrow> Some Map.empty | _ \<Rightarrow> None)"

section \<open>Structures\<close>

text \<open>
  Names are compared up to the case of ASCII letters; besides, the Kelvin sign and the long s
  fold to K and S.
\<close>

fun fold_name :: "string \<Rightarrow> string" where
  "fold_name [] = []"
| "fold_name (c # cs) =
     (if has_prefix (encode_rune 8490) (c # cs) then CHR ''K'' # fold_name (drop 2 cs)
      else if has_prefix (encode_rune 383) (c # cs) then CHR ''S'' # fold_name (drop 1 cs)
      else if 97 \<le> (of_char c :: nat) \<and> (of_char c :: nat) \<le> 122
      then char_of (of_char c - 32 :: nat) # fold_name cs
      else c # fold_name cs)"

text \<open>The fields of a structure: each name, and how a value goes into that field.\<close>

type_synonym 'r fields = "(string \<times> 'r into) list"

definition field :: "('r \<Rightarrow> 'a) \<Rightarrow> (('a \<Rightarrow> 'a) \<Rightarrow> 'r \<Rightarrow> 'r) \<Rightarrow> 'a into \<Rightarrow> 'r into" where
  "field get upd f j r = map_option (\<lambda>x. upd (\<lambda>_. x) r) (f j (get r))"

definition find_field :: "'r fields \<Rightarrow> string \<Rightarrow> 'r into option" where
  "find_field fs k =
     (case map_of fs k of
        Some f \<Rightarrow> Some f
      | None \<Rightarrow> map_option snd (find (\<lambda>(n, f). fold_name n = fold_name k) fs))"

fun into_members :: "'r fields \<Rightarrow> (string \<times> json) list \<Rightarrow> 'r \<Rightarrow> 'r option" where
  "into_members fs [] r = Some r"
| "into_members fs ((k, j) # kjs) r =
     (case find_field fs k of
        None \<Rightarrow> into_members fs kjs r
      | Some f \<Rightarrow> (case f j r of None \<Rightarrow> None | Some r \<Rightarrow> into_members fs kjs r))"

definition into_struct :: "'r fields \<Rightarrow> 'r into" where
  "into_struct fs j r =
     (case j of JObj kjs \<Rightarrow> into_members fs kjs r | JNull \<Rightarrow> Some r | _ \<Rightarrow> None)"

text \<open>
  \<open>Decode\<close> and \<open>Unmarshal\<close> into a zero value.
\<close>

definition decode_into :: "'a into \<Rightarrow> 'a \<Rightarrow> string \<Rightarrow> 'a option" where
  "decode_into f zero s = Option.bind (decode_first s) (\<lambda>j. f j zero)"

definition unmarshal_into :: "'a into \<Rightarrow> 'a \<Rightarrow> string \<Rightarrow> 'a option" where
  "unmarshal_into f zero s = Option.bind (unmarshal_json s) (\<lambda>j. f j zero)"

section \<open>Members that may be omitted\<close>

definition opt_member :: "bool \<Rightarrow> string \<Rightarrow> json \<Rightarrow> (string \<times> json) list" where
  \<comment> \<open>a field tagged \<open>omitempty\<close>, left out when empty\<close>
  "opt_member omit k j = (if omit then [] else [(k, j)])"

text \<open>Reading back a member that is left out exactly when the field has its old value anyway.\<close>

lemma into_opt_member:
  assumes "find_field fs k = Some (field get upd f)" "f j (get r) = Some x"
    and "omit \<Longrightarrow> upd (\<lambda>_. x) r = r"
  shows "into_members fs (opt_member omit k j @ kjs) r = into_members fs kjs (upd (\<lambda>_. x) r)"
  using assms by (simp add: opt_member_def field_def)

lemma into_member:
  assumes "find_field fs k = Some (field get upd f)" "f j (get r) = Some x"
  shows "into_members fs ((k, j) # kjs) r = into_members fs kjs (upd (\<lambda>_. x) r)"
  using assms by (simp add: field_def)

lemma into_simps [simp]:
  "into_string (JStr s) old = Some s" "into_string JNull old = Some old"
  "into_bool (JBool b) old' = Some b" "into_bool JNull old' = Some old'"
  by (simp_all add: into_string_def into_bool_def)

lemma into_int_itoa: "min_int64 \<le> i \<Longrightarrow> i \<le> max_int64 \<Longrightarrow> into_int (JNum (itoa i)) old = Some i"
  by (simp add: into_int_def atoi_itoa)

lemma into_uint_digits: "n < 2 ^ width \<Longrightarrow> into_uint width (JNum (dec_digits n)) old = Some n"
  by (simp add: into_uint_def parse_uint_def read_dec_digits)

lemma into_strings: "into_slice into_string z (JArr (map JStr ss)) old = Some ss"
proof -
  have "into_elements into_string z (map JStr ss) old = Some ss" for old
    by (induction ss arbitrary: old) auto
  then show ?thesis by (simp add: into_slice_def)
qed

section \<open>Shapes\<close>

lemma list_all_opt [simp]: "list_all P (opt_member omit k j) \<longleftrightarrow> omit \<or> P (k, j)"
  by (simp add: opt_member_def)

lemma depth_obj: "json_depth (JObj kvs) \<le> Suc n \<longleftrightarrow> list_all (\<lambda>(k, v). json_depth v \<le> n) kvs"
  by (auto simp: fold_max_le list_all_iff)

lemma depth_arr: "json_depth (JArr vs) \<le> Suc n \<longleftrightarrow> list_all (\<lambda>v. json_depth v \<le> n) vs"
  by (auto simp: fold_max_le list_all_iff)

text \<open>What holds of a variable is kept, if every field keeps it.\<close>

definition keeps :: "('a \<Rightarrow> bool) \<Rightarrow> 'a into \<Rightarrow> bool" where
  "keeps P f \<longleftrightarrow> (\<forall>j x y. clean_json j \<longrightarrow> P x \<longrightarrow> f j x = Some y \<longrightarrow> P y)"

lemma keepsD: "keeps P f \<Longrightarrow> f j x = Some y \<Longrightarrow> clean_json j \<Longrightarrow> P x \<Longrightarrow> P y"
  by (auto simp: keeps_def)

lemma find_field_in: "find_field fs k = Some f \<Longrightarrow> \<exists>n. (n, f) \<in> set fs"
  by (auto simp: find_field_def find_Some_iff split: option.splits dest: map_of_SomeD) (metis nth_mem)

lemma keeps_struct:
  assumes "list_all (\<lambda>(n, f). keeps P f) fs"
  shows "keeps P (into_struct fs)"
proof -
  have "P y" if "into_members fs kjs r = Some y" "list_all (\<lambda>(k, v). valid_utf8 k \<and> clean_json v) kjs" "P r" for kjs r y
    using that
  proof (induction kjs arbitrary: r)
    case (Cons kj kjs)
    obtain k j where kj: "kj = (k, j)" by fastforce
    show ?case
    proof (cases "find_field fs k")
      case None
      then show ?thesis using Cons kj by simp
    next
      case (Some f)
      with assms have "keeps P f" using find_field_in [OF Some] by (auto simp: list_all_iff)
      moreover obtain r' where "f j r = Some r'" "into_members fs kjs r' = Some y"
        using Cons.prems(1) kj Some by (auto split: option.splits)
      ultimately show ?thesis using Cons.IH Cons.prems kj by (auto dest: keepsD)
    qed
  qed simp
  then show ?thesis by (auto simp: keeps_def into_struct_def split: json.splits)
qed

lemma keeps_string [simp]: "keeps valid_utf8 into_string"
  by (auto simp: keeps_def into_string_def split: json.splits)

lemma keeps_slice:
  assumes "keeps P f" "P zero"
  shows "keeps (list_all P) (into_slice f zero)"
proof -
  have "list_all P ys" if "into_elements f zero js old = Some ys" "list_all clean_json js" "list_all P old" for js old ys
    using that
  proof (induction js arbitrary: old ys)
    case (Cons j js)
    obtain y ys' where y: "f j (case old of [] \<Rightarrow> zero | x # _ \<Rightarrow> x) = Some y"
      "into_elements f zero js (tl old) = Some ys'" "ys = y # ys'"
      using Cons.prems(1) by (auto split: option.splits)
    have "P (case old of [] \<Rightarrow> zero | x # _ \<Rightarrow> x)" "list_all P (tl old)"
      using Cons.prems(3) assms(2) by (cases old; simp)+
    then show ?case
      using Cons.IH [OF y(2)] Cons.prems(2) keepsD [OF assms(1) y(1)] by (simp add: y(3))
  qed simp
  then show ?thesis by (auto simp: keeps_def into_slice_def split: json.splits)
qed

section \<open>Decimal integers are number literals\<close>

lemma dec_digits_all_digits: "list_all is_digit (dec_digits n)"
  by (auto simp: list_all_iff is_digit_def dest: dec_digits_are_digits)

lemma dec_digits_no_leading_zero: "0 < n \<Longrightarrow> hd (dec_digits n) \<noteq> CHR ''0''"
proof (induction n rule: dec_digits.induct)
  case (1 n)
  show ?case
  proof (cases "n < 10")
    case True
    have "digit_char 0 = CHR ''0''" by (simp add: digit_char_def char_of_def bit_Suc_0_iff)
    then show ?thesis using True 1(2) digit_char_inj [of n 0] by (simp add: dec_digits.simps [of n])
  next
    case False
    then show ?thesis using 1 by (simp add: dec_digits.simps [of n])
  qed
qed

lemma read_integer_digits:
  "read_integer (dec_digits n) = Some (dec_digits n, [])"
proof (cases "n = 0")
  case True
  have "dec_digits 0 = ''0''" by (simp add: dec_digits.simps digit_char_def char_of_def bit_Suc_0_iff)
  then show ?thesis by (simp add: True read_integer_def)
next
  case False
  obtain c cs where c: "dec_digits n = c # cs" by (cases "dec_digits n") auto
  have "digit_run (dec_digits n) = (dec_digits n, [])"
    using dec_digits_all_digits [of n] by (simp add: digit_run_def list_all_iff takeWhile_eq_all_conv)
  then show ?thesis
    using dec_digits_no_leading_zero [of n] dec_digits_all_digits [of n] False c by (simp add: read_integer_def)
qed

lemma number_text_digits [simp]: "number_text (dec_digits n)"
proof -
  obtain c cs where c: "dec_digits n = c # cs" by (cases "dec_digits n") auto
  then have "c \<noteq> CHR ''-''" using dec_digits_all_digits [of n] by (auto simp: is_digit_def)
  then show ?thesis
    using read_integer_digits [of n] c
    by (simp add: number_text_def read_number_def read_sign_def read_fraction_def read_exponent_def)
qed

lemma number_text_itoa [simp]: "number_text (itoa i)"
proof (cases "i < 0")
  case True
  then show ?thesis
    using read_integer_digits [of "nat (- i)"]
    by (simp add: itoa_def number_text_def read_number_def read_sign_def read_fraction_def read_exponent_def)
qed (simp add: itoa_def)

end
