(* ===== verification/Json_Codec.thy ===== *)
theory Json_Codec
  imports Go_Json_Decode
begin

text \<open>
  Types with a JSON form.  \<open>MarshalIndent\<close>'s text, and the contract between a type's encoding
  and its decoder (\<open>json_codec\<close>): under it, whichever way the program writes a value (compact,
  with the encoder's line break, indented), it reads the value back.  \<open>json_relay\<close> adds that the
  decoder only yields values that can be written again.
\<close>

section \<open>Indented text\<close>

text \<open>\<open>MarshalIndent\<close> with two spaces: an empty array or object stays on its line.\<close>

definition new_line :: "nat \<Rightarrow> string" where
  "new_line d = nl @ replicate (2 * d) CHR 0x20"

fun json_indent :: "nat \<Rightarrow> json \<Rightarrow> string" where
  "json_indent d (JArr vs) =
     (if vs = [] then ''[]''
      else ''['' @ new_line (Suc d) @ join_with ('','' @ new_line (Suc d)) (map (json_indent (Suc d)) vs) @
           new_line d @ '']'')"
| "json_indent d (JObj kvs) =
     (if kvs = [] then [CHR 0x7B, CHR 0x7D]
      else [CHR 0x7B] @ new_line (Suc d) @
           join_with ('','' @ new_line (Suc d)) (map (\<lambda>(k, v). json_string k @ '': '' @ json_indent (Suc d) v) kvs) @
           new_line d @ [CHR 0x7D])"
| "json_indent d v = json_text v"

lemma tokens_blank [simp]: "tokens (CHR 0x0A # r) = tokens r" "tokens (CHR 0x20 # r) = tokens r"
  by (simp_all add: tokens_space is_space_def)

lemma tokens_new_line [simp]: "tokens (new_line d @ r) = tokens r"
proof -
  have "tokens (replicate n CHR 0x20 @ r) = tokens r" for n by (induction n) simp_all
  then show ?thesis by (simp add: new_line_def nl_def)
qed

lemma number_ends_new_line [simp]: "number_ends (new_line d @ r)"
  by (simp add: new_line_def nl_def)

lemma tokens_join_lines:
  assumes "\<And>p r. p \<in> set ps \<Longrightarrow> number_ends r \<Longrightarrow> tokens (f p @ r) = g p @ tokens r" "number_ends r"
  shows "tokens (join_with ('','' @ new_line d) (map f ps) @ r) = comma_sep (map g ps) @ tokens r"
  using assms
proof (induction ps)
  case (Cons p ps)
  show ?case
  proof (cases ps)
    case Nil
    then show ?thesis using Cons.prems by simp
  next
    case (Cons q qs)
    have "tokens (join_with ('','' @ new_line d) (map f ps) @ r) = comma_sep (map g ps) @ tokens r"
      using Cons.IH Cons.prems by simp
    then show ?thesis using Cons Cons.prems by simp
  qed
qed simp

lemma tokens_indent:
  "writable v \<Longrightarrow> number_ends r \<Longrightarrow> tokens (json_indent d v @ r) = value_tokens v @ tokens r"
proof (induction d v arbitrary: r rule: json_indent.induct)
  case (1 d vs)
  have "tokens (join_with ('','' @ new_line (Suc d)) (map (json_indent (Suc d)) vs) @ new_line d @ CHR '']'' # r) =
      comma_sep (map value_tokens vs) @ tokens (new_line d @ CHR '']'' # r)" if "vs \<noteq> []"
    using 1 that by (intro tokens_join_lines) (auto simp: list_all_iff)
  then show ?case by simp
next
  case (2 d kvs)
  have "tokens (join_with ('','' @ new_line (Suc d))
        (map (\<lambda>(k, v). json_string k @ '': '' @ json_indent (Suc d) v) kvs) @ new_line d @ CHR 0x7D # r) =
      comma_sep (map (\<lambda>(k, v). Atom (JStr (utf8_repair k)) # Colon # value_tokens v) kvs) @
        tokens (new_line d @ CHR 0x7D # r)" if "kvs \<noteq> []"
    using 2 that by (intro tokens_join_lines) (auto simp: list_all_iff)
  then show ?case by simp
qed (simp_all add: tokens_number json_bool_def)

lemma unmarshal_indented:
  assumes "writable v" "json_depth v \<le> maxNestingDepth"
  shows "unmarshal_json (json_indent 0 v) = Some (repaired v)"
  using tokens_indent [OF assms(1), of "[]" 0] parse_value_tokens [of "[]" v "[]"] assms(2)
  by (simp add: unmarshal_json_def complete_def)

section \<open>The contract\<close>

lemma number_ends_nl [simp]: "number_ends nl" "tokens nl = []"
  by (simp_all add: nl_def)

locale json_codec =
  fixes enc :: "'a \<Rightarrow> json" and dec :: "'a into" and zero :: 'a and clean :: "'a \<Rightarrow> bool"
  assumes dec_enc: "clean x \<Longrightarrow> dec (enc x) zero = Some x"
    and clean_enc: "clean x \<Longrightarrow> clean_json (enc x)"
    and writable_enc: "writable (enc x)"
    and depth_enc: "json_depth (enc x) \<le> maxNestingDepth"
begin

lemma repaired_enc: "clean x \<Longrightarrow> repaired (enc x) = enc x"
  by (rule repaired_clean [OF clean_enc])

lemma line_reads_back: "clean x \<Longrightarrow> decode_into dec zero (json_text (enc x) @ nl) = Some x"
  using decode_text [OF writable_enc depth_enc, of nl x] by (simp add: decode_into_def repaired_enc dec_enc)

lemma text_reads_back: "clean x \<Longrightarrow> unmarshal_into dec zero (json_text (enc x)) = Some x"
  using unmarshal_text [OF writable_enc depth_enc, of "[]" x] by (simp add: unmarshal_into_def repaired_enc dec_enc)

lemma indented_reads_back: "clean x \<Longrightarrow> unmarshal_into dec zero (json_indent 0 (enc x)) = Some x"
  using unmarshal_indented [OF writable_enc depth_enc, of x] by (simp add: unmarshal_into_def repaired_enc dec_enc)

text \<open>Different values have different texts.\<close>

lemma enc_inject: "clean x \<Longrightarrow> clean y \<Longrightarrow> enc x = enc y \<longleftrightarrow> x = y"
  by (metis dec_enc option.inject)

end

locale json_relay = json_codec +
  assumes keeps_dec: "keeps clean dec" and clean_zero: "clean zero"
begin

lemma decoded_is_clean: "decode_into dec zero s = Some x \<Longrightarrow> clean x"
  using keepsD [OF keeps_dec] clean_zero decoded_clean by (auto simp: decode_into_def bind_eq_Some_conv)

lemma unmarshalled_is_clean: "unmarshal_into dec zero s = Some x \<Longrightarrow> clean x"
  using keepsD [OF keeps_dec] clean_zero unmarshalled_clean by (auto simp: unmarshal_into_def bind_eq_Some_conv)

text \<open>What was read, written and read again, is the same; the clean values are those that can be read.\<close>

lemma relay_unchanged: "decode_into dec zero s = Some x \<Longrightarrow> decode_into dec zero (json_text (enc x) @ nl) = Some x"
  by (rule line_reads_back [OF decoded_is_clean])

lemma clean_iff_readable: "clean x \<longleftrightarrow> (\<exists>s. decode_into dec zero s = Some x)"
  using line_reads_back decoded_is_clean by blast

end

end
