(* ===== verification/Wire.thy ===== *)
theory Wire
  imports Signal Json_Codec "HOL-Library.List_Lexorder" "HOL-Library.Char_ord"
begin

text \<open>
  The signalling messages on the wire: \<open>signal.Msg\<close> as \<open>WriteJSON\<close> writes it and \<open>ReadJSON\<close>
  reads it (\<open>internal/signal/message.go\<close>), in either direction of the broker.
\<close>

section \<open>Writing\<close>

definition strings_json :: "string list \<Rightarrow> json" where
  \<comment> \<open>nil and empty slices are one list here; both texts, \<open>null\<close> and \<open>[]\<close>, are read as it\<close>
  "strings_json ss = (if ss = [] then JNull else JArr (map JStr ss))"

definition ice_json :: "ice_server \<Rightarrow> json" where
  "ice_json s =
     JObj ([(''urls'', strings_json (urls s))] @
       opt_member (username s = []) ''username'' (JStr (username s)) @
       opt_member (credential s = []) ''credential'' (JStr (credential s)))"

text \<open>A map is written in the order of its keys.\<close>

definition states_json :: "(string \<rightharpoonup> bool) \<Rightarrow> json" where
  "states_json m = JObj (map (\<lambda>k. (k, JBool (the (m k)))) (sorted_list_of_set (dom m)))"

definition opt_string_member :: "string \<Rightarrow> string \<Rightarrow> (string \<times> json) list" where
  "opt_string_member k s = opt_member (s = []) k (JStr s)"

definition msg_json :: "signal_msg \<Rightarrow> json" where
  "msg_json m =
     JObj ((''type'', JStr (m_type m)) #
       opt_string_member ''room'' (m_room m) @
       opt_string_member ''role'' (m_role m) @
       opt_string_member ''sdp'' (m_sdp m) @
       opt_string_member ''pubkey'' (m_pubkey m) @
       opt_string_member ''sig'' (m_sig m) @
       opt_member (m_iceServers m = []) ''iceServers'' (JArr (map ice_json (m_iceServers m))) @
       opt_string_member ''msg'' (m_msg m) @
       opt_string_member ''code'' (m_code m) @
       opt_string_member ''daemon'' (m_daemon m) @
       opt_string_member ''nonce'' (m_nonce m) @
       opt_string_member ''brokerNonce'' (m_brokerNonce m) @
       opt_string_member ''pair'' (m_pair m) @
       opt_member (\<not> m_takeover m) ''takeover'' (JBool (m_takeover m)) @
       opt_string_member ''brokerSig'' (m_brokerSig m) @
       opt_member (m_daemons m = []) ''daemons'' (JArr (map JStr (m_daemons m))) @
       opt_member (m_states m = Map.empty) ''states'' (states_json (m_states m)) @
       opt_member (\<not> m_trickle m) ''trickle'' (JBool (m_trickle m)) @
       opt_string_member ''candidate'' (m_candidate m) @
       opt_string_member ''sdpMid'' (m_sdpMid m) @
       opt_member (m_sdpMLineIndex m = None) ''sdpMLineIndex''
         (JNum (dec_digits (case m_sdpMLineIndex m of None \<Rightarrow> 0 | Some i \<Rightarrow> unat i))) @ [])"

definition encode_Msg :: "signal_msg \<Rightarrow> string" where
  "encode_Msg m = json_text (msg_json m) @ nl"

section \<open>Reading\<close>

definition ice_zero :: ice_server where
  "ice_zero = \<lparr>urls = [], username = [], credential = []\<rparr>"

definition ice_fields :: "ice_server fields" where
  "ice_fields =
     [(''urls'', field urls urls_update (into_slice into_string [])),
      (''username'', field username username_update into_string),
      (''credential'', field credential credential_update into_string)]"

definition into_word16 :: "16 word into" where
  "into_word16 j old = map_option of_nat (into_uint 16 j (unat old))"

definition msg_fields :: "signal_msg fields" where
  "msg_fields =
     [(''type'', field m_type m_type_update into_string),
      (''room'', field m_room m_room_update into_string),
      (''role'', field m_role m_role_update into_string),
      (''sdp'', field m_sdp m_sdp_update into_string),
      (''pubkey'', field m_pubkey m_pubkey_update into_string),
      (''sig'', field m_sig m_sig_update into_string),
      (''iceServers'', field m_iceServers m_iceServers_update (into_slice (into_struct ice_fields) ice_zero)),
      (''msg'', field m_msg m_msg_update into_string),
      (''code'', field m_code m_code_update into_string),
      (''daemon'', field m_daemon m_daemon_update into_string),
      (''nonce'', field m_nonce m_nonce_update into_string),
      (''brokerNonce'', field m_brokerNonce m_brokerNonce_update into_string),
      (''pair'', field m_pair m_pair_update into_string),
      (''takeover'', field m_takeover m_takeover_update into_bool),
      (''brokerSig'', field m_brokerSig m_brokerSig_update into_string),
      (''daemons'', field m_daemons m_daemons_update (into_slice into_string [])),
      (''states'', field m_states m_states_update (into_map into_bool False)),
      (''trickle'', field m_trickle m_trickle_update into_bool),
      (''candidate'', field m_candidate m_candidate_update into_string),
      (''sdpMid'', field m_sdpMid m_sdpMid_update into_string),
      (''sdpMLineIndex'', field m_sdpMLineIndex m_sdpMLineIndex_update (into_pointer into_word16 0))]"

definition zero_msg :: signal_msg where "zero_msg = msg_of_type []"

definition decode_Msg :: "string \<Rightarrow> signal_msg option" where
  "decode_Msg = decode_into (into_struct msg_fields) zero_msg"

section \<open>What is written is read back\<close>

lemma into_opt_string:
  assumes "find_field fs k = Some (field get upd into_string)" "s = [] \<Longrightarrow> upd (\<lambda>_. s) r = r"
  shows "into_members fs (opt_string_member k s @ kjs) r = into_members fs kjs (upd (\<lambda>_. s) r)"
  unfolding opt_string_member_def
  using into_opt_member [OF assms(1), where j = "JStr s" and x = s and omit = "s = []" and r = r and kjs = kjs] assms(2)
  by simp

lemma ice_find [simp]:
  "find_field ice_fields ''urls'' = Some (field urls urls_update (into_slice into_string []))"
  "find_field ice_fields ''username'' = Some (field username username_update into_string)"
  "find_field ice_fields ''credential'' = Some (field credential credential_update into_string)"
  by (simp_all add: find_field_def ice_fields_def)

lemma into_ice: "into_struct ice_fields (ice_json s) ice_zero = Some s"
proof -
  have "into_slice into_string [] (strings_json (urls s)) [] = Some (urls s)"
    using into_strings [of "[]" "urls s" "[]"] by (simp add: strings_json_def into_slice_def)
  then have "into_members ice_fields
      ((''urls'', strings_json (urls s)) # opt_string_member ''username'' (username s) @
        opt_string_member ''credential'' (credential s) @ []) ice_zero =
      Some \<lparr>urls = urls s, username = username s, credential = credential s\<rparr>"
    by (simp only: into_member [OF ice_find(1)] into_opt_string [OF ice_find(2)] into_opt_string [OF ice_find(3)]
        ice_zero_def ice_server.select_convs ice_server.update_convs into_members.simps(1))
  then show ?thesis by (simp add: ice_json_def into_struct_def opt_string_member_def)
qed

lemma into_ices: "into_slice (into_struct ice_fields) ice_zero (JArr (map ice_json ss)) [] = Some ss"
proof -
  have "into_elements (into_struct ice_fields) ice_zero (map ice_json ss) [] = Some ss"
    by (induction ss) (simp_all add: into_ice)
  then show ?thesis by (simp add: into_slice_def)
qed

lemma into_states:
  assumes "finite (dom m)"
  shows "into_map into_bool False (states_json m) Map.empty = Some m"
proof -
  have "into_entries into_bool False (map (\<lambda>k. (k, JBool (the (m k)))) ks) m' =
      Some (\<lambda>k. if k \<in> set ks then Some (the (m k)) else m' k)" for ks m'
    by (induction ks arbitrary: m') (auto simp: fun_eq_iff)
  then show ?thesis using assms by (auto simp: into_map_def states_json_def fun_eq_iff domIff)
qed

lemma into_index:
  "into_pointer into_word16 0 (JNum (dec_digits (unat i))) None = Some (Some i)"
proof -
  have "into_uint 16 (JNum (dec_digits (unat i))) 0 = Some (unat i)"
    by (rule into_uint_digits) (use unsigned_less [of i] in simp)
  then show ?thesis by (simp add: into_pointer_def into_word16_def)
qed

lemma msg_find:
  "find_field msg_fields ''type'' = Some (field m_type m_type_update into_string)"
  "find_field msg_fields ''room'' = Some (field m_room m_room_update into_string)"
  "find_field msg_fields ''role'' = Some (field m_role m_role_update into_string)"
  "find_field msg_fields ''sdp'' = Some (field m_sdp m_sdp_update into_string)"
  "find_field msg_fields ''pubkey'' = Some (field m_pubkey m_pubkey_update into_string)"
  "find_field msg_fields ''sig'' = Some (field m_sig m_sig_update into_string)"
  "find_field msg_fields ''iceServers'' =
     Some (field m_iceServers m_iceServers_update (into_slice (into_struct ice_fields) ice_zero))"
  "find_field msg_fields ''msg'' = Some (field m_msg m_msg_update into_string)"
  "find_field msg_fields ''code'' = Some (field m_code m_code_update into_string)"
  "find_field msg_fields ''daemon'' = Some (field m_daemon m_daemon_update into_string)"
  "find_field msg_fields ''nonce'' = Some (field m_nonce m_nonce_update into_string)"
  "find_field msg_fields ''brokerNonce'' = Some (field m_brokerNonce m_brokerNonce_update into_string)"
  "find_field msg_fields ''pair'' = Some (field m_pair m_pair_update into_string)"
  "find_field msg_fields ''takeover'' = Some (field m_takeover m_takeover_update into_bool)"
  "find_field msg_fields ''brokerSig'' = Some (field m_brokerSig m_brokerSig_update into_string)"
  "find_field msg_fields ''daemons'' = Some (field m_daemons m_daemons_update (into_slice into_string []))"
  "find_field msg_fields ''states'' = Some (field m_states m_states_update (into_map into_bool False))"
  "find_field msg_fields ''trickle'' = Some (field m_trickle m_trickle_update into_bool)"
  "find_field msg_fields ''candidate'' = Some (field m_candidate m_candidate_update into_string)"
  "find_field msg_fields ''sdpMid'' = Some (field m_sdpMid m_sdpMid_update into_string)"
  "find_field msg_fields ''sdpMLineIndex'' =
     Some (field m_sdpMLineIndex m_sdpMLineIndex_update (into_pointer into_word16 0))"
  by (simp_all add: find_field_def msg_fields_def)

lemma into_msg:
  assumes "finite (dom (m_states m))"
  shows "into_struct msg_fields (msg_json m) zero_msg = Some m"
proof -
  note opt = into_opt_member [OF msg_find(7)] into_opt_member [OF msg_find(14)] into_opt_member [OF msg_find(16)]
    into_opt_member [OF msg_find(17)] into_opt_member [OF msg_find(18)] into_opt_member [OF msg_find(21)]
  have last: "into_members msg_fields (opt_member (m_sdpMLineIndex m = None) ''sdpMLineIndex''
      (JNum (dec_digits (case m_sdpMLineIndex m of None \<Rightarrow> 0 | Some i \<Rightarrow> unat i))) @ []) r =
      Some (r\<lparr>m_sdpMLineIndex := m_sdpMLineIndex m\<rparr>)"
    if "m_sdpMLineIndex r = None" for r
  proof (cases "m_sdpMLineIndex m")
    case None
    have "r\<lparr>m_sdpMLineIndex := None\<rparr> = r" using that by (intro signal_msg.equality) simp_all
    then show ?thesis by (simp add: None opt_member_def)
  next
    case (Some i)
    then show ?thesis
      using that into_index [of i] into_member [OF msg_find(21), of "JNum (dec_digits (unat i))" r "Some i" "[]"]
      by (simp add: opt_member_def)
  qed
  show ?thesis
    unfolding msg_json_def into_struct_def json.case zero_msg_def msg_of_type_def
    by (simp only: into_member [OF msg_find(1)] into_opt_string [OF msg_find(2)] into_opt_string [OF msg_find(3)]
        into_opt_string [OF msg_find(4)] into_opt_string [OF msg_find(5)] into_opt_string [OF msg_find(6)]
        into_opt_string [OF msg_find(8)] into_opt_string [OF msg_find(9)] into_opt_string [OF msg_find(10)]
        into_opt_string [OF msg_find(11)] into_opt_string [OF msg_find(12)] into_opt_string [OF msg_find(13)]
        into_opt_string [OF msg_find(15)] into_opt_string [OF msg_find(19)] into_opt_string [OF msg_find(20)]
        opt last into_ices into_strings into_states [OF assms] into_simps simp_thms
        signal_msg.select_convs signal_msg.update_convs into_members.simps(1))
      simp
qed

section \<open>Messages whose text is UTF-8\<close>

definition clean_ice :: "ice_server \<Rightarrow> bool" where
  "clean_ice s \<longleftrightarrow> list_all valid_utf8 (urls s) \<and> valid_utf8 (username s) \<and> valid_utf8 (credential s)"

definition clean_msg :: "signal_msg \<Rightarrow> bool" where
  "clean_msg m \<longleftrightarrow>
     list_all valid_utf8
       [m_type m, m_room m, m_role m, m_sdp m, m_pubkey m, m_sig m, m_msg m, m_code m, m_daemon m, m_nonce m,
        m_brokerNonce m, m_pair m, m_brokerSig m, m_candidate m, m_sdpMid m] \<and>
     list_all clean_ice (m_iceServers m) \<and> list_all valid_utf8 (m_daemons m) \<and>
     finite (dom (m_states m)) \<and> (\<forall>k \<in> dom (m_states m). valid_utf8 k)"

lemma list_all_True [simp]: "list_all (\<lambda>_. True) xs"
  by (simp add: list_all_iff)

lemma writable_strings [simp]: "writable (strings_json ss)" "list_all (writable \<circ> JStr) ss"
  by (simp_all add: strings_json_def list_all_iff)

lemma writable_ice [simp]: "writable (ice_json s)"
  by (simp add: ice_json_def opt_member_def)

lemma depth_strings: "json_depth (strings_json ss) \<le> Suc 0"
  by (simp add: strings_json_def depth_arr list.pred_map comp_def del: json_depth.simps(1))

lemma depth_ice: "json_depth (ice_json s) \<le> Suc (Suc 0)"
  unfolding ice_json_def depth_obj by (simp add: depth_strings)

lemma msg_json_shape: "writable (msg_json m) \<and> json_depth (msg_json m) \<le> Suc (Suc (Suc (Suc 0)))"
proof
  show "writable (msg_json m)"
    by (simp add: msg_json_def opt_string_member_def states_json_def list.pred_map comp_def)
  show "json_depth (msg_json m) \<le> Suc (Suc (Suc (Suc 0)))"
    unfolding msg_json_def depth_obj states_json_def
    by (simp add: opt_string_member_def list.pred_map comp_def depth_arr depth_obj depth_ice del: json_depth.simps(1,2))
qed

lemma clean_strings [simp]: "clean_json (strings_json ss) \<longleftrightarrow> list_all valid_utf8 ss"
  by (simp add: strings_json_def list.pred_map comp_def)

lemma clean_states_json: "finite (dom m) \<Longrightarrow> \<forall>k \<in> dom m. valid_utf8 k \<Longrightarrow> clean_json (states_json m)"
  by (simp add: states_json_def list.pred_map comp_def list_all_iff)

lemma clean_ice_json [simp]: "clean_json (ice_json s) \<longleftrightarrow> clean_ice s"
  by (auto simp: ice_json_def clean_ice_def valid_utf8_ascii)

lemma clean_msg_json: "clean_msg m \<Longrightarrow> clean_json (msg_json m)"
  by (simp add: msg_json_def opt_string_member_def clean_msg_def valid_utf8_ascii clean_states_json list.pred_map comp_def)

section \<open>Whatever is read is written back the same\<close>

lemma keeps_field:
  assumes "keeps Q f" "\<And>r. P r \<Longrightarrow> Q (get r)" "\<And>x r. P r \<Longrightarrow> Q x \<Longrightarrow> P (upd (\<lambda>_. x) r)"
  shows "keeps P (field get upd f)"
  unfolding keeps_def
proof (intro allI impI)
  fix j r r'
  assume "clean_json j" "P r" "field get upd f j r = Some r'"
  then obtain x where "f j (get r) = Some x" "r' = upd (\<lambda>_. x) r" by (auto simp: field_def)
  then show "P r'" using \<open>clean_json j\<close> \<open>P r\<close> keepsD [OF assms(1)] assms(2,3) by simp
qed

lemmas keeps_string_field = keeps_field [OF keeps_string]
lemmas keeps_strings_field = keeps_field [OF keeps_slice [OF keeps_string valid_utf8_Nil]]

lemma keeps_any: "keeps (\<lambda>_. True) f"
  by (simp add: keeps_def)

lemmas keeps_any_field = keeps_field [OF keeps_any]

lemma keeps_ice: "keeps clean_ice (into_struct ice_fields)"
proof (rule keeps_struct, unfold ice_fields_def list.pred_inject prod.case, intro conjI TrueI)
  show "keeps clean_ice (field urls urls_update (into_slice into_string []))"
    by (rule keeps_strings_field) (simp_all add: clean_ice_def)
  show "keeps clean_ice (field username username_update into_string)"
    by (rule keeps_string_field) (simp_all add: clean_ice_def)
  show "keeps clean_ice (field credential credential_update into_string)"
    by (rule keeps_string_field) (simp_all add: clean_ice_def)
qed simp

definition clean_states :: "(string \<rightharpoonup> bool) \<Rightarrow> bool" where
  "clean_states m \<longleftrightarrow> finite (dom m) \<and> (\<forall>k \<in> dom m. valid_utf8 k)"

lemma clean_states_entries:
  "into_entries into_bool False kjs m = Some m' \<Longrightarrow> list_all (\<lambda>(k, v). valid_utf8 k \<and> clean_json v) kjs \<Longrightarrow>
     clean_states m \<Longrightarrow> clean_states m'"
proof (induction kjs arbitrary: m)
  case (Cons kj kjs)
  obtain k j where kj: "kj = (k, j)" by fastforce
  with Cons.prems(1) obtain x where "into_entries into_bool False kjs (m(k \<mapsto> x)) = Some m'"
    by (cases "into_bool j False") simp_all
  moreover have "clean_states (m(k \<mapsto> x))" using Cons.prems(2,3) kj by (simp add: clean_states_def)
  ultimately show ?case using Cons.IH Cons.prems(2) by simp
qed simp

lemma keeps_states: "keeps clean_states (into_map into_bool False)"
  unfolding keeps_def
proof (intro allI impI)
  fix j m m'
  assume "clean_json j" "clean_states m" "into_map into_bool False j m = Some m'"
  then show "clean_states m'"
    by (cases j) (auto simp: into_map_def clean_states_entries clean_states_def [of Map.empty])
qed

lemma keeps_msg: "keeps clean_msg (into_struct msg_fields)"
proof (rule keeps_struct, unfold msg_fields_def list.pred_inject prod.case, intro conjI TrueI)
  show "keeps clean_msg (field m_iceServers m_iceServers_update (into_slice (into_struct ice_fields) ice_zero))"
    by (rule keeps_field [OF keeps_slice [OF keeps_ice]]) (simp_all add: clean_msg_def clean_ice_def ice_zero_def)
  show "keeps clean_msg (field m_daemons m_daemons_update (into_slice into_string []))"
    by (rule keeps_strings_field) (simp_all add: clean_msg_def)
  show "keeps clean_msg (field m_states m_states_update (into_map into_bool False))"
    by (rule keeps_field [OF keeps_states]) (simp_all add: clean_msg_def clean_states_def)
  show "keeps clean_msg (field m_takeover m_takeover_update into_bool)"
    "keeps clean_msg (field m_trickle m_trickle_update into_bool)"
    "keeps clean_msg (field m_sdpMLineIndex m_sdpMLineIndex_update (into_pointer into_word16 0))"
    by (rule keeps_any_field; simp add: clean_msg_def)+
qed ((rule keeps_string_field; simp add: clean_msg_def)+, simp)

lemma clean_zero_msg: "clean_msg zero_msg"
  by (simp add: clean_msg_def zero_msg_def msg_of_type_def)

section \<open>The codecs\<close>

interpretation ice: json_relay ice_json "into_struct ice_fields" ice_zero clean_ice
proof unfold_locales
  fix s :: ice_server
  show "json_depth (ice_json s) \<le> maxNestingDepth"
    by (rule le_trans [OF depth_ice]) (simp add: maxNestingDepth_def)
  show "clean_ice ice_zero" by (simp add: clean_ice_def ice_zero_def)
qed (simp_all add: into_ice keeps_ice)

interpretation msg: json_relay msg_json "into_struct msg_fields" zero_msg clean_msg
proof unfold_locales
  fix m
  show "clean_msg m \<Longrightarrow> into_struct msg_fields (msg_json m) zero_msg = Some m"
    by (simp add: into_msg clean_msg_def)
  show "clean_msg m \<Longrightarrow> clean_json (msg_json m)" by (rule clean_msg_json)
  show "writable (msg_json m)" "json_depth (msg_json m) \<le> maxNestingDepth"
    using msg_json_shape [of m] by (simp_all add: maxNestingDepth_def)
qed (rule keeps_msg clean_zero_msg)+

lemma msg_reads_back: "clean_msg m \<Longrightarrow> decode_Msg (encode_Msg m) = Some m"
  by (simp add: decode_Msg_def encode_Msg_def msg.line_reads_back)

lemma decoded_msg_clean: "decode_Msg f = Some m \<Longrightarrow> clean_msg m"
  unfolding decode_Msg_def by (rule msg.decoded_is_clean)

text \<open>
  What a peer reads and writes on, the next one reads as the same message, whatever the frame
  held; the messages that can be read are those whose strings are valid UTF-8.
\<close>

theorem relayed_message_unchanged:
  assumes "decode_Msg f = Some m"
  shows "decode_Msg (encode_Msg m) = Some m"
  by (rule msg_reads_back [OF decoded_msg_clean [OF assms]])

lemma clean_iff_on_wire: "clean_msg m \<longleftrightarrow> (\<exists>f. decode_Msg f = Some m)"
  unfolding decode_Msg_def by (rule msg.clean_iff_readable)

definition odd_json :: json where
  "odd_json = JObj [(''TYPE'', JStr ''offer''), (''x'', JArr [JNum ''1'', JObj []]), (''sdp'', JStr ''v=0''), (''sdp'', JNull)]"

definition odd_msg :: signal_msg where
  "odd_msg = zero_msg\<lparr>m_type := ''offer'', m_sdp := ''v=0''\<rparr>"

lemma fold_ascii:
  "(of_char c :: nat) < 128 \<Longrightarrow> fold_name (c # cs) =
     (if 97 \<le> (of_char c :: nat) \<and> (of_char c :: nat) \<le> 122 then char_of (of_char c - 32 :: nat) else c) # fold_name cs"
proof -
  assume c: "(of_char c :: nat) < 128"
  have "of_char (char_of n :: char) \<noteq> (of_char c :: nat)" if "n \<in> {226, 197}" for n :: nat
    using that c by auto
  then have "char_of (226 :: nat) \<noteq> c" "char_of (197 :: nat) \<noteq> c" by blast+
  then show ?thesis by (simp add: has_prefix_def encode_rune_def)
qed

lemma odd_frame: "decode_Msg (json_text odd_json) = Some odd_msg"
proof -
  have "fold_name ''type'' = fold_name ''TYPE''"
    by (simp add: fold_ascii char_of_def bit_Suc_0_iff del: fold_name.simps(2))
  then have find: "find_field msg_fields ''TYPE'' = Some (field m_type m_type_update into_string)"
    by (simp add: find_field_def msg_fields_def)
  have x: "find_field msg_fields ''x'' = None"
    by (simp add: find_field_def msg_fields_def fold_ascii char_of_def bit_Suc_0_iff del: fold_name.simps(2))
  have "decode_first (json_text odd_json @ []) = Some (repaired odd_json)"
    by (intro decode_text) (simp_all add: odd_json_def maxNestingDepth_def number_text_def read_number_def
        read_sign_def read_integer_def digit_run_def is_digit_def digit_value_def read_fraction_def read_exponent_def)
  moreover have "repaired odd_json = odd_json" 
    by (intro repaired_clean) (simp add: odd_json_def valid_utf8_ascii)
  ultimately show ?thesis
    by (simp add: decode_Msg_def decode_into_def odd_json_def into_struct_def find x msg_find field_def odd_msg_def)
qed

theorem relayed_message_unchanged_witness:
  "decode_Msg (json_text odd_json) = Some odd_msg \<and> decode_Msg (encode_Msg odd_msg) = Some odd_msg"
  using relayed_message_unchanged [OF odd_frame] odd_frame by simp

end
