(* ===== verification/Bulk.thy ===== *)
theory Bulk
  imports Dispatch Companion
begin

text \<open>
  The reliable "bulk" channel: \<open>internal/server/bulk.go\<close>.  Requests, the chunked transfer of
  replies too large for one packet, and the JSON the replies are.  What the channel does
  with a frame (\<open>bk_send\<close>, indexed by the number of effects so far, so that equal frames may
  fare differently), the decimal form of a float and Go's \<open>%q\<close> are arguments.
\<close>

section \<open>The frames\<close>

definition bulkFrameMax :: nat where "bulkFrameMax = 1024"

definition marshal_header :: "string \<Rightarrow> nat \<Rightarrow> string" where
  "marshal_header tp n =
     json_object [json_field ''type'' (json_string tp), json_field ''bytes'' (dec_digits n)]"

definition marshal_bulkErr :: "string \<Rightarrow> string \<Rightarrow> string" where
  "marshal_bulkErr code msg =
     json_object ([json_field ''type'' (json_string ''error''), json_field ''msg'' (json_string msg)]
       @ opt_string ''code'' code)"

definition marshal_quality :: "(rat \<Rightarrow> string) \<Rightarrow> QualityOpts \<Rightarrow> string" where
  "marshal_quality show_float q =
     json_object [json_field ''type'' (json_string ''quality''),
       json_field ''scale'' (show_float (q_scale q)), json_field ''bitrate'' (itoa (q_bitrate q))]"

definition marshal_sim :: "Simulator \<Rightarrow> string" where
  "marshal_sim s =
     json_object [json_field ''udid'' (json_string (sim_udid s)),
       json_field ''name'' (json_string (sim_name s)),
       json_field ''os_version'' (json_string (sim_osVersion s)),
       json_field ''state'' (json_string (sim_state s))]"

definition marshal_sims :: "Simulator list \<Rightarrow> string" where
  "marshal_sims sims = json_array (map marshal_sim sims)"

definition reply_fields :: "ctrlReply \<Rightarrow> string list" where
  "reply_fields v =
     [json_field ''type'' (json_string (cr_type v))] @ opt_string ''msg'' (cr_msg v) @
     opt_string ''udid'' (cr_udid v) @ opt_string ''operation'' (cr_operation v) @
     opt_string ''code'' (cr_code v) @ opt_bool ''retryable'' (cr_retryable v) @
     opt_nat ''w'' (unat (cr_w v)) @ opt_nat ''h'' (unat (cr_h v)) @ opt_string ''name'' (cr_name v) @
     opt_string ''osVersion'' (cr_osVersion v) @ opt_bool ''paired'' (cr_paired v) @
     opt_string ''latestVersion'' (cr_latestVersion v) @ opt_string ''version'' (cr_version v) @
     opt_strings ''caps'' (cr_caps v)"

definition marshal_reply :: "ctrlReply \<Rightarrow> string" where
  "marshal_reply v = json_object (reply_fields v)"

section \<open>Sending\<close>

record bulk_env =
  bk_wired :: bool
  bk_send :: "nat \<Rightarrow> string option"
  bk_maxMsg :: "int option"
  bk_list :: "go_error + Simulator list"
  bk_shot :: "go_error + string"
  bk_defaultScale :: rat
  bk_float :: "rat \<Rightarrow> string"
  bk_quoted :: "string \<Rightarrow> string"

definition sendBulkText :: "bulk_env \<Rightarrow> string \<Rightarrow> rtcDispatch \<Rightarrow> string option \<times> rtcDispatch" where
  "sendBulkText env s d =
     (let r = bk_send env (length (d_log d)) in (r, emits [BulkText (r = None) s] d))"

definition sendBulk :: "bulk_env \<Rightarrow> string \<Rightarrow> rtcDispatch \<Rightarrow> string option \<times> rtcDispatch" where
  "sendBulk env s d =
     (let r = bk_send env (length (d_log d)) in (r, emits [BulkBinary (r = None) s] d))"

definition chunkSize :: "bulk_env \<Rightarrow> nat" where
  "chunkSize env =
     (case bk_maxMsg env of
        Some negotiated \<Rightarrow>
          if 0 < negotiated \<and> negotiated < int bulkFrameMax then nat negotiated else bulkFrameMax
      | None \<Rightarrow> bulkFrameMax)"

function send_chunks ::
  "bulk_env \<Rightarrow> nat \<Rightarrow> string \<Rightarrow> nat \<Rightarrow> rtcDispatch \<Rightarrow> string option \<times> rtcDispatch" where
  \<comment> \<open>the loop of \<open>sendChunked\<close>; \<open>sz\<close> is positive\<close>
  "send_chunks env sz payload offset d =
     (if sz = 0 \<or> length payload \<le> offset then (None, d)
      else
        (let stop = min (offset + sz) (length payload) in
         case sendBulk env (take (stop - offset) (drop offset payload)) d of
           (Some e, d1) \<Rightarrow> (Some (''send chunk at '' @ dec_digits offset @ '': '' @ e), d1)
         | (None, d1) \<Rightarrow> send_chunks env sz payload (offset + sz) d1))"
  by pat_completeness auto
termination
  by (relation "measure (\<lambda>(env, sz, payload, offset, d). length payload - offset)") auto

declare send_chunks.simps [simp del]

definition sendChunked ::
  "bulk_env \<Rightarrow> string \<Rightarrow> string \<Rightarrow> rtcDispatch \<Rightarrow> string option \<times> rtcDispatch" where
  "sendChunked env tp payload d =
     (if \<not> bk_wired env then (Some ''bulk channel not wired'', d)
      else
        (case sendBulkText env (marshal_header tp (length payload)) d of
           (Some e, d1) \<Rightarrow> (Some (''send header: '' @ e), d1)
         | (None, d1) \<Rightarrow> send_chunks env (chunkSize env) payload 0 d1))"

definition bulkError :: "bulk_env \<Rightarrow> string \<Rightarrow> string \<Rightarrow> rtcDispatch \<Rightarrow> rtcDispatch" where
  "bulkError env code msg d =
     (if \<not> bk_wired env then d else snd (sendBulkText env (marshal_bulkErr code msg) d))"

section \<open>The requests\<close>

definition CodeUnknownType :: string where "CodeUnknownType = ''unknown_type''"
definition CodeNoAttachment :: string where "CodeNoAttachment = ''no_attachment''"
definition CodeCaptureFailed :: string where "CodeCaptureFailed = ''capture_failed''"
definition CodeListFailed :: string where "CodeListFailed = ''list_failed''"

lemmas bulk_code_defs = CodeUnknownType_def CodeNoAttachment_def CodeCaptureFailed_def
  CodeListFailed_def

record bulkMsg =
  b_type :: string
  b_udid :: string
  b_quality :: QualityOpts

definition doList :: "bulk_env \<Rightarrow> rtcDispatch \<Rightarrow> rtcDispatch" where
  "doList env d =
     (let d1 = emits [CallList] d in
      case bk_list env of
        Inl e \<Rightarrow> bulkError env CodeListFailed (error_text e) d1
      | Inr sims \<Rightarrow> snd (sendChunked env ''sims'' (marshal_sims sims) d1))"

definition doQuality :: "bulk_env \<Rightarrow> QualityOpts \<Rightarrow> rtcDispatch \<Rightarrow> rtcDispatch" where
  "doQuality env q0 d =
     (case restartAttachment d of
        (None, d1) \<Rightarrow> bulkError env CodeNoAttachment ''no simulator attached'' d1
      | (Some (udid, gen), d1) \<Rightarrow>
          (let q = Resolve (bk_defaultScale env) q0;
               d2 = spawn (Attaching \<lparr>t_udid = udid, t_quality = q, t_gen = gen,
                                      t_route = lifecycleReply d1, t_claim = d_claims d1\<rparr>) d1
           in if \<not> bk_wired env then d2
              else snd (sendBulkText env (marshal_quality (bk_float env) q) d2)))"

definition doScreenshot :: "bulk_env \<Rightarrow> rtcDispatch \<Rightarrow> rtcDispatch" where
  "doScreenshot env d =
     (case d_att d of
        None \<Rightarrow> bulkError env CodeNoAttachment ''no simulator attached'' d
      | Some a \<Rightarrow>
          (let d1 = emits [FeedScreenshot (at_feed a)] d in
           case bk_shot env of
             Inl e \<Rightarrow> bulkError env CodeCaptureFailed (error_text e) d1
           | Inr img \<Rightarrow>
               (if img = [] then bulkError env CodeCaptureFailed ''capture returned no bytes'' d1
                else
                  (case sendChunked env ''screenshot'' img d1 of
                     (Some e, d2) \<Rightarrow> bulkError env CodeCaptureFailed (''send failed: '' @ e) d2
                   | (None, d2) \<Rightarrow> d2))))"

definition bulk_control :: "bulkMsg \<Rightarrow> controlMsg" where
  "bulk_control m =
     \<lparr>c_type = b_type m, c_udid = b_udid m, c_action = [], c_x = 0, c_y = 0, c_x1 = 0, c_y1 = 0,
      c_x2 = 0, c_y2 = 0, c_duration = 0, c_key = [], c_quality = b_quality m\<rparr>"

definition handleBulk ::
  "bulk_env \<Rightarrow> backend_env \<Rightarrow> bulkMsg option \<Rightarrow> rtcDispatch \<Rightarrow> rtcDispatch" where
  "handleBulk env be data d =
     (case data of
        None \<Rightarrow> bulkError env CodeBadRequest ''bad bulk json'' d
      | Some m \<Rightarrow>
          if b_type m = ''list'' then doList env d
          else if b_type m = ''screenshot'' then doScreenshot env d
          else if b_type m = ''quality'' then doQuality env (b_quality m) d
          else
            (let (served, d1) = lifecycle be (bulk_control m) True d in
             if served then d1
             else bulkError env CodeUnknownType (''unknown bulk type '' @ bk_quoted env (b_type m)) d1))"

section \<open>The transfer\<close>

text \<open>
  What went onto the channel for a payload: full frames of at most \<open>sz\<close> bytes, none empty,
  and either all of the payload, or a prefix of it up to the frame the channel refused.
\<close>

definition transferred :: "nat \<Rightarrow> string \<Rightarrow> string option \<Rightarrow> effect list \<Rightarrow> bool" where
  "transferred sz payload r es \<longleftrightarrow>
     (\<exists>cs. (\<forall>c \<in> set cs. c \<noteq> [] \<and> length c \<le> sz) \<and>
        (case r of
           None \<Rightarrow> es = map (BulkBinary True) cs \<and> concat cs = payload
         | Some _ \<Rightarrow> \<exists>sent c rest. cs = sent @ [c] \<and> concat cs @ rest = payload \<and>
              es = map (BulkBinary True) sent @ [BulkBinary False c]))"

lemma transferred_Cons:
  assumes "transferred sz payload r es" and "c \<noteq> []" and "length c \<le> sz"
  shows "transferred sz (c @ payload) r (BulkBinary True c # es)"
proof -
  obtain cs where cs: "\<forall>c \<in> set cs. c \<noteq> [] \<and> length c \<le> sz"
    and r: "case r of None \<Rightarrow> es = map (BulkBinary True) cs \<and> concat cs = payload
         | Some _ \<Rightarrow> \<exists>sent c rest. cs = sent @ [c] \<and> concat cs @ rest = payload \<and>
              es = map (BulkBinary True) sent @ [BulkBinary False c]"
    using assms(1) by (auto simp: transferred_def)
  have all: "\<forall>c \<in> set (c # cs). c \<noteq> [] \<and> length c \<le> sz" using cs assms(2,3) by simp
  show ?thesis
  proof (cases r)
    case None
    with r all show ?thesis unfolding transferred_def by (intro exI [of _ "c # cs"]) simp
  next
    case (Some e)
    with r obtain sent c' rest where s: "cs = sent @ [c']" "concat cs @ rest = payload"
      "es = map (BulkBinary True) sent @ [BulkBinary False c']" by auto
    have "\<exists>sent c'' rest. c # cs = sent @ [c''] \<and> concat (c # cs) @ rest = c @ payload \<and>
              BulkBinary True c # es = map (BulkBinary True) sent @ [BulkBinary False c'']"
      using s by (intro exI [of _ "c # sent"] exI [of _ c'] exI [of _ rest]) simp
    with all Some show ?thesis unfolding transferred_def by (intro exI [of _ "c # cs"]) simp
  qed
qed

lemma send_chunks_transfers:
  assumes "0 < sz" and "offset \<le> length payload"
  shows "\<exists>es. snd (send_chunks env sz payload offset d) = emits es d \<and>
           transferred sz (drop offset payload) (fst (send_chunks env sz payload offset d)) es"
  using assms
proof (induction env sz payload offset d rule: send_chunks.induct)
  case (1 env sz payload offset d)
  show ?case
  proof (cases "length payload \<le> offset")
    case True
    with 1(3) have "drop offset payload = []" by simp
    then show ?thesis
      using True by (intro exI [of _ "[]"]) (simp add: send_chunks.simps transferred_def)
  next
    case False
    define c where "c = take (min (offset + sz) (length payload) - offset) (drop offset payload)"
    have c: "c = take sz (drop offset payload)" by (simp add: c_def min_def)
    have c_ok: "c \<noteq> []" "length c \<le> sz" using 1(2) False by (auto simp: c)
    show ?thesis
    proof (cases "bk_send env (length (d_log d))")
      case (Some e)
      have "transferred sz (drop offset payload) (Some x) [BulkBinary False c]" for x
        unfolding transferred_def
        using c_ok append_take_drop_id [of sz "drop offset payload", folded c] by (intro exI [of _ "[c]"]) auto
      then show ?thesis
        using False 1(2) Some
        by (intro exI [of _ "[BulkBinary False c]"])
          (simp add: send_chunks.simps [of env sz payload offset d] sendBulk_def Let_def c_def)
    next
      case None
      let ?d1 = "emits [BulkBinary True c] d"
      have step: "send_chunks env sz payload offset d = send_chunks env sz payload (offset + sz) ?d1"
        using False 1(2) None
        by (simp add: send_chunks.simps [of env sz payload offset d] sendBulk_def Let_def c_def min_def)
      show ?thesis
      proof (cases "offset + sz \<le> length payload")
        case True
        have IH: "\<exists>es. snd (send_chunks env sz payload (offset + sz) d1) = emits es d1 \<and>
           transferred sz (drop (offset + sz) payload) (fst (send_chunks env sz payload (offset + sz) d1)) es"
          if "(None, d1) = sendBulk env c d" for d1
          using 1(1) [OF _ refl, of None d1] that False 1(2) True unfolding c_def by blast
        have "\<exists>es. snd (send_chunks env sz payload (offset + sz) ?d1) = emits es ?d1 \<and>
           transferred sz (drop (offset + sz) payload) (fst (send_chunks env sz payload (offset + sz) ?d1)) es"
          by (rule IH) (simp add: sendBulk_def None)
        then obtain es where es: "snd (send_chunks env sz payload (offset + sz) ?d1) = emits es ?d1"
          "transferred sz (drop (offset + sz) payload) (fst (send_chunks env sz payload (offset + sz) ?d1)) es"
          by blast
        from transferred_Cons [OF es(2) c_ok]
        have "transferred sz (drop offset payload) (fst (send_chunks env sz payload offset d)) (BulkBinary True c # es)"
          using append_take_drop_id [of sz "drop offset payload"] by (simp add: step c add.commute)
        then show ?thesis using es(1) by (intro exI [of _ "BulkBinary True c # es"]) (simp add: step)
      next
        case beyond: False
        then have "drop offset payload = c" by (simp add: c)
        then have "transferred sz (drop offset payload) None [BulkBinary True c]"
          unfolding transferred_def using c_ok by (intro exI [of _ "[c]"]) simp
        moreover have "send_chunks env sz payload (offset + sz) ?d1 = (None, ?d1)"
          using beyond by (simp add: send_chunks.simps)
        ultimately show ?thesis by (intro exI [of _ "[BulkBinary True c]"]) (simp add: step)
      qed
    qed
  qed
qed

lemma chunkSize_bounds: "0 < chunkSize env" "chunkSize env \<le> bulkFrameMax"
  by (auto simp: chunkSize_def bulkFrameMax_def split: option.splits)

lemma length_json_field:
  "length (json_field k v) = length (json_escape k) + length v + 3"
  by (simp add: json_field_def json_string_def)

lemma length_marshal_header:
  assumes "length tp \<le> 16" and "n < 2 ^ 63"
  shows "length (marshal_header tp n) \<le> bulkFrameMax"
proof -
  have "n < 10 ^ Suc 19" using assms(2) by simp
  then have "length (dec_digits n) \<le> 20" using length_dec_digits [of n 19] by simp
  moreover have "length (json_escape tp) \<le> 96" using length_json_escape [of tp] assms(1) by simp
  moreover have "length (json_escape ''type'') \<le> 24" "length (json_escape ''bytes'') \<le> 30"
    using length_json_escape [of "''type''"] length_json_escape [of "''bytes''"] by simp_all
  ultimately show ?thesis
    using length_json_object [of "[json_field ''type'' (json_string tp), json_field ''bytes'' (dec_digits n)]"]
    by (simp add: marshal_header_def bulkFrameMax_def length_json_field) (simp add: json_string_def)
qed

fun frame_len :: "effect \<Rightarrow> nat" where
  "frame_len (BulkText ok s) = length s"
| "frame_len (BulkBinary ok s) = length s"
| "frame_len e = 0"

definition new_effects :: "rtcDispatch \<Rightarrow> rtcDispatch \<Rightarrow> effect list" where
  "new_effects d d' = drop (length (d_log d)) (d_log d')"

lemma new_effects_emits [simp]: "new_effects d (emits es d') = new_effects d d' @ drop (length (d_log d) - length (d_log d')) es"
  by (simp add: new_effects_def)

lemma new_effects_self [simp]: "new_effects d d = []"
  by (simp add: new_effects_def)

lemma sendChunked_cases:
  assumes "bk_wired env"
  obtains (refused) e where "sendChunked env tp payload d =
      (Some e, emits [BulkText False (marshal_header tp (length payload))] d)"
  | (sent) es where
      "snd (sendChunked env tp payload d) =
         emits (BulkText True (marshal_header tp (length payload)) # es) d"
      "transferred (chunkSize env) payload (fst (sendChunked env tp payload d)) es"
proof (cases "bk_send env (length (d_log d))")
  case (Some e)
  then show ?thesis using assms by (intro refused) (simp add: sendChunked_def sendBulkText_def Let_def)
next
  case None
  let ?d1 = "emits [BulkText True (marshal_header tp (length payload))] d"
  have eq: "sendChunked env tp payload d = send_chunks env (chunkSize env) payload 0 ?d1"
    using assms None by (simp add: sendChunked_def sendBulkText_def Let_def)
  show ?thesis
    using send_chunks_transfers [OF chunkSize_bounds(1), of 0 payload env env ?d1]
    by (auto simp: eq intro: sent)
qed

lemma transferred_frames:
  "transferred sz payload r es \<Longrightarrow> e \<in> set es \<Longrightarrow> frame_len e \<le> sz"
  by (auto simp: transferred_def split: option.splits)

lemma transferred_unique:
  assumes "transferred sz payload r (map (BulkBinary True) cs)"
  shows "r = None"
proof (cases r)
  case (Some e)
  with assms obtain sent c where "map (BulkBinary True) cs = map (BulkBinary True) sent @ [BulkBinary False c]"
    by (auto simp: transferred_def)
  then have "BulkBinary False c \<in> set (map (BulkBinary True) cs)" by simp
  then show ?thesis by auto
qed

text \<open>
  C17: a chunked transfer is lossless and fits the wire.  It reports success exactly when the
  channel took the header, with the true byte count, and then chunks that concatenate to the
  payload, none of them empty; whatever happens, no frame it sends exceeds the one-packet
  ceiling or the message size the peer negotiated.
\<close>

theorem chunked_transfer:
  assumes "bk_wired env" and "length tp \<le> 16" and "length payload < 2 ^ 63"
  shows "(fst (sendChunked env tp payload d) = None \<longleftrightarrow>
      (\<exists>cs. d_log (snd (sendChunked env tp payload d)) =
             d_log d @ BulkText True (marshal_header tp (length payload)) # map (BulkBinary True) cs
         \<and> concat cs = payload \<and> (\<forall>c \<in> set cs. 0 < length c \<and> length c \<le> chunkSize env)))
    \<and> (\<forall>e \<in> set (new_effects d (snd (sendChunked env tp payload d))). frame_len e \<le> bulkFrameMax)"
proof (cases rule: sendChunked_cases [OF assms(1), of tp payload d, case_names refused sent])
  case (refused e)
  then show ?thesis using length_marshal_header [OF assms(2,3)] by simp
next
  case (sent es)
  note t = sent(2)
  have "fst (sendChunked env tp payload d) = None \<longleftrightarrow>
      (\<exists>cs. es = map (BulkBinary True) cs \<and> concat cs = payload \<and>
         (\<forall>c \<in> set cs. 0 < length c \<and> length c \<le> chunkSize env))" (is "?l \<longleftrightarrow> ?r")
  proof
    assume ?l with t show ?r by (auto simp: transferred_def)
  next
    assume ?r
    then obtain cs where "es = map (BulkBinary True) cs" by blast
    with t show ?l using transferred_unique by simp
  qed
  moreover have "\<forall>e \<in> set es. frame_len e \<le> bulkFrameMax"
    using transferred_frames [OF t] chunkSize_bounds(2) [of env] by fastforce
  ultimately show ?thesis using sent(1) length_marshal_header [OF assms(2,3)] by simp
qed

definition demo_bulk :: bulk_env where
  "demo_bulk =
     \<lparr>bk_wired = True, bk_send = (\<lambda>_. None), bk_maxMsg = Some 2, bk_list = Inr [],
      bk_shot = Inr ''PNG'', bk_defaultScale = 1, bk_float = (\<lambda>_. ''1''), bk_quoted = (\<lambda>s. s)\<rparr>"

lemma bk_always: "bk_send demo_bulk n = None"
  by (simp add: demo_bulk_def)

theorem chunked_transfer_witness:
  "fst (sendChunked demo_bulk ''screenshot'' ''PNG'' new_dispatch) = None \<and>
   (\<exists>cs. concat cs = ''PNG'' \<and> (\<forall>c \<in> set cs. 0 < length c \<and> length c \<le> 2))"
proof -
  have wired: "bk_wired demo_bulk" and sz: "chunkSize demo_bulk = 2"
    by (simp_all add: demo_bulk_def chunkSize_def bulkFrameMax_def)
  have "fst (sendChunked demo_bulk ''screenshot'' ''PNG'' new_dispatch) = None"
    using wired sz
    by (simp add: sendChunked_def send_chunks.simps sendBulk_def sendBulkText_def bk_always)
  then show ?thesis
    using chunked_transfer [OF wired, of "''screenshot''" "''PNG''" new_dispatch] sz by auto
qed

section \<open>Every request is answered\<close>

lemma bulkError_log:
  "d_log (bulkError env code msg d) =
     d_log d @ (if bk_wired env
                then [BulkText (bk_send env (length (d_log d)) = None) (marshal_bulkErr code msg)] else [])"
  by (simp add: bulkError_def sendBulkText_def Let_def)

fun is_BulkBinary :: "effect \<Rightarrow> bool" where
  "is_BulkBinary (BulkBinary ok s) = True"
| "is_BulkBinary e = False"

lemma sendChunked_log:
  assumes "bk_wired env"
  shows "\<exists>ok es. d_log (snd (sendChunked env tp payload d)) =
           d_log d @ BulkText ok (marshal_header tp (length payload)) # es \<and>
           (\<forall>e \<in> set es. is_BulkBinary e)"
proof (cases rule: sendChunked_cases [OF assms, of tp payload d, case_names refused sent])
  case (sent es)
  then have "\<forall>e \<in> set es. is_BulkBinary e"
    by (auto simp: transferred_def split: option.splits)
  with sent(1) show ?thesis by (intro exI [of _ True] exI [of _ es]) simp
next
  case (refused e)
  then show ?thesis by (intro exI [of _ False] exI [of _ "[]"]) simp
qed

definition answers :: "effect \<Rightarrow> bool" where
  \<comment> \<open>a frame the client reads as the reply to its request\<close>
  "answers e \<longleftrightarrow> (case e of BulkText _ _ \<Rightarrow> True | Reply ViaBulk _ \<Rightarrow> True | _ \<Rightarrow> False)"

lemma answers_simps [simp]:
  "answers (BulkText ok s)" "answers (Reply ViaBulk v)" "\<not> answers (Reply ViaControl v)"
  "\<not> answers (BulkBinary ok s)"
  by (simp_all add: answers_def)

lemma lifecycle_refused: "lifecycle be m reliable d = (False, d') \<Longrightarrow> d' = d"
  by (auto simp: lifecycle_def Let_def split: if_splits)

lemma bulkError_answers:
  assumes "bk_wired env"
  shows "\<exists>e \<in> set (new_effects d (bulkError env code msg (emits es d))). answers e"
  using assms by (simp add: new_effects_def bulkError_log)

lemma sendChunked_answers:
  assumes "bk_wired env"
  shows "\<exists>e \<in> set (new_effects d (snd (sendChunked env tp payload (emits es d)))). answers e"
  using sendChunked_log [OF assms, of tp payload "emits es d"] by (auto simp: new_effects_def)

lemma bulkError_keeps_answers:
  "\<exists>e \<in> set (new_effects d d1). answers e \<Longrightarrow> \<exists>e \<in> set (new_effects d (bulkError env code msg d1)). answers e"
  by (auto simp: new_effects_def bulkError_log)

lemma doScreenshot_answers:
  assumes "bk_wired env"
  shows "\<exists>e \<in> set (new_effects d (doScreenshot env d)). answers e"
proof (cases "d_att d")
  case None
  then show ?thesis using bulkError_answers [OF assms, of d _ _ "[]"] by (simp add: doScreenshot_def)
next
  case (Some a)
  have sent: "\<exists>e \<in> set (new_effects d d2). answers e"
    if "sendChunked env ''screenshot'' img (emits [FeedScreenshot (at_feed a)] d) = (r, d2)" for img r d2
    using sendChunked_answers [OF assms, of d "''screenshot''" img "[FeedScreenshot (at_feed a)]"] that
    by simp
  show ?thesis
    using Some bulkError_answers [OF assms, of d _ _ "[FeedScreenshot (at_feed a)]"]
    by (auto simp: doScreenshot_def Let_def intro!: bulkError_keeps_answers dest: sent
        split: sum.splits option.splits prod.splits)
qed


definition demo_msg :: "string \<Rightarrow> bulkMsg" where
  "demo_msg t = \<lparr>b_type = t, b_udid = ''U'', b_quality = \<lparr>q_scale = 0, q_bitrate = 0\<rparr>\<rparr>"

definition demo_backend :: backend_env where
  "demo_backend = \<lparr>be_boot = None, be_shutdown = None, be_shake = None\<rparr>"


section \<open>Routes\<close>

lemma replies_only_other:
  "replies_only r d d' \<Longrightarrow> r' \<noteq> r \<Longrightarrow> Reply r' v \<notin> set (new_effects d d')"
  by (auto simp: replies_only_def new_effects_def; blast)

lemma sendChunked_replies: "replies_only r d (snd (sendChunked env tp payload d))"
proof (cases "bk_wired env")
  case True
  obtain ok es where l: "d_log (snd (sendChunked env tp payload d)) =
           d_log d @ BulkText ok (marshal_header tp (length payload)) # es"
    and e: "\<forall>e \<in> set es. is_BulkBinary e"
    using sendChunked_log [OF True, of tp payload d] by blast
  from e have "\<forall>r' v. Reply r' v \<notin> set es" by fastforce
  with l show ?thesis by (simp add: replies_only_def)
qed (simp add: sendChunked_def)

lemma bulkError_replies: "replies_only r d d1 \<Longrightarrow> replies_only r d (bulkError env code msg d1)"
  by (auto simp: replies_only_def bulkError_log)

lemma handleBulk_replies: "replies_only ViaBulk d (handleBulk env be data d)"
proof (cases data)
  case (Some m)
  have l: "replies_only ViaBulk d (doList env d)"
    by (auto simp: doList_def Let_def intro!: reply_intros bulkError_replies
        replies_only_trans [OF _ sendChunked_replies] split: sum.split)
  have "replies_only ViaBulk d d2"
    if "sendChunked env tp img (emits [FeedScreenshot f] d) = (r, d2)" for tp img f r d2
  proof (rule replies_only_trans)
    show "replies_only ViaBulk d (emits [FeedScreenshot f] d)" by (simp add: replies_only_emits)
    show "replies_only ViaBulk (emits [FeedScreenshot f] d) d2"
      using sendChunked_replies [of ViaBulk "emits [FeedScreenshot f] d" env tp img] that by simp
  qed
  then have s: "replies_only ViaBulk d (doScreenshot env d)"
    by (auto simp: doScreenshot_def Let_def intro!: reply_intros bulkError_replies
        split: sum.split option.split prod.split)
  have q: "replies_only ViaBulk d (doQuality env (b_quality m) d)"
    using stop_feed_replies [of "d_att d" ViaBulk]
    by (auto simp: doQuality_def restartAttachment_def Let_def sendBulkText_def replies_only_def
        bulkError_log split: option.split)
  obtain served d1 where lc: "lifecycle be (bulk_control m) True d = (served, d1)" by fastforce
  have "replies_only ViaBulk d d1"
    using lifecycle_replies [OF lc] by (auto split: if_splits intro: ends_in_reply_only)
  with l s q show ?thesis
    by (simp add: handleBulk_def Some lc bulkError_replies)
qed (simp add: handleBulk_def bulkError_replies)

text \<open>
  A client is answered where it asked.  While a request from "bulk" is served no
  lifecycle reply goes out on "control", and while one from "control" is served none goes
  out on "bulk", so a client that only reads one of the two channels never loses an answer
  to the other.
\<close>

theorem replies_on_route_asked:
  "filter (\<lambda>e. case e of Reply ViaControl _ \<Rightarrow> True | _ \<Rightarrow> False)
      (new_effects d (handleBulk env be data d)) = []
   \<and> filter (\<lambda>e. case e of Reply ViaBulk _ \<Rightarrow> True | _ \<Rightarrow> False)
      (new_effects d (handle hi be cdata d)) = []"
  using replies_only_other [OF handleBulk_replies, of ViaControl]
    replies_only_other [OF handle_replies, of ViaBulk]
  by (auto simp: filter_empty_conv split: effect.splits route.splits)

section \<open>Quality\<close>

text \<open>
  A quality request re-encodes at exactly what it echoes.  With nothing attached the
  reply is \<open>no_attachment\<close> and nothing else happens.  Otherwise the old feed is cancelled and
  closed, the next generation is claimed for the same device, one attach of that generation
  starts with the resolved quality, and the frame sent back is that same quality, inside the
  bounds and unchanged by the backend's own clamping, whatever its default scale.
\<close>

theorem quality_echo_is_applied:
  assumes "bk_wired env"
  shows "case d_att d of
      None \<Rightarrow> doQuality env q d = bulkError env CodeNoAttachment ''no simulator attached'' d
    | Some a \<Rightarrow>
        (let q' = Resolve (bk_defaultScale env) q; d' = doQuality env q d in
           d_att d' = None \<and> d_gen d' = d_gen d + 1 \<and> d_pending d' = at_udid a
         \<and> d_tasks d' = d_tasks d @
             [Attaching \<lparr>t_udid = at_udid a, t_quality = q', t_gen = d_gen d',
                         t_route = lifecycleReply d, t_claim = Suc (d_claims d)\<rparr>]
         \<and> (\<exists>ok. new_effects d d' = [CancelFeed (at_feed a), CloseFeed (at_feed a),
               BulkText ok (marshal_quality (bk_float env) q')])
         \<and> quality_in_range q' \<and> Resolve s q' = q')"
  using assms
  by (simp add: doQuality_def restartAttachment_def Let_def sendBulkText_def stop_feed_def
      new_effects_def Resolve_in_range Resolve_Resolve lifecycleReply_def split: option.split)

theorem quality_echo_is_applied_witness:
  "doQuality demo_bulk \<lparr>q_scale = 0, q_bitrate = 0\<rparr> new_dispatch =
     bulkError demo_bulk CodeNoAttachment ''no simulator attached'' new_dispatch
   \<and> d_pending (doQuality demo_bulk \<lparr>q_scale = 9, q_bitrate = 1\<rparr>
        (new_dispatch\<lparr>d_att := Some \<lparr>at_feed = 4, at_udid = ''U''\<rparr>\<rparr>)) = ''U''"
proof -
  have w: "bk_wired demo_bulk" by (simp add: demo_bulk_def)
  show ?thesis
    using quality_echo_is_applied [OF w, where d = new_dispatch and q = "\<lparr>q_scale = 0, q_bitrate = 0\<rparr>"]
      quality_echo_is_applied [OF w, where d = "new_dispatch\<lparr>d_att := Some \<lparr>at_feed = 4, at_udid = ''U''\<rparr>\<rparr>"
        and q = "\<lparr>q_scale = 9, q_bitrate = 1\<rparr>"]
    by (simp add: new_dispatch_def Let_def)
qed

section \<open>The size of a lifecycle reply\<close>

lemma json_escape_safe_append:
  "(\<forall>c \<in> set s. json_safe (of_char c)) \<Longrightarrow> json_escape (s @ t) = s @ json_escape t"
proof (induction s)
  case (Cons c cs)
  then show ?case by (simp add: json_escape_ascii json_safe_def)
qed simp

lemma length_field_le:
  "length (json_field k (json_string v)) \<le> 6 * length k + length (json_escape v) + 5"
  using length_json_escape [of k] by (simp add: length_json_field) (simp add: json_string_def)

lemma sum_list_opt_string:
  "sum_list (map length (opt_string k v)) + length (opt_string k v) \<le> 6 * length k + length (json_escape v) + 6"
  using length_field_le [of k v] by (simp add: opt_string_def)

definition plain_text :: "string \<Rightarrow> bool" where
  \<comment> \<open>printable ASCII without the bytes JSON escapes\<close>
  "plain_text s \<longleftrightarrow> (\<forall>c \<in> set s. json_safe (of_char c))"

lemma plain_escape: "plain_text s \<Longrightarrow> json_escape s = s"
  by (simp add: plain_text_def json_escape_safe)

lemma cap_msg_plain:
  assumes "plain_text (cr_msg v)"
  shows "length (json_escape (cr_msg (cap_msg v))) \<le> lifecycleMsgMax + 18"
proof -
  let ?t = "take lifecycleMsgMax (cr_msg v)"
  have t: "\<forall>c \<in> set ?t. json_safe (of_char c)"
    using assms by (auto simp: plain_text_def dest: in_set_takeD)
  then have "to_valid_utf8 ?t = ?t"
    by (intro to_valid_utf8_ascii) (auto simp: json_safe_def)
  then have "json_escape (to_valid_utf8 ?t @ ellipsis) = ?t @ json_escape ellipsis"
    using json_escape_safe_append [OF t] by simp
  moreover have "length (json_escape ellipsis) \<le> 18"
    using length_json_escape [of ellipsis] by (simp add: ellipsis_def)
  ultimately show ?thesis
    using plain_escape [OF assms] by (simp add: cap_msg_def)
qed

text \<open>
  The message cap keeps a lifecycle failure inside one packet.  However long the
  backend's plain message is, the frame sent on "bulk" for it, with a device identifier of
  up to 40 bytes and the protocol's own operation and code, is at most \<open>bulkFrameMax\<close> bytes.
\<close>

theorem failure_reply_fits:
  assumes "plain_text msg" and "length udid \<le> 40" and "length op + length code \<le> 24"
    and "plain_text op" and "plain_text code" and "plain_text udid"
  shows "length (marshal_reply (wire_reply ViaBulk ((lifecycle_error op udid code msg)\<lparr>cr_retryable := rt\<rparr>)))
           \<le> bulkFrameMax"
proof -
  define v where "v = cap_msg ((lifecycle_error op udid code msg)\<lparr>cr_retryable := rt\<rparr>)"
  have f: "cr_type v = ''error''" "cr_udid v = udid" "cr_operation v = op" "cr_code v = code"
    "cr_w v = 0" "cr_h v = 0" "cr_name v = []" "cr_osVersion v = []" "\<not> cr_paired v"
    "cr_latestVersion v = []" "cr_version v = []" "cr_caps v = []"
    by (simp_all add: v_def cap_msg_def lifecycle_error_def ctrl_reply_def)
  have "length (json_escape (cr_msg v)) \<le> lifecycleMsgMax + 18"
    unfolding v_def by (rule cap_msg_plain) (simp add: lifecycle_error_def assms(1))
  moreover have "length (json_field ''type'' (json_string ''error'')) \<le> 59"
    using length_field_le [of "''type''" "''error''"] length_json_escape [of "''error''"] by simp
  moreover have "sum_list (map length (opt_bool ''retryable'' (cr_retryable v)))
      + length (opt_bool ''retryable'' (cr_retryable v)) \<le> 62"
    using length_json_escape [of "''retryable''"] by (simp add: opt_bool_def length_json_field json_bool_def)
  ultimately have "length (marshal_reply v) \<le> bulkFrameMax"
    using length_json_object [of "reply_fields v"] sum_list_opt_string [of "''msg''" "cr_msg v"]
      sum_list_opt_string [of "''udid''" udid] sum_list_opt_string [of "''operation''" op]
      sum_list_opt_string [of "''code''" code] assms(2,3)
      plain_escape [OF assms(4)] plain_escape [OF assms(5)] plain_escape [OF assms(6)]
    by (simp add: marshal_reply_def reply_fields_def f bulkFrameMax_def lifecycleMsgMax_def)
      (simp add: opt_string_def opt_nat_def opt_strings_def opt_bool_def)
  then show ?thesis by (simp add: wire_reply_def v_def)
qed

theorem failure_reply_fits_witness:
  "length (marshal_reply (wire_reply ViaBulk
      ((lifecycle_error opBoot ''U'' CodeBootFailed (replicate 4000 CHR ''x''))\<lparr>cr_retryable := True\<rparr>)))
     \<le> bulkFrameMax"
  by (rule failure_reply_fits) (simp_all add: plain_text_def json_safe_def code_defs)

text \<open>
  The cap counts bytes before JSON escapes them, so it does not bound the frame for every
  message: a capture of 600 line breaks, each two bytes once escaped, goes over the ceiling.
\<close>

lemma length_escape_newlines: "length (json_escape (replicate n CHR 0x0A @ s)) = 2 * n + length (json_escape s)"
  by (induction n) (simp_all add: json_escape_ascii json_safe_def json_escape_byte_def)

lemma reply_cap_counts_before_escaping:
  "bulkFrameMax < length (marshal_reply (wire_reply ViaBulk
     (lifecycle_error opBoot ''U'' CodeBootFailed (replicate 600 CHR 0x0A))))"
proof -
  have t: "to_valid_utf8 (replicate 512 CHR 0x0A) = replicate 512 CHR 0x0A"
    by (rule to_valid_utf8_ascii) simp
  let ?m = "replicate 512 CHR 0x0A @ ellipsis"
  have "wire_reply ViaBulk (lifecycle_error opBoot ''U'' CodeBootFailed (replicate 600 CHR 0x0A)) =
      (lifecycle_error opBoot ''U'' CodeBootFailed [])\<lparr>cr_msg := ?m\<rparr>" (is "_ = ?v")
    by (simp add: wire_reply_def cap_msg_def lifecycle_error_def lifecycleMsgMax_def take_replicate t)
  moreover have "length (json_field ''msg'' (json_string ?m)) \<ge> 1024"
    by (simp add: length_json_field) (simp add: json_string_def length_escape_newlines)
  moreover have "json_field ''msg'' (json_string ?m) \<in> set (reply_fields ?v)"
    by (simp add: reply_fields_def opt_string_def)
  then have "length (marshal_reply ?v) > length (json_field ''msg'' (json_string ?m))"
    unfolding marshal_reply_def by (rule length_object_member)
  ultimately show ?thesis by (simp add: bulkFrameMax_def)
qed

end
