(* ===== verification/Wire_Files.thy ===== *)
theory Wire_Files
  imports Wire Pair_Control Pinned_Store Sim_Control Bulk Companion Subscription_Api Update_Check
begin

text \<open>
  The other JSON texts of the program, as bytes: the pinned-clients file, the local control
  interface and its file, the helper's startup lines, the control and bulk messages of a client,
  a subscription report, the simulator list and the release description.  Each decoder is the
  structure's fields with their tags; where the program also writes the text, it reads it back.
\<close>

section \<open>The pinned-clients file (pinned.go)\<close>

definition client_json :: "PinnedClient \<Rightarrow> json" where
  "client_json c = JObj ((''pubkey'', JStr (pc_pubkey c)) # opt_string_member ''name'' (pc_name c))"

definition clients_text :: "PinnedClient list \<Rightarrow> string" where
  "clients_text cs = json_indent 0 (JArr (map client_json cs))"

definition client_fields :: "PinnedClient fields" where
  "client_fields =
     [(''pubkey'', field pc_pubkey pc_pubkey_update into_string),
      (''name'', field pc_name pc_name_update into_string)]"

definition no_client :: PinnedClient where "no_client = \<lparr>pc_pubkey = [], pc_name = []\<rparr>"

text \<open>What \<open>LoadPinnedStore\<close> makes of the bytes of the file.\<close>

definition pin_file_of :: "string \<Rightarrow> pin_file" where
  "pin_file_of bytes =
     (if trim_space bytes = [] then Blank
      else (case unmarshal_into (into_slice (into_struct client_fields) no_client) [] bytes of
              None \<Rightarrow> pin_file.Corrupt
            | Some cs \<Rightarrow> Clients cs))"

definition clean_client :: "PinnedClient \<Rightarrow> bool" where
  "clean_client c \<longleftrightarrow> valid_utf8 (pc_pubkey c) \<and> valid_utf8 (pc_name c)"

lemma trim_left_keeps:
  "(\<forall>u \<in> set us. of_char c \<notin> set u) \<Longrightarrow> c \<in> set s \<Longrightarrow> c \<in> set (trim_left_units us s)"
proof (induction us s rule: trim_left_units.induct)
  case (1 us s)
  show ?case
  proof (cases "leading_space us s = 0 \<or> s = []")
    case True
    then show ?thesis using 1(3) by (subst trim_left_units.simps) simp
  next
    case False
    then obtain u where find: "find (\<lambda>u. take (length u) (map of_char s) = u) us = Some u"
      by (cases "find (\<lambda>u. take (length u) (map of_char s) = u) us") (auto simp: leading_space_def)
    then have u: "u \<in> set us" "take (length u) (map of_char s) = u" by (auto simp: find_Some_iff)
    have len: "leading_space us s = length u" by (simp add: leading_space_def find)
    have "c \<notin> set (take (length u) s)"
    proof
      assume "c \<in> set (take (length u) s)"
      then have "(of_char c :: nat) \<in> of_char ` set (take (length u) s)" by blast
      also have "\<dots> = set u" using arg_cong [OF u(2), of set] by (simp add: take_map)
      finally show False using 1(2) u(1) by blast
    qed
    then have "c \<in> set (drop (leading_space us s) s)"
      using 1(3) len by (metis Un_iff append_take_drop_id set_append)
    then have "c \<in> set (trim_left_units us (drop (leading_space us s) s))" using 1(1) [OF False] 1(2) by blast
    then show ?thesis using False by (subst trim_left_units.simps) simp
  qed
qed

lemma trim_space_keeps: "\<forall>u \<in> set space_units. of_char c \<notin> set u \<Longrightarrow> c \<in> set s \<Longrightarrow> c \<in> set (trim_space s)"
  unfolding trim_space_def set_rev by (intro trim_left_keeps) (auto intro: trim_left_keeps)

lemma client_find [simp]:
  "find_field client_fields ''pubkey'' = Some (field pc_pubkey pc_pubkey_update into_string)"
  "find_field client_fields ''name'' = Some (field pc_name pc_name_update into_string)"
  by (simp_all add: find_field_def client_fields_def)

lemma into_client: "into_struct client_fields (client_json c) no_client = Some c"
proof -
  have "into_members client_fields ((''pubkey'', JStr (pc_pubkey c)) # opt_string_member ''name'' (pc_name c) @ []) no_client =
      Some \<lparr>pc_pubkey = pc_pubkey c, pc_name = pc_name c\<rparr>"
    by (subst into_member [OF client_find(1)], simp) (subst into_opt_string [OF client_find(2)], simp_all add: no_client_def)
  then show ?thesis by (simp add: client_json_def into_struct_def)
qed

lemma clean_client_json: "clean_client c \<Longrightarrow> clean_json (client_json c)"
  by (simp add: client_json_def clean_client_def opt_string_member_def valid_utf8_ascii)

interpretation clients: json_codec "\<lambda>cs. JArr (map client_json cs)" "into_slice (into_struct client_fields) no_client" "[]"
  "list_all clean_client"
proof unfold_locales
  fix cs
  have "into_elements (into_struct client_fields) no_client (map client_json cs) [] = Some cs"
    by (induction cs) (simp_all add: into_client)
  then show "into_slice (into_struct client_fields) no_client (JArr (map client_json cs)) [] = Some cs"
    by (simp add: into_slice_def)
  show "list_all clean_client cs \<Longrightarrow> clean_json (JArr (map client_json cs))"
    using clean_client_json by (auto simp: list_all_iff)
  show "writable (JArr (map client_json cs))"
    by (simp add: list.pred_map comp_def client_json_def opt_string_member_def)
  have "json_depth (JArr (map client_json cs)) \<le> Suc (Suc 0)"
    unfolding depth_arr
    by (simp add: list.pred_map comp_def client_json_def opt_string_member_def depth_obj del: json_depth.simps(1,2))
  then show "json_depth (JArr (map client_json cs)) \<le> maxNestingDepth"
    by (simp add: maxNestingDepth_def del: json_depth.simps)
qed

text \<open>
  What \<open>save\<close> writes is what the next start loads, for any names and keys that are valid UTF-8;
  a key is, if it ever verified a signature.
\<close>

theorem pinned_file_reads_back:
  assumes "list_all clean_client cs"
  shows "pin_file_of (clients_text cs) = Clients cs"
proof -
  have "CHR ''['' \<in> set (trim_space (clients_text cs))"
    by (rule trim_space_keeps) (auto simp: space_units_def clients_text_def)
  then show ?thesis
    using clients.indented_reads_back [OF assms] by (auto simp: pin_file_of_def clients_text_def)
qed

lemma verified_key_clean:
  assumes "Verify C k m s"
  shows "valid_utf8 k"
proof (rule valid_utf8_ascii)
  obtain bs where "b64_decode k = Some bs" using Verify_decodes [OF assms] by blast
  then have "\<forall>c \<in> set k. b64_accepts c" using b64_decode_accepts by blast
  then show "list_all (\<lambda>c. of_char c < (128 :: nat)) k"
    by (auto simp: list_all_iff b64_accepts_def b64_value_def is_newline_def Let_def split: if_splits)
qed

lemma blank_pin_file: "pin_file_of [] = Blank"
  by (simp add: pin_file_of_def trim_space_def trim_left_units.simps)

section \<open>The local control interface (pairctl.go)\<close>

text \<open>The texts of \<open>Pair_Control\<close> are the values' texts.\<close>

definition reply_json :: "string \<Rightarrow> int \<Rightarrow> json" where
  "reply_json url ttl = JObj [(''url'', JStr url), (''ttl_seconds'', JNum (itoa ttl))]"

definition state_json :: "string \<Rightarrow> string \<Rightarrow> json" where
  "state_json st client = JObj ((''state'', JStr st) # opt_string_member ''client'' client)"

definition info_json :: "string \<Rightarrow> string \<Rightarrow> json" where
  "info_json addr token = JObj [(''addr'', JStr addr), (''token'', JStr token)]"

lemma control_texts:
  "pairReply_json url ttl = json_text (reply_json url ttl) @ nl"
  "pairState_json st client = json_text (state_json st client) @ nl"
  "controlInfo_json addr token = json_text (info_json addr token)"
  by (simp_all add: pairReply_json_def reply_json_def pairState_json_def state_json_def controlInfo_json_def info_json_def
      opt_string_member_def opt_member_def opt_string_def)

definition reply_fields :: "pairReply fields" where
  "reply_fields =
     [(''url'', field pr_URL pr_URL_update into_string),
      (''ttl_seconds'', field pr_TTLSeconds pr_TTLSeconds_update into_int)]"

definition state_fields :: "pairState fields" where
  "state_fields =
     [(''state'', field ps_State ps_State_update into_string),
      (''client'', field ps_Client ps_Client_update into_string)]"

definition info_fields :: "(string \<times> string) fields" where
  "info_fields =
     [(''addr'', field fst apfst into_string), (''token'', field snd apsnd into_string)]"

text \<open>What the command makes of a reply, and of the control file.\<close>

definition http_outcome :: "'a into \<Rightarrow> 'a \<Rightarrow> control_reply \<Rightarrow> 'a call_outcome" where
  "http_outcome f zero r =
     (if cr_status r \<noteq> 200 then BadStatus (dec_digits (cr_status r))
      else (case decode_into f zero (cr_body r) of None \<Rightarrow> BadBody ''json'' | Some x \<Rightarrow> Replied x))"

definition post_reply :: "control_reply \<Rightarrow> pairReply call_outcome" where
  "post_reply = http_outcome (into_struct reply_fields) \<lparr>pr_URL = [], pr_TTLSeconds = 0\<rparr>"

definition poll_reply :: "control_reply \<Rightarrow> pairState call_outcome" where
  "poll_reply = http_outcome (into_struct state_fields) \<lparr>ps_State = [], ps_Client = []\<rparr>"

definition readInfo :: "string \<Rightarrow> string option \<Rightarrow> info_outcome" where
  "readInfo path file =
     (case file of
        None \<Rightarrow> NoFile
      | Some blob \<Rightarrow>
          (case unmarshal_into (into_struct info_fields) ([], []) blob of
             None \<Rightarrow> info_outcome.Corrupt path ''json''
           | Some (addr, token) \<Rightarrow> Info addr token))"

lemma control_find [simp]:
  "find_field reply_fields ''url'' = Some (field pr_URL pr_URL_update into_string)"
  "find_field reply_fields ''ttl_seconds'' = Some (field pr_TTLSeconds pr_TTLSeconds_update into_int)"
  "find_field state_fields ''state'' = Some (field ps_State ps_State_update into_string)"
  "find_field state_fields ''client'' = Some (field ps_Client ps_Client_update into_string)"
  "find_field info_fields ''addr'' = Some (field fst apfst into_string)"
  "find_field info_fields ''token'' = Some (field snd apsnd into_string)"
  by (simp_all add: find_field_def reply_fields_def state_fields_def info_fields_def)

interpretation pair_reply: json_codec "\<lambda>r. reply_json (pr_URL r) (pr_TTLSeconds r)" "into_struct reply_fields"
  "\<lparr>pr_URL = [], pr_TTLSeconds = 0\<rparr>" "\<lambda>r. valid_utf8 (pr_URL r) \<and> min_int64 \<le> pr_TTLSeconds r \<and> pr_TTLSeconds r \<le> max_int64"
  by unfold_locales
    (auto simp: reply_json_def into_struct_def field_def into_int_itoa valid_utf8_ascii maxNestingDepth_def)

interpretation pair_state: json_codec "\<lambda>st. state_json (ps_State st) (ps_Client st)" "into_struct state_fields"
  "\<lparr>ps_State = [], ps_Client = []\<rparr>" "\<lambda>st. valid_utf8 (ps_State st) \<and> valid_utf8 (ps_Client st)"
  by unfold_locales
    (auto simp: state_json_def into_struct_def field_def opt_string_member_def opt_member_def valid_utf8_ascii
      maxNestingDepth_def)

interpretation control_info: json_codec "\<lambda>(addr, token). info_json addr token" "into_struct info_fields"
  "([], [])" "\<lambda>(addr, token). valid_utf8 addr \<and> valid_utf8 token"
  by unfold_locales
    (auto simp: info_json_def into_struct_def field_def valid_utf8_ascii maxNestingDepth_def)

lemma post_reads_back:
  assumes "valid_utf8 url" "min_int64 \<le> ttl" "ttl \<le> max_int64"
  shows "post_reply \<lparr>cr_status = 200, cr_body = pairReply_json url ttl\<rparr> =
    Replied \<lparr>pr_URL = url, pr_TTLSeconds = ttl\<rparr>"
  using pair_reply.line_reads_back [of "\<lparr>pr_URL = url, pr_TTLSeconds = ttl\<rparr>"] assms
  by (simp add: post_reply_def http_outcome_def control_texts)

lemma poll_reads_back:
  assumes "valid_utf8 st" "valid_utf8 client"
  shows "poll_reply \<lparr>cr_status = 200, cr_body = pairState_json st client\<rparr> =
    Replied \<lparr>ps_State = st, ps_Client = client\<rparr>"
  using pair_state.line_reads_back [of "\<lparr>ps_State = st, ps_Client = client\<rparr>"] assms
  by (simp add: poll_reply_def http_outcome_def control_texts)

lemma info_reads_back:
  assumes "valid_utf8 addr" "valid_utf8 token"
  shows "readInfo path (Some (controlInfo_json addr token)) = Info addr token"
  using control_info.text_reads_back [of "(addr, token)"] assms by (simp add: readInfo_def control_texts)

text \<open>
  The command and the daemon agree.  With the address and token of the control file, which is
  read back as written, a \<open>POST\<close> arms the window and brings back the link and the lifetime; a
  \<open>GET\<close> brings back the window's state, and the client once it is consumed.
\<close>

theorem pair_talks_to_the_daemon:
  assumes "startControl (Inr addr) (Inr raw) None None ttl = Inr (c, file)" "valid_utf8 addr"
    and "min_int64 \<le> ttl_seconds ttl" "ttl_seconds ttl \<le> max_int64" "valid_utf8 (url s)" "valid_utf8 (cs_lastClient c')"
    and "cs_token c' = cs_token c" "cs_ttl c' = cs_ttl c"
  shows "readInfo path (Some file) = Info addr (cs_token c)"
    and "post_reply (fst (control_handler url now (Inr s) \<lparr>cq_method = ''POST'', cq_path = ''/pair'', cq_auth = ''Bearer '' @ cs_token c\<rparr> c' w)) =
      Replied \<lparr>pr_URL = url s, pr_TTLSeconds = ttl_seconds ttl\<rparr>"
    and "[poll_reply (fst (control_handler url now r \<lparr>cq_method = ''GET'', cq_path = ''/pair'', cq_auth = ''Bearer '' @ cs_token c\<rparr> c' w))] =
      polls_of (cs_lastClient c') w [now]"
proof -
  have c: "cs_token c = hex_string raw" "cs_ttl c = ttl" "file = controlInfo_json addr (cs_token c)"
    using assms(1) by (auto simp: startControl_def Let_def)
  have "(of_char x :: nat) < 128" if "x \<in> set (hex_string raw)" for x
  proof -
    have "(of_char (hex_lower d) :: nat) < 128" if "d < 16" for d using that by (simp add: hex_lower_def)
    moreover have "(of_char y :: nat) div 16 < 16" for y :: char
      using of_char_less_256 [of y] by (simp add: less_mult_imp_div_less)
    ultimately show ?thesis using that by (auto simp: hex_string_def Let_def)
  qed
  then have "valid_utf8 (hex_string raw)" by (intro valid_utf8_ascii) (simp add: list_all_iff)
  then show "readInfo path (Some file) = Info addr (cs_token c)"
    by (simp add: c(3) c(1) info_reads_back assms(2))
  show "post_reply (fst (control_handler url now (Inr s) \<lparr>cq_method = ''POST'', cq_path = ''/pair'', cq_auth = ''Bearer '' @ cs_token c\<rparr> c' w)) =
      Replied \<lparr>pr_URL = url s, pr_TTLSeconds = ttl_seconds ttl\<rparr>"
    using assms(3-5,7,8) c(2) by (simp add: control_handler_def pair_route_def post_reads_back)
  have "valid_utf8 (window_State now w)"
    by (simp add: window_State_def valid_utf8_ascii)
  then show "[poll_reply (fst (control_handler url now r \<lparr>cq_method = ''GET'', cq_path = ''/pair'', cq_auth = ''Bearer '' @ cs_token c\<rparr> c' w))] =
      polls_of (cs_lastClient c') w [now]"
    using assms(6,7) by (simp add: control_handler_def pair_route_def Let_def poll_reads_back polls_of_def)
qed

section \<open>The helper's startup lines (control.go)\<close>

lemma unmarshal_flat:
  assumes "writable v" "json_depth v \<le> Suc 0" "clean_json v"
  shows "unmarshal_into f zero (json_text v) = f v zero"
  using unmarshal_text [of v "[]"] assms by (simp add: unmarshal_into_def maxNestingDepth_def repaired_clean)

text \<open>A member that is decoded and not looked at.\<close>

definition unused :: "'a into \<Rightarrow> 'a \<Rightarrow> 'r into" where
  "unused f zero j r = map_option (\<lambda>_. r) (f j zero)"

definition event_fields :: "controlEvent fields" where
  "event_fields =
     [(''ready'', field ev_Ready ev_Ready_update (into_pointer into_bool False)),
      (''waiting'', unused into_string []),
      (''error'', field ev_Error ev_Error_update into_string),
      (''message'', field ev_Message ev_Message_update into_string),
      (''retryable'', field ev_Retryable ev_Retryable_update into_bool),
      (''width'', field ev_Width ev_Width_update into_rat),
      (''height'', field ev_Height ev_Height_update into_rat),
      (''scale'', field ev_Scale ev_Scale_update into_rat),
      (''encoded_width'', field ev_EncodedWidth ev_EncodedWidth_update (into_uint 64)),
      (''encoded_height'', field ev_EncodedHeight ev_EncodedHeight_update (into_uint 64))]"

definition no_event :: controlEvent where
  "no_event =
     \<lparr>ev_Ready = None, ev_Error = [], ev_Message = [], ev_Retryable = False, ev_Width = 0, ev_Height = 0,
      ev_Scale = 0, ev_EncodedWidth = 0, ev_EncodedHeight = 0\<rparr>"

definition decode_event :: "string \<Rightarrow> controlEvent option" where
  "decode_event = unmarshal_into (into_struct event_fields) no_event"

definition failure_json :: "string \<Rightarrow> string \<Rightarrow> bool \<Rightarrow> json" where
  "failure_json code msg retryable =
     JObj [(''ready'', JBool False), (''error'', JStr code), (''message'', JStr msg), (''retryable'', JBool retryable)]"

definition failure_event :: "string \<Rightarrow> string \<Rightarrow> bool \<Rightarrow> controlEvent" where
  "failure_event code msg retryable =
     no_event\<lparr>ev_Ready := Some False, ev_Error := code, ev_Message := msg, ev_Retryable := retryable\<rparr>"

lemma event_find [simp]:
  "find_field event_fields ''ready'' = Some (field ev_Ready ev_Ready_update (into_pointer into_bool False))"
  "find_field event_fields ''waiting'' = Some (unused into_string [])"
  "find_field event_fields ''error'' = Some (field ev_Error ev_Error_update into_string)"
  "find_field event_fields ''message'' = Some (field ev_Message ev_Message_update into_string)"
  "find_field event_fields ''retryable'' = Some (field ev_Retryable ev_Retryable_update into_bool)"
  by (simp_all add: find_field_def event_fields_def)

text \<open>The key order of a line does not matter: here, the failure with its keys in any of two orders.\<close>

lemma failure_line:
  assumes "valid_utf8 code" "valid_utf8 msg"
  shows "decode_event (json_text (failure_json code msg retryable)) = Some (failure_event code msg retryable)"
    and "decode_event (json_text (case failure_json code msg retryable of JObj kvs \<Rightarrow> JObj (rev kvs))) =
      Some (failure_event code msg retryable)"
  unfolding decode_event_def
  by (subst unmarshal_flat; use assms in \<open>simp add: failure_json_def valid_utf8_ascii into_struct_def field_def
      into_pointer_def failure_event_def no_event_def\<close>)+

text \<open>
  The waiting notice settles nothing: it has no \<open>ready\<close>.
\<close>

lemma waiting_line:
  assumes "valid_utf8 what"
  shows "decode_event (json_text (JObj [(''waiting'', JStr what)])) = Some no_event" "ev_Ready no_event = None"
  unfolding decode_event_def
  by (subst unmarshal_flat, use assms in \<open>simp_all add: valid_utf8_ascii into_struct_def unused_def no_event_def\<close>)

section \<open>Messages of a client (control.go, bulk.go)\<close>

definition quality_fields :: "QualityOpts fields" where
  "quality_fields =
     [(''scale'', field q_scale q_scale_update into_rat), (''bitrate'', field q_bitrate q_bitrate_update into_int)]"

text \<open>The fields of an embedded structure are the outer one's.\<close>

definition embedded :: "('r \<Rightarrow> 'a) \<Rightarrow> (('a \<Rightarrow> 'a) \<Rightarrow> 'r \<Rightarrow> 'r) \<Rightarrow> 'a fields \<Rightarrow> 'r fields" where
  "embedded get upd fs = map (\<lambda>(n, f). (n, field get upd f)) fs"

definition control_fields :: "controlMsg fields" where
  "control_fields =
     [(''type'', field c_type c_type_update into_string),
      (''udid'', field c_udid c_udid_update into_string),
      (''action'', field c_action c_action_update into_string),
      (''x'', field c_x c_x_update into_rat), (''y'', field c_y c_y_update into_rat),
      (''x1'', field c_x1 c_x1_update into_rat), (''y1'', field c_y1 c_y1_update into_rat),
      (''x2'', field c_x2 c_x2_update into_rat), (''y2'', field c_y2 c_y2_update into_rat),
      (''duration'', field c_duration c_duration_update into_rat),
      (''key'', field c_key c_key_update into_string)] @
     embedded c_quality c_quality_update quality_fields"

definition no_quality :: QualityOpts where "no_quality = \<lparr>q_scale = 0, q_bitrate = 0\<rparr>"

definition no_control :: controlMsg where
  "no_control =
     \<lparr>c_type = [], c_udid = [], c_action = [], c_x = 0, c_y = 0, c_x1 = 0, c_y1 = 0, c_x2 = 0, c_y2 = 0,
      c_duration = 0, c_key = [], c_quality = no_quality\<rparr>"

definition decode_control :: "string \<Rightarrow> controlMsg option" where
  "decode_control = unmarshal_into (into_struct control_fields) no_control"

definition bulk_fields :: "bulkMsg fields" where
  "bulk_fields =
     [(''type'', field b_type b_type_update into_string), (''udid'', field b_udid b_udid_update into_string)] @
     embedded b_quality b_quality_update quality_fields"

definition decode_bulk :: "string \<Rightarrow> bulkMsg option" where
  "decode_bulk = unmarshal_into (into_struct bulk_fields) \<lparr>b_type = [], b_udid = [], b_quality = no_quality\<rparr>"

text \<open>
  A lifecycle request means the same on both channels: decoded as a bulk message and handed
  over, it is the control message with no gesture.
\<close>

definition lifecycle_json :: "string \<Rightarrow> string \<Rightarrow> json" where
  "lifecycle_json type udid = JObj [(''type'', JStr type), (''udid'', JStr udid)]"

lemma lifecycle_on_both_channels:
  assumes "valid_utf8 type" "valid_utf8 udid"
  shows "decode_control (json_text (lifecycle_json type udid)) = Some (no_control\<lparr>c_type := type, c_udid := udid\<rparr>)"
    and "map_option bulk_control (decode_bulk (json_text (lifecycle_json type udid))) =
      decode_control (json_text (lifecycle_json type udid))"
proof -
  have find: "find_field control_fields ''type'' = Some (field c_type c_type_update into_string)"
    "find_field control_fields ''udid'' = Some (field c_udid c_udid_update into_string)"
    "find_field bulk_fields ''type'' = Some (field b_type b_type_update into_string)"
    "find_field bulk_fields ''udid'' = Some (field b_udid b_udid_update into_string)"
    by (simp_all add: find_field_def control_fields_def bulk_fields_def)
  show c: "decode_control (json_text (lifecycle_json type udid)) = Some (no_control\<lparr>c_type := type, c_udid := udid\<rparr>)"
    unfolding decode_control_def
    by (subst unmarshal_flat)
      (use assms in \<open>simp_all add: lifecycle_json_def valid_utf8_ascii into_struct_def find field_def no_control_def\<close>)
  have "decode_bulk (json_text (lifecycle_json type udid)) = Some \<lparr>b_type = type, b_udid = udid, b_quality = no_quality\<rparr>"
    unfolding decode_bulk_def
    by (subst unmarshal_flat)
      (use assms in \<open>simp_all add: lifecycle_json_def valid_utf8_ascii into_struct_def find field_def\<close>)
  then show "map_option bulk_control (decode_bulk (json_text (lifecycle_json type udid))) =
      decode_control (json_text (lifecycle_json type udid))"
    by (simp add: c bulk_control_def no_control_def)
qed

section \<open>Reports, devices, releases\<close>

definition report_fields :: "subRequest fields" where
  "report_fields =
     [(''client_pubkey'', field rq_client_pubkey rq_client_pubkey_update into_string),
      (''product_id'', field rq_product_id rq_product_id_update into_string),
      (''expires_at'', field rq_expires_at rq_expires_at_update into_string),
      (''issued_at'', field rq_issued_at rq_issued_at_update into_string)]"

definition decode_report :: "string \<Rightarrow> subRequest option" where
  "decode_report =
     decode_into (into_struct report_fields)
       \<lparr>rq_client_pubkey = [], rq_product_id = [], rq_expires_at = [], rq_issued_at = []\<rparr>"

definition device_fields :: "simctlDevice fields" where
  "device_fields =
     [(''udid'', field dev_udid dev_udid_update into_string),
      (''name'', field dev_name dev_name_update into_string),
      (''state'', field dev_state dev_state_update into_string),
      (''isAvailable'', field dev_isAvailable dev_isAvailable_update into_bool),
      (''deviceTypeIdentifier'', field dev_typeIdentifier dev_typeIdentifier_update into_string)]"

definition no_device :: simctlDevice where
  "no_device = \<lparr>dev_udid = [], dev_name = [], dev_state = [], dev_isAvailable = False, dev_typeIdentifier = []\<rparr>"

definition list_fields :: "(string \<rightharpoonup> simctlDevice list) fields" where
  "list_fields = [(''devices'', field id id (into_map (into_slice (into_struct device_fields) no_device) []))]"

definition decode_devices :: "string \<Rightarrow> (string \<rightharpoonup> simctlDevice list) option" where
  "decode_devices = unmarshal_into (into_struct list_fields) Map.empty"

text \<open>The entries of a map in some order of iteration.\<close>

definition iterates :: "(string \<times> 'a) list \<Rightarrow> (string \<rightharpoonup> 'a) \<Rightarrow> bool" where
  "iterates kvs m \<longleftrightarrow> distinct (map fst kvs) \<and> map_of kvs = m"

lemma iterates_mset:
  assumes "iterates kvs m" "iterates kvs' m"
  shows "mset kvs = mset kvs'"
proof -
  have entries: "set xs = {kv. m (fst kv) = Some (snd kv)} \<and> distinct xs" if "iterates xs m" for xs
  proof -
    have "distinct (map fst xs)" "map_of xs = m" using that by (simp_all add: iterates_def)
    then have "kv \<in> set xs \<longleftrightarrow> m (fst kv) = Some (snd kv)" for kv
      using map_of_eq_Some_iff [of xs "fst kv" "snd kv"] by simp
    then show ?thesis using \<open>distinct (map fst xs)\<close> by (auto simp: distinct_map)
  qed
  then show ?thesis using assms set_eq_iff_mset_eq_distinct by metis
qed

lemma simulators_of_text:
  assumes "decode_devices out = Some m" "iterates kvs m" "iterates kvs' m"
    and "inj_on sim_key (set (collect_devices kvs))"
  shows "parseSimctlDevices (Some kvs) = parseSimctlDevices (Some kvs')"
  using device_list_deterministic [OF iterates_mset [OF assms(2,3)] assms(4)] by simp

definition decode_tag :: "string \<Rightarrow> string option" where
  "decode_tag = decode_into (into_struct [(''tag_name'', field id id into_string)]) []"

end
