(* ===== verification/Broker_Inv.thy ===== *)
theory Broker_Inv
  imports Broker
begin

text \<open>
  The structural invariant of the broker: what each goroutine's position says about the
  tables, and what the tables say about the goroutines.  It holds in every reachable state,
  whatever the peers send and however the goroutines interleave.
\<close>

section \<open>Phases\<close>

fun holding :: "pc \<Rightarrow> bool" where
  \<comment> \<open>a client goroutine between taking its daemon's slot and giving it up\<close>
  "holding (CEvict d old j) = True"
| "holding (CConnect d j) = True"
| "holding CRead = True"
| "holding (CHandle m) = True"
| "holding (CIce ice tr m) = True"
| "holding (CProof m) = True"
| "holding CLeave = True"
| "holding _ = False"

fun listed :: "pc \<Rightarrow> bool" where
  \<comment> \<open>a daemon goroutine that has not left its read loop\<close>
  "listed (DNotify i on) = on"
| "listed (DSend i on ws) = on"
| "listed DRead = True"
| "listed (DRelay cl m) = True"
| "listed _ = False"

definition bound :: "broker \<Rightarrow> nat \<Rightarrow> nat \<Rightarrow> bool" where
  "bound b c d \<longleftrightarrow> b_dconn b d \<noteq> None \<and> b_dconn b c = None \<and> map_option cc_daemon (b_cconn b c) = Some d"

definition no_role :: "broker \<Rightarrow> nat \<Rightarrow> bool" where
  "no_role b c \<longleftrightarrow> b_dconn b c = None \<and> b_cconn b c = None"

definition is_daemon :: "broker \<Rightarrow> nat \<Rightarrow> bool" where
  "is_daemon b c \<longleftrightarrow> b_dconn b c \<noteq> None \<and> b_cconn b c = None"

fun position_ok :: "broker \<Rightarrow> nat \<Rightarrow> pc \<Rightarrow> bool" where
  "position_ok b c Fresh = no_role b c"
| "position_ok b c Accepted = no_role b c"
| "position_ok b c (DNotify i on) = (is_daemon b c \<and> map_option dc_id (b_dconn b c) = Some i)"
| "position_ok b c (DSend i on ws) = (is_daemon b c \<and> map_option dc_id (b_dconn b c) = Some i)"
| "position_ok b c DRead = is_daemon b c"
| "position_ok b c (DRelay cl m) = (is_daemon b c \<and> bound b cl c)"
| "position_ok b c DLeft = is_daemon b c"
| "position_ok b c (DBye cl) = (is_daemon b c \<and> bound b cl c)"
| "position_ok b c (CJoin d j) = (no_role b c \<and> b_dconn b d \<noteq> None)"
| "position_ok b c (CEvict d old j) =
     (bound b c d \<and> map_option cc_pubKey (b_cconn b c) = Some (m_pubkey j) \<and>
      (\<forall>x. old = Some x \<longrightarrow> bound b x d))"
| "position_ok b c (CConnect d j) =
     (bound b c d \<and> map_option cc_pubKey (b_cconn b c) = Some (m_pubkey j))"
| "position_ok b c CRead = (\<exists>d. bound b c d)"
| "position_ok b c (CHandle m) = (\<exists>d. bound b c d)"
| "position_ok b c (CIce ice tr m) = (\<exists>d. bound b c d)"
| "position_ok b c (CProof m) = (\<exists>d. bound b c d)"
| "position_ok b c CLeave = (\<exists>d. bound b c d)"
| "position_ok b c (CBye d) = bound b c d"
| "position_ok b c WRead = no_role b c"
| "position_ok b c Finished = (b_dconn b c = None \<or> b_cconn b c = None)"

definition slots_ok :: "broker \<Rightarrow> bool" where
  "slots_ok b \<longleftrightarrow> (\<forall>d c. current d b = Some c \<longrightarrow> holding (b_pc b c) \<and> bound b c d)"

definition registry_ok :: "broker \<Rightarrow> bool" where
  "registry_ok b \<longleftrightarrow> distinct (map fst (b_daemons b)) \<and> distinct (map fst (b_watchers b)) \<and>
     (\<forall>i d. map_of (b_daemons b) i = Some d \<longrightarrow>
        listed (b_pc b d) \<and> map_option dc_id (b_dconn b d) = Some i)"

definition broker_inv :: "broker \<Rightarrow> bool" where
  "broker_inv b \<longleftrightarrow> (\<forall>c. position_ok b c (b_pc b c)) \<and> slots_ok b \<and> registry_ok b"

lemma broker_inv_new: "broker_inv (new_broker turn)"
  by (simp add: broker_inv_def new_broker_def slots_ok_def registry_ok_def current_def no_role_def)

lemma current_upd [simp]:
  "current e (b\<lparr>b_cconn := x\<rparr>) = current e b" "current e (b\<lparr>b_closed := y\<rparr>) = current e b"
  "current e (b\<lparr>b_daemons := z\<rparr>) = current e b" "current e (b\<lparr>b_watchers := w\<rparr>) = current e b"
  "current e (b\<lparr>b_turn := t\<rparr>) = current e b"
  by (simp_all add: current_def)

lemma tick_tick: "tick f (tick g b) = tick (\<lambda>n. f (g n)) b"
  by (simp add: tick_def)

section \<open>Framing\<close>

text \<open>A step of goroutine \<open>c\<close> leaves the other connections' records alone and only adds.\<close>

definition frame :: "nat \<Rightarrow> broker \<Rightarrow> broker \<Rightarrow> bool" where
  "frame c b b' \<longleftrightarrow>
     (\<forall>x. x \<noteq> c \<longrightarrow> b_pc b' x = b_pc b x \<and> b_cconn b' x = b_cconn b x \<and>
        map_option dc_id (b_dconn b' x) = map_option dc_id (b_dconn b x)) \<and>
     (\<forall>x. b_dconn b x \<noteq> None \<longrightarrow> map_option dc_id (b_dconn b' x) = map_option dc_id (b_dconn b x)) \<and>
     (\<forall>x. b_cconn b x \<noteq> None \<longrightarrow> b_cconn b' x = b_cconn b x)"

lemma frame_bound:
  assumes "frame c b b'" and "bound b x d" and "x \<noteq> c \<or> b_dconn b' c = None"
  shows "bound b' x d"
proof -
  have "b_cconn b x \<noteq> None" "b_dconn b d \<noteq> None" "b_dconn b x = None"
    using assms(2) by (auto simp: bound_def)
  with assms(1) have "b_cconn b' x = b_cconn b x" "b_dconn b' d \<noteq> None"
    unfolding frame_def by (metis option.map_disc_iff)+
  moreover have "b_dconn b' x = None"
    using assms(1,3) \<open>b_dconn b x = None\<close> unfolding frame_def by (metis option.map_disc_iff)
  ultimately show ?thesis using assms(2) by (simp add: bound_def)
qed

lemma frame_positions:
  assumes "frame c b b'" and "position_ok b x p" and "x \<noteq> c" and "\<forall>y d. bound b y d \<longrightarrow> bound b' y d"
  shows "position_ok b' x p"
proof -
  have e: "b_cconn b' x = b_cconn b x" "map_option dc_id (b_dconn b' x) = map_option dc_id (b_dconn b x)"
    using assms(1,3) by (simp_all add: frame_def)
  then have n: "b_dconn b' x = None \<longleftrightarrow> b_dconn b x = None" by (metis option.map_disc_iff)
  have mono: "b_dconn b d \<noteq> None \<Longrightarrow> b_dconn b' d \<noteq> None" for d
    using assms(1) unfolding frame_def by (metis option.map_disc_iff)
  show ?thesis
    using assms(2,4) e n mono by (cases p) (auto simp: no_role_def is_daemon_def)
qed

text \<open>
  The preservation proof of one step: frame and position for the goroutine that moved, then
  the two tables.
\<close>

lemma broker_inv_step:
  assumes inv: "broker_inv b" and f: "frame c b b'"
    and d: "b_dconn b' c = None \<or> no_role b c \<or> b_dconn b c \<noteq> None"
    and pos: "(\<forall>y d. bound b y d \<longrightarrow> bound b' y d) \<Longrightarrow> position_ok b' c (b_pc b' c)"
    and slots: "(\<forall>y d. bound b y d \<longrightarrow> bound b' y d) \<Longrightarrow> slots_ok b'"
    and reg: "registry_ok b'"
  shows "broker_inv b'"
proof -
  have keep: "\<forall>y e. bound b y e \<longrightarrow> bound b' y e"
  proof (intro allI impI)
    fix y e
    assume y: "bound b y e"
    then have "y \<noteq> c \<or> b_dconn b' c = None"
      using d by (auto simp: bound_def no_role_def)
    with frame_bound [OF f y] show "bound b' y e" by blast
  qed
  have "position_ok b' x (b_pc b' x)" for x
  proof (cases "x = c")
    case False
    with inv f frame_positions [OF f _ False keep] show ?thesis
      by (simp add: broker_inv_def frame_def)
  qed (use pos [OF keep] in simp)
  with slots [OF keep] reg show ?thesis by (simp add: broker_inv_def)
qed

lemma slots_moved:
  assumes "slots_ok b" and "\<forall>y d. bound b y d \<longrightarrow> bound b' y d" and "\<forall>x. x \<noteq> c \<longrightarrow> b_pc b' x = b_pc b x"
    and "\<forall>d. current d b' = current d b" and "holding (b_pc b c) \<longrightarrow> holding (b_pc b' c)"
  shows "slots_ok b'"
  using assms unfolding slots_ok_def by metis

lemma registry_moved:
  assumes "registry_ok b" and "b_daemons b' = b_daemons b" and "distinct (map fst (b_watchers b'))"
    and "frame c b b'" and "listed (b_pc b c) \<longrightarrow> listed (b_pc b' c)"
  shows "registry_ok b'"
proof -
  have "listed (b_pc b' d) \<and> map_option dc_id (b_dconn b' d) = Some i" if "map_of (b_daemons b) i = Some d" for i d
  proof -
    have l: "listed (b_pc b d)" "map_option dc_id (b_dconn b d) = Some i"
      using assms(1) that by (auto simp: registry_ok_def)
    then have "map_option dc_id (b_dconn b' d) = Some i"
      using assms(4) unfolding frame_def by (metis option.distinct(1) option.map_disc_iff)
    moreover have "listed (b_pc b' d)"
      using l assms(4,5) by (cases "d = c") (auto simp: frame_def)
    ultimately show ?thesis by simp
  qed
  with assms show ?thesis by (simp add: registry_ok_def)
qed

text \<open>A goroutine that only moves, writes and counts.\<close>

lemma inv_moved:
  assumes inv: "broker_inv b"
    and same: "b_dconn b' = b_dconn b" "b_cconn b' = b_cconn b" "b_daemons b' = b_daemons b"
    and "distinct (map fst (b_watchers b'))"
    and pc: "b_pc b' = (b_pc b)(c := p)"
    and pos: "position_ok b c p" and h: "holding (b_pc b c) \<longrightarrow> holding p" and l: "listed (b_pc b c) \<longrightarrow> listed p"
  shows "broker_inv b'"
proof -
  have f: "frame c b b'" using same pc by (simp add: frame_def)
  have bnd: "bound b' = bound b" by (simp add: bound_def fun_eq_iff same)
  have eq: "position_ok b' c q = position_ok b c q" for q
    by (cases q) (simp_all add: bnd no_role_def is_daemon_def same)
  show ?thesis
  proof (rule broker_inv_step [OF inv f])
    show "b_dconn b' c = None \<or> no_role b c \<or> b_dconn b c \<noteq> None" by (auto simp: same)
    show "position_ok b' c (b_pc b' c)" using pos pc eq by simp
    show "slots_ok b'"
      using inv pc h by - (rule slots_moved [of b b' c], simp_all add: broker_inv_def bnd current_def same)
    show "registry_ok b'"
      using inv pc l f assms(5) same by - (rule registry_moved [of b b' c], simp_all add: broker_inv_def)
  qed
qed

section \<open>The steps\<close>

lemma position_of: "broker_inv b \<Longrightarrow> b_pc b c = p \<Longrightarrow> position_ok b c p"
  by (auto simp: broker_inv_def)

lemma watchers_distinct: "broker_inv b \<Longrightarrow> distinct (map fst (b_watchers b))"
  by (simp add: broker_inv_def registry_ok_def)

lemma inv_register:
  assumes inv: "broker_inv b" and pc: "b_pc b c = Accepted"
  shows "broker_inv (register_daemon c m b)"
proof (cases "m_daemon m = []")
  case True
  then show ?thesis
    using inv watchers_distinct [OF inv] pc position_of [OF inv pc]
    by - (rule inv_moved [where b = b and c = c and p = Finished], simp_all add: register_daemon_def no_role_def)
next
  case False
  let ?b = "register_daemon c m b"
  have nr: "no_role b c" using position_of [OF inv pc] by simp
  have fields: "b_pc ?b = (b_pc b)(c := DNotify (m_daemon m) True)" "b_cconn ?b = b_cconn b"
    "b_dconn ?b = (b_dconn b)(c \<mapsto> \<lparr>dc_id = m_daemon m, dc_trickle = m_trickle m, dc_client = None\<rparr>)"
    "b_daemons ?b = AList.update (m_daemon m) c (b_daemons b)" "b_watchers ?b = b_watchers b"
    using False by (simp_all add: register_daemon_def)
  have f: "frame c b ?b" using nr by (simp add: frame_def fields no_role_def)
  have cur: "current d ?b = current d b" for d
    using nr by (simp add: current_def fields no_role_def)
  show ?thesis
  proof (rule broker_inv_step [OF inv f])
    show "b_dconn ?b c = None \<or> no_role b c \<or> b_dconn b c \<noteq> None" using nr by simp
    show "position_ok ?b c (b_pc ?b c)" using nr by (simp add: fields is_daemon_def no_role_def)
    show "slots_ok ?b" if "\<forall>y d. bound b y d \<longrightarrow> bound ?b y d"
      by (rule slots_moved [of b ?b c]) (use inv that pc cur in \<open>simp_all add: broker_inv_def fields\<close>)
    have r: "listed (b_pc b d) \<and> map_option dc_id (b_dconn b d) = Some i" if "map_of (b_daemons b) i = Some d" for i d
      using inv that by (auto simp: broker_inv_def registry_ok_def)
    have "d \<noteq> c" if "map_of (b_daemons b) i = Some d" for i d
      using r [OF that] pc by auto
    with r inv show "registry_ok ?b"
      by (auto simp: registry_ok_def broker_inv_def fields update_conv' distinct_update split: if_splits)
  qed
qed

lemma inv_first:
  assumes inv: "broker_inv b" and pc: "b_pc b c = Accepted"
  shows "broker_inv (on_first c m b)"
proof -
  have nr: "no_role b c" using position_of [OF inv pc] by simp
  have wd: "distinct (map fst (b_watchers b))" by (rule watchers_distinct [OF inv])
  have w: "broker_inv (add_watcher c m b)"
    using inv pc nr wd
    by - (rule inv_moved [where b = b and c = c and p = WRead], simp_all add: add_watcher_def distinct_update)
  have err: "broker_inv (goto c Finished (put c x b))" for x
    using inv pc wd nr by - (rule inv_moved [where b = b and c = c and p = Finished], simp_all add: no_role_def)
  have j: "broker_inv (start_join c m b)"
  proof -
    have cj: "broker_inv (goto c (CJoin d m) (tick f b))" if "map_of (b_daemons b) (m_daemon m) = Some d" for d f
    proof -
      have "b_dconn b d \<noteq> None"
        using inv that by (fastforce simp: broker_inv_def registry_ok_def)
      with nr show ?thesis
        using inv pc wd by - (rule inv_moved [where b = b and c = c and p = "CJoin d m"], simp_all)
    qed
    have "broker_inv (goto c Finished (put c x (tick f b)))" for f x
      using inv pc wd nr by - (rule inv_moved [where b = b and c = c and p = Finished], simp_all add: no_role_def)
    then show ?thesis
      using cj err by (auto simp: start_join_def Let_def tick_tick split: option.split)
  qed
  from w err j inv_register [OF inv pc] show ?thesis by (simp add: on_first_def)
qed

lemma inv_swap:
  assumes inv: "broker_inv b" and pc: "b_pc b c = CJoin d j"
  shows "broker_inv (join_swap env c d j b)"
proof -
  have nr: "no_role b c" "b_dconn b d \<noteq> None" using position_of [OF inv pc] by simp_all
  have wd: "distinct (map fst (b_watchers b))" by (rule watchers_distinct [OF inv])
  have stop: "broker_inv (goto c Finished (put c x b))" "broker_inv (goto c Finished (put c x (tick f b)))" for x f
    using inv pc wd nr by - (rule inv_moved [where b = b and c = c and p = Finished], simp_all add: no_role_def)+
  let ?cl = "\<lambda>rnd. \<lparr>cc_pubKey = m_pubkey j, cc_bNonce = nonce_of rnd, cc_trickle = m_trickle j, cc_daemon = d\<rparr>"
  have take: "broker_inv (goto c (CEvict d (current d b) j)
      (set_client d (Some c) (b\<lparr>b_cconn := (b_cconn b)(c \<mapsto> ?cl rnd)\<rparr>)))" (is "broker_inv ?b") for rnd
  proof -
    have dc: "map_option dc_id (b_dconn ?b x) = map_option dc_id (b_dconn b x)" for x
      by (auto simp: set_client_def option.map_comp o_def)
    have dn: "b_dconn ?b x = None \<longleftrightarrow> b_dconn b x = None" for x by simp
    have cc: "b_cconn ?b = (b_cconn b)(c \<mapsto> ?cl rnd)" by simp
    have pcs: "b_pc ?b = (b_pc b)(c := CEvict d (current d b) j)" by simp
    have f: "frame c b ?b" using nr dc by (simp add: frame_def cc pcs no_role_def)
    have own: "bound ?b c d" using nr by (simp add: bound_def cc no_role_def)
    show ?thesis
    proof (rule broker_inv_step [OF inv f])
      show "b_dconn ?b c = None \<or> no_role b c \<or> b_dconn b c \<noteq> None" using nr by simp
      assume keep: "\<forall>y e. bound b y e \<longrightarrow> bound ?b y e"
      show "position_ok ?b c (b_pc ?b c)"
      proof -
        have "bound ?b x d" if "current d b = Some x" for x
          using inv keep that by (simp add: broker_inv_def slots_ok_def)
        then show ?thesis using own by (simp add: pcs cc)
      qed
      show "slots_ok ?b"
        unfolding slots_ok_def
      proof (intro allI impI)
        fix e x
        assume x: "current e ?b = Some x"
        show "holding (b_pc ?b x) \<and> bound ?b x e"
        proof (cases "e = d")
          case True
          with x nr(2) have "x = c" by (simp add: current_set_client)
          with True own show ?thesis by (simp add: pcs)
        next
          case False
          with x have old: "current e b = Some x" by (simp add: current_set_client)
          then have h: "holding (b_pc b x)" "bound b x e"
            using inv by (simp_all add: broker_inv_def slots_ok_def)
          then have "x \<noteq> c" using pc by auto
          with h keep show ?thesis by (simp add: pcs)
        qed
      qed
    next
      show "registry_ok ?b"
        using inv pc wd f by - (rule registry_moved [of b ?b c], simp_all add: broker_inv_def)
    qed
  qed
  show ?thesis
    using stop take by (simp add: join_swap_def Let_def split: option.split)
qed

lemma inv_notify:
  assumes inv: "broker_inv b"
  shows "b_pc b c = DNotify i on \<Longrightarrow> broker_inv (notify_collect c i on ts b)"
    and "b_pc b c = DSend i on (w # ws) \<Longrightarrow> broker_inv (notify_send c i on w ws b)"
    and "b_pc b c = DSend i on [] \<Longrightarrow> broker_inv (notify_done c on b)"
proof -
  note wd = watchers_distinct [OF inv]
  show "broker_inv (notify_collect c i on ts b)" if pc: "b_pc b c = DNotify i on"
    using inv pc wd position_of [OF inv pc]
    by - (rule inv_moved [where b = b and c = c and p = "DSend i on ts"], simp_all add: notify_collect_def)
  show "broker_inv (notify_send c i on w ws b)" if pc: "b_pc b c = DSend i on (w # ws)"
    using inv pc wd position_of [OF inv pc]
    by - (rule inv_moved [where b = b and c = c and p = "DSend i on ws"], simp_all add: notify_send_def)
  show "broker_inv (notify_done c on b)" if pc: "b_pc b c = DSend i on []"
    using inv pc wd position_of [OF inv pc]
    by - (rule inv_moved [where b = b and c = c and p = "if on then DRead else DLeft"],
        simp_all add: notify_done_def)
qed

lemma inv_daemon_reads:
  assumes inv: "broker_inv b"
  shows "b_pc b c = DRead \<Longrightarrow> broker_inv (daemon_read c m b)"
    and "b_pc b c = DRelay cl x \<Longrightarrow> broker_inv (daemon_relay c cl x b)"
    and "b_pc b c = DLeft \<Longrightarrow> broker_inv (daemon_left c b)"
    and "b_pc b c = DBye cl \<Longrightarrow> broker_inv (daemon_bye c cl b)"
proof -
  note wd = watchers_distinct [OF inv]
  have slot: "bound b cl c" if "current c b = Some cl" for cl
    using inv that by (simp add: broker_inv_def slots_ok_def)
  show "broker_inv (daemon_read c m b)" if pc: "b_pc b c = DRead"
  proof (cases "current c b")
    case None
    with inv show ?thesis by (simp add: daemon_read_def)
  next
    case (Some cl)
    then show ?thesis
      using inv pc wd position_of [OF inv pc] slot [OF Some]
      by - (rule inv_moved [where b = b and c = c and p = "DRelay cl m"], simp_all add: daemon_read_def)
  qed
  show "broker_inv (daemon_relay c cl x b)" if pc: "b_pc b c = DRelay cl x"
    using inv pc wd position_of [OF inv pc]
    by - (rule inv_moved [where b = b and c = c and p = DRead],
        simp_all add: daemon_relay_def split: option.split)
  show "broker_inv (daemon_left c b)" if pc: "b_pc b c = DLeft"
  proof (cases "current c b")
    case None
    then show ?thesis
      using inv pc wd position_of [OF inv pc]
      by - (rule inv_moved [where b = b and c = c and p = Finished], simp_all add: daemon_left_def is_daemon_def)
  next
    case (Some cl)
    then show ?thesis
      using inv pc wd position_of [OF inv pc] slot [OF Some]
      by - (rule inv_moved [where b = b and c = c and p = "DBye cl"], simp_all add: daemon_left_def)
  qed
  show "broker_inv (daemon_bye c cl b)" if pc: "b_pc b c = DBye cl"
    using inv pc wd position_of [OF inv pc]
    by - (rule inv_moved [where b = b and c = c and p = Finished], simp_all add: daemon_bye_def is_daemon_def)
qed

lemma inv_drop:
  assumes inv: "broker_inv b" and pc: "b_pc b c = DRead"
  shows "broker_inv (daemon_drop c b)"
proof -
  note wd = watchers_distinct [OF inv]
  have pos: "is_daemon b c" using position_of [OF inv pc] by simp
  then obtain dc where dc: "b_dconn b c = Some dc" by (auto simp: is_daemon_def)
  let ?b = "daemon_drop c b"
  have reg: "map_of (b_daemons b) i = Some c \<Longrightarrow> i = dc_id dc" for i
    using inv dc by (fastforce simp: broker_inv_def registry_ok_def)
  have f: "frame c b ?b" using dc by (simp add: frame_def daemon_drop_def)
  have bnd: "bound ?b = bound b" using dc by (simp add: bound_def fun_eq_iff daemon_drop_def)
  show ?thesis
  proof (rule broker_inv_step [OF inv f])
    show "b_dconn ?b c = None \<or> no_role b c \<or> b_dconn b c \<noteq> None" using dc by simp
    show "position_ok ?b c (b_pc ?b c)" using dc pos by (simp add: daemon_drop_def is_daemon_def)
    show "slots_ok ?b"
      using inv pc bnd dc
      by - (rule slots_moved [of b ?b c], simp_all add: broker_inv_def daemon_drop_def)
    show "registry_ok ?b"
    proof (cases "map_of (b_daemons b) (dc_id dc) = Some c")
      case True
      have d: "distinct (map fst (b_daemons b))" using inv by (simp add: broker_inv_def registry_ok_def)
      have "listed (b_pc ?b d) \<and> map_option dc_id (b_dconn ?b d) = Some i"
        if "map_of (b_daemons ?b) i = Some d" for i d
      proof -
        have i: "i \<noteq> dc_id dc" "map_of (b_daemons b) i = Some d"
          using that True dc by (auto simp: daemon_drop_def delete_conv' split: if_splits)
        then have "d \<noteq> c" using reg by auto
        moreover have "listed (b_pc b d) \<and> map_option dc_id (b_dconn b d) = Some i"
          using inv i(2) by (simp add: broker_inv_def registry_ok_def)
        ultimately show ?thesis using True dc by (simp add: daemon_drop_def)
      qed
      moreover have "distinct (map fst (b_daemons ?b))"
        using d True dc by (simp add: daemon_drop_def distinct_delete)
      ultimately show ?thesis using wd True dc by (simp add: registry_ok_def daemon_drop_def)
    next
      case False
      have "d \<noteq> c" if "map_of (b_daemons b) i = Some d" for i d using that reg False by auto
      with False inv dc show ?thesis
        by (auto simp: broker_inv_def registry_ok_def daemon_drop_def)
    qed
  qed
qed

lemma inv_client_moves:
  assumes inv: "broker_inv b"
  shows "b_pc b c = CEvict d old j \<Longrightarrow> broker_inv (evict c d old j b)"
    and "b_pc b c = CConnect d j \<Longrightarrow> broker_inv (send_connect c d j b)"
    and "b_pc b c = CRead \<Longrightarrow> broker_inv (client_read c m b)"
    and "b_pc b c = CRead \<Longrightarrow> broker_inv (goto c CLeave b)"
    and "b_pc b c = CIce ice tr x \<Longrightarrow> broker_inv (send_ice c ice tr x b)"
    and "b_pc b c = CProof x \<Longrightarrow> broker_inv (send_proof c x b)"
    and "b_pc b c = CBye d \<Longrightarrow> broker_inv (client_bye c d b)"
proof -
  note wd = watchers_distinct [OF inv]
  show "broker_inv (evict c d old j b)" if pc: "b_pc b c = CEvict d old j"
    using inv pc wd position_of [OF inv pc]
    by - (rule inv_moved [where b = b and c = c and p = "CConnect d j"],
        simp_all add: evict_def Let_def split: option.split)
  show "broker_inv (send_connect c d j b)" if pc: "b_pc b c = CConnect d j"
    using inv pc wd position_of [OF inv pc]
    by - (rule inv_moved [where b = b and c = c and p = CRead], auto simp: send_connect_def)
  show "broker_inv (client_read c m b)" if pc: "b_pc b c = CRead"
  proof -
    have "broker_inv (goto c p b)" if "p = CHandle m \<or> p = CLeave" for p
      using inv pc wd position_of [OF inv pc] that
      by - (rule inv_moved [where b = b and c = c and p = p], auto)
    with inv show ?thesis by (simp add: client_read_def split: option.split)
  qed
  show "broker_inv (goto c CLeave b)" if pc: "b_pc b c = CRead"
    using inv pc wd position_of [OF inv pc]
    by - (rule inv_moved [where b = b and c = c and p = CLeave], auto)
  show "broker_inv (send_ice c ice tr x b)" if pc: "b_pc b c = CIce ice tr x"
  proof -
    have "broker_inv (goto c (CProof x) (put d y b))" for d y
      using inv pc wd position_of [OF inv pc]
      by - (rule inv_moved [where b = b and c = c and p = "CProof x"], auto)
    with inv show ?thesis by (simp add: send_ice_def split: option.split)
  qed
  show "broker_inv (send_proof c x b)" if pc: "b_pc b c = CProof x"
  proof -
    have "broker_inv (goto c CRead (put d y b))" for d y
      using inv pc wd position_of [OF inv pc]
      by - (rule inv_moved [where b = b and c = c and p = CRead], auto)
    with inv show ?thesis by (simp add: send_proof_def split: option.split)
  qed
  show "broker_inv (client_bye c d b)" if pc: "b_pc b c = CBye d"
    using inv pc wd position_of [OF inv pc]
    by - (rule inv_moved [where b = b and c = c and p = Finished], simp_all add: client_bye_def bound_def)
qed

lemma iceServers_fields:
  assumes "iceServers cfg env pub b = (ice, b')"
  shows "b_dconn b' = b_dconn b" "b_cconn b' = b_cconn b" "b_daemons b' = b_daemons b"
    "b_watchers b' = b_watchers b" "b_pc b' = b_pc b" "b_out b' = b_out b"
  using assms by (auto simp: iceServers_def Let_def split: if_splits prod.splits sum.splits)

lemma inv_handle:
  assumes inv: "broker_inv b" and pc: "b_pc b c = CHandle m"
  shows "broker_inv (client_handle C cfg env c m b)"
proof -
  note wd = watchers_distinct [OF inv]
  have bnd: "\<exists>d. bound b c d" using position_of [OF inv pc] by simp
  have leave: "broker_inv (goto c CLeave (put c x (tick f b)))" for x f
    using inv pc wd bnd by - (rule inv_moved [where b = b and c = c and p = CLeave], simp_all)
  have rd: "broker_inv (goto c CRead (put d x b))" "broker_inv (goto c CRead b)" for d x
    using inv pc wd bnd by - (rule inv_moved [where b = b and c = c and p = CRead], simp_all)+
  have ice: "broker_inv (goto c (CIce ice tr m) (put c x b'))"
    if "iceServers cfg env pub (tick f b) = (ice, b')" for pub f ice b' tr x
    using inv pc wd bnd iceServers_fields [OF that]
    by - (rule inv_moved [where b = b and c = c and p = "CIce ice tr m"], simp_all)
  show ?thesis
    using leave rd ice inv
    by (simp add: client_handle_def Let_def split: option.split prod.split)
qed

lemma inv_leave:
  assumes inv: "broker_inv b" and pc: "b_pc b c = CLeave"
  shows "broker_inv (client_leave c b)"
proof -
  note wd = watchers_distinct [OF inv]
  obtain d where bnd: "bound b c d" using position_of [OF inv pc] by auto
  then obtain cc where cc: "b_cconn b c = Some cc" "cc_daemon cc = d" by (auto simp: bound_def)
  have own: "e = d" if "current e b = Some c" for e
    using inv that cc by (fastforce simp: broker_inv_def slots_ok_def bound_def)
  let ?b = "client_leave c b"
  have dc: "map_option dc_id (b_dconn ?b x) = map_option dc_id (b_dconn b x)" for x
    by (auto simp: client_leave_def set_client_def option.map_comp o_def split: option.split)
  have dn: "b_dconn ?b x = None \<longleftrightarrow> b_dconn b x = None" for x
    by (simp add: client_leave_def split: option.split)
  have cn: "b_cconn ?b = b_cconn b" by (simp add: client_leave_def split: option.split)
  have pcs: "b_pc ?b = (b_pc b)(c := if current d b = Some c then CBye d else Finished)"
    using cc by (simp add: client_leave_def)
  have cur: "current e ?b = (if current d b = Some c \<and> e = d then None else current e b)" for e
    using cc bnd by (auto simp: client_leave_def current_set_client bound_def)
  have f: "frame c b ?b" by (simp add: frame_def dc cn pcs)
  show ?thesis
  proof (rule broker_inv_step [OF inv f])
    show "b_dconn ?b c = None \<or> no_role b c \<or> b_dconn b c \<noteq> None" using dn bnd by (simp add: bound_def)
    assume keep: "\<forall>y e. bound b y e \<longrightarrow> bound ?b y e"
    show "position_ok ?b c (b_pc ?b c)" using keep bnd dn by (simp add: pcs bound_def)
    show "slots_ok ?b"
      unfolding slots_ok_def
    proof (intro allI impI)
      fix e x
      assume x: "current e ?b = Some x"
      then have ne: "\<not> (current d b = Some c \<and> e = d)" using cur [of e] by (metis option.distinct(1))
      with x have old: "current e b = Some x" using cur [of e] by (metis (full_types))
      have "x \<noteq> c" using own [of e] old ne by blast
      moreover have "holding (b_pc b x) \<and> bound b x e" using inv old by (simp add: broker_inv_def slots_ok_def)
      ultimately show "holding (b_pc ?b x) \<and> bound ?b x e" using keep by (simp add: pcs)
    qed
  next
    have "b_daemons ?b = b_daemons b" "b_watchers ?b = b_watchers b"
      by (simp_all add: client_leave_def split: option.split)
    then show "registry_ok ?b"
      using inv pc wd f by - (rule registry_moved [of b ?b c], simp_all add: broker_inv_def)
  qed
qed

lemma inv_watcher_gone:
  assumes inv: "broker_inv b" and pc: "b_pc b c = WRead"
  shows "broker_inv (drop_watcher c b)"
  using inv pc watchers_distinct [OF inv] position_of [OF inv pc]
  by - (rule inv_moved [where b = b and c = c and p = Finished],
      simp_all add: drop_watcher_def distinct_delete no_role_def)

lemma inv_open:
  assumes inv: "broker_inv b"
  shows "b_pc b c = Fresh \<Longrightarrow> broker_inv (goto c Accepted b)"
    and "b_pc b c = Accepted \<Longrightarrow> broker_inv (goto c Finished b)"
proof -
  note wd = watchers_distinct [OF inv]
  show "broker_inv (goto c Accepted b)" if pc: "b_pc b c = Fresh"
    using inv pc wd position_of [OF inv pc]
    by - (rule inv_moved [where b = b and c = c and p = Accepted], simp_all)
  show "broker_inv (goto c Finished b)" if pc: "b_pc b c = Accepted"
    using inv pc wd position_of [OF inv pc]
    by - (rule inv_moved [where b = b and c = c and p = Finished], simp_all add: no_role_def)
qed

lemma broker_step_inv:
  assumes "broker_step C cfg l b b'" and "broker_inv b"
  shows "broker_inv b'"
  using assms
  by (cases rule: broker_step.cases)
    (simp_all add: inv_open inv_first inv_notify inv_daemon_reads inv_drop inv_swap inv_client_moves
      inv_handle inv_leave inv_watcher_gone)

lemma broker_trace_inv: "broker_trace C cfg turn tr b \<Longrightarrow> broker_inv b"
  by (induction rule: broker_trace.induct) (auto simp: broker_inv_new intro: broker_step_inv)

lemma one_role: "broker_inv b \<Longrightarrow> b_dconn b c = None \<or> b_cconn b c = None"
  using position_of [of b c "b_pc b c"]
  by (cases "b_pc b c") (auto simp: no_role_def is_daemon_def bound_def)

end
