(* ===== verification/Broker_History.thy ===== *)
theory Broker_History
  imports Broker_Inv
begin

text \<open>
  Where every message the broker wrote came from.  The invariant ties the output to the
  history: what a daemon receives was built by the broker, or is an offer or candidate that a
  client bound to it sent; what a client receives was built by the broker, or came from its
  own daemon; and relay credentials only ever follow a verified proof.
\<close>

section \<open>Provenance\<close>

definition ice_allowed :: "config \<Rightarrow> broker_env \<Rightarrow> string \<Rightarrow> ice_server list \<Rightarrow> bool" where
  \<comment> \<open>STUN for everyone, and one usable relay when the key is entitled; \<open>0\<close> is Go's zero time\<close>
  "ice_allowed cfg env pub ice \<longleftrightarrow>
     ice = [\<lparr>urls = cf_STUNURLs cfg, username = [], credential = []\<rparr>] \<or>
     (\<exists>relay. ice = [\<lparr>urls = cf_STUNURLs cfg, username = [], credential = []\<rparr>, relay] \<and> (0 \<le> bv_now env \<longrightarrow> relay_ok relay) \<and>
        (cf_TURNOpen cfg \<or> cf_hasStore cfg \<and> bv_active env pub = Inr True))"

definition proved ::
  "crypto \<Rightarrow> config \<Rightarrow> label list \<Rightarrow> broker \<Rightarrow> nat \<Rightarrow> signal_msg \<Rightarrow> ice_server list \<Rightarrow> bool" where
  \<comment> \<open>client \<open>c\<close> signed the nonce the broker drew for it, and \<open>ice\<close> is what that earned\<close>
  "proved C cfg tr b c p ice \<longleftrightarrow>
     (\<exists>env cc env0 rnd. LHandle c p env \<in> set tr \<and> m_type p = TypeProof \<and> b_cconn b c = Some cc \<and>
        LSwap c env0 \<in> set tr \<and> bv_random env0 = Some rnd \<and> cc_bNonce cc = nonce_of rnd \<and>
        Verify C (cc_pubKey cc) (cc_bNonce cc) (m_brokerSig p) \<and> ice_allowed cfg env (cc_pubKey cc) ice)"

definition to_daemon_ok ::
  "crypto \<Rightarrow> config \<Rightarrow> label list \<Rightarrow> broker \<Rightarrow> nat \<Rightarrow> signal_msg \<Rightarrow> bool" where
  "to_daemon_ok C cfg tr b d m \<longleftrightarrow>
     m = peerLeftMsg \<or>
     (\<exists>c j. LFirst c j \<in> set tr \<and> m_type j = TypeJoin \<and> bound b c d \<and> m = connectMsg j) \<or>
     (\<exists>c p ice t. proved C cfg tr b c p ice \<and> bound b c d \<and> (m = iceMsg ice t \<or> m = proofMsg (m_sig p))) \<or>
     (\<exists>c. LRead c m \<in> set tr \<and> bound b c d \<and> (m_type m = TypeOffer \<or> m_type m = TypeCandidate))"

definition to_client_ok ::
  "crypto \<Rightarrow> config \<Rightarrow> label list \<Rightarrow> broker \<Rightarrow> nat \<Rightarrow> signal_msg \<Rightarrow> bool" where
  "to_client_ok C cfg tr b c m \<longleftrightarrow>
     m = peerLeftMsg \<or> m = takenOverMsg \<or> (\<exists>t. m = errMsg t) \<or>
     (\<exists>p ice t. proved C cfg tr b c p ice \<and> m = iceMsg ice t) \<or>
     (\<exists>d x cc. LRead d x \<in> set tr \<and> m_type x = TypeChallenge \<and> bound b c d \<and> b_cconn b c = Some cc \<and>
        m = challengeMsg (m_nonce x) (cc_bNonce cc)) \<or>
     (\<exists>d. LRead d m \<in> set tr \<and> bound b c d \<and>
        m_type m \<in> {TypeAnswer, TypeCandidate, TypeError, TypePeerLeft})"

definition spectator :: "broker \<Rightarrow> nat \<Rightarrow> bool" where
  "spectator b w \<longleftrightarrow> no_role b w \<and> (b_pc b w = WRead \<or> b_pc b w = Finished)"

fun unheard :: "pc \<Rightarrow> bool" where
  "unheard Fresh = True"
| "unheard Accepted = True"
| "unheard (CJoin d j) = True"
| "unheard _ = False"

fun position_hist :: "crypto \<Rightarrow> config \<Rightarrow> label list \<Rightarrow> broker \<Rightarrow> nat \<Rightarrow> pc \<Rightarrow> bool" where
  "position_hist C cfg tr b c (CJoin d j) = (LFirst c j \<in> set tr \<and> m_type j = TypeJoin)"
| "position_hist C cfg tr b c (CEvict d old j) = (LFirst c j \<in> set tr \<and> m_type j = TypeJoin)"
| "position_hist C cfg tr b c (CConnect d j) = (LFirst c j \<in> set tr \<and> m_type j = TypeJoin)"
| "position_hist C cfg tr b c (CHandle m) = (LRead c m \<in> set tr)"
| "position_hist C cfg tr b c (CIce ice t m) = proved C cfg tr b c m ice"
| "position_hist C cfg tr b c (CProof m) = (\<exists>ice. proved C cfg tr b c m ice)"
| "position_hist C cfg tr b c (DRelay cl m) = (LRead c m \<in> set tr)"
| "position_hist C cfg tr b c (DSend i on ws) = (\<forall>w \<in> set ws. spectator b w)"
| "position_hist C cfg tr b c _ = True"

definition message_ok ::
  "crypto \<Rightarrow> config \<Rightarrow> label list \<Rightarrow> broker \<Rightarrow> nat \<Rightarrow> signal_msg \<Rightarrow> bool" where
  "message_ok C cfg tr b x m \<longleftrightarrow> \<not> unheard (b_pc b x) \<and>
     (b_dconn b x \<noteq> None \<longrightarrow> to_daemon_ok C cfg tr b x m) \<and>
     (b_cconn b x \<noteq> None \<longrightarrow> to_client_ok C cfg tr b x m)"

definition nonce_hist :: "label list \<Rightarrow> broker \<Rightarrow> nat \<Rightarrow> bool" where
  "nonce_hist tr b c \<longleftrightarrow>
     (\<forall>cc. b_cconn b c = Some cc \<longrightarrow>
        (\<exists>env rnd. LSwap c env \<in> set tr \<and> bv_random env = Some rnd \<and> cc_bNonce cc = nonce_of rnd))"

definition history_inv :: "crypto \<Rightarrow> config \<Rightarrow> label list \<Rightarrow> broker \<Rightarrow> bool" where
  "history_inv C cfg tr b \<longleftrightarrow>
     (\<forall>c. position_hist C cfg tr b c (b_pc b c)) \<and> (\<forall>c. nonce_hist tr b c) \<and>
     (\<forall>e \<in> set (b_out b). message_ok C cfg tr b (fst e) (snd e)) \<and>
     (\<forall>w \<in> set (b_watchers b). spectator b (fst w)) \<and>
     (\<forall>f. b_turn b = Some f \<longrightarrow> turn_inv f)"

lemma history_inv_new: "\<forall>f. turn = Some f \<longrightarrow> turn_inv f \<Longrightarrow> history_inv C cfg [] (new_broker turn)"
  by (simp add: history_inv_def new_broker_def nonce_hist_def)

section \<open>Stability\<close>

text \<open>What a step keeps, as seen from the history: longer trace, more records.\<close>

definition extends :: "nat \<Rightarrow> label list \<Rightarrow> broker \<Rightarrow> label list \<Rightarrow> broker \<Rightarrow> bool" where
  "extends c tr b tr' b' \<longleftrightarrow> set tr \<subseteq> set tr' \<and> frame c b b' \<and> (\<forall>y d. bound b y d \<longrightarrow> bound b' y d) \<and>
     (no_role b c \<longrightarrow> no_role b' c \<or> unheard (b_pc b c)) \<and>
     (b_dconn b c \<noteq> None \<longrightarrow> b_cconn b c = None \<longrightarrow> b_cconn b' c = None) \<and>
     (b_cconn b c \<noteq> None \<longrightarrow> b_dconn b c = None \<longrightarrow> b_dconn b' c = None) \<and>
     (\<not> unheard (b_pc b c) \<longrightarrow> \<not> unheard (b_pc b' c)) \<and> (spectator b c \<longrightarrow> spectator b' c)"

lemma proved_mono:
  assumes "extends c tr b tr' b'" and "proved C cfg tr b x p ice"
  shows "proved C cfg tr' b' x p ice"
  using assms unfolding extends_def frame_def proved_def
  by (metis (no_types, lifting) option.distinct(1) subset_eq)

lemma frame_other:
  assumes "frame c b b'" and "x \<noteq> c"
  shows "b_pc b' x = b_pc b x" and "b_cconn b' x = b_cconn b x" and "b_dconn b' x = None \<longleftrightarrow> b_dconn b x = None"
proof -
  show "b_pc b' x = b_pc b x" "b_cconn b' x = b_cconn b x" using assms by (simp_all add: frame_def)
  have "map_option dc_id (b_dconn b' x) = map_option dc_id (b_dconn b x)" using assms by (simp add: frame_def)
  then show "b_dconn b' x = None \<longleftrightarrow> b_dconn b x = None" by (metis option.map_disc_iff)
qed

lemma spectator_mono:
  assumes "extends c tr b tr' b'" and "spectator b w"
  shows "spectator b' w"
proof (cases "w = c")
  case False
  have "frame c b b'" using assms(1) by (simp add: extends_def)
  from frame_other [OF this False] assms(2) show ?thesis by (simp add: spectator_def no_role_def)
qed (use assms in \<open>simp add: extends_def\<close>)

lemma to_daemon_mono:
  assumes "extends c tr b tr' b'" and "to_daemon_ok C cfg tr b d m"
  shows "to_daemon_ok C cfg tr' b' d m"
proof -
  have "set tr \<subseteq> set tr'" "\<forall>y d. bound b y d \<longrightarrow> bound b' y d" using assms(1) by (simp_all add: extends_def)
  with assms(2) proved_mono [OF assms(1)] show ?thesis unfolding to_daemon_ok_def by blast
qed

lemma to_client_mono:
  assumes "extends c tr b tr' b'" and "to_client_ok C cfg tr b x m"
  shows "to_client_ok C cfg tr' b' x m"
proof -
  have "set tr \<subseteq> set tr'" "\<forall>y d. bound b y d \<longrightarrow> bound b' y d"
    "\<forall>cc. b_cconn b x = Some cc \<longrightarrow> b_cconn b' x = Some cc"
    using assms(1) by (auto simp: extends_def frame_def)
  with assms(2) proved_mono [OF assms(1)] show ?thesis unfolding to_client_ok_def by blast
qed

lemma position_hist_mono:
  assumes "extends c tr b tr' b'" and "position_hist C cfg tr b x p"
  shows "position_hist C cfg tr' b' x p"
proof -
  have "set tr \<subseteq> set tr'" using assms(1) by (simp add: extends_def)
  with assms proved_mono [OF assms(1)] spectator_mono [OF assms(1)] show ?thesis
    by (cases p) (simp_all, blast+)
qed

lemma message_mono:
  assumes "extends c tr b tr' b'" and "message_ok C cfg tr b x m"
    and roles: "b_dconn b x = None \<or> b_cconn b x = None"
  shows "message_ok C cfg tr' b' x m"
proof -
  have heard: "\<not> unheard (b_pc b' x)"
    using assms(1,2) by (cases "x = c") (auto simp: extends_def frame_def message_ok_def)
  have f: "frame c b b'" using assms(1) by (simp add: extends_def)
  have d: "b_dconn b x \<noteq> None" if "b_dconn b' x \<noteq> None"
  proof (cases "x = c")
    case False
    with f that show ?thesis by (metis frame_def option.map_disc_iff)
  next
    case True
    show ?thesis
    proof
      assume n: "b_dconn b x = None"
      show False
      proof (cases "b_cconn b x = None")
        case True
        with n \<open>x = c\<close> assms(1,2) that show False by (auto simp: extends_def no_role_def message_ok_def)
      next
        case False
        with n \<open>x = c\<close> assms(1) that show False by (auto simp: extends_def)
      qed
    qed
  qed
  have e: "b_cconn b x \<noteq> None" if "b_cconn b' x \<noteq> None"
  proof (cases "x = c")
    case False
    with f that show ?thesis by (simp add: frame_def)
  next
    case True
    show ?thesis
    proof
      assume n: "b_cconn b x = None"
      show False
      proof (cases "b_dconn b x = None")
        case True
        with n \<open>x = c\<close> assms(1,2) that show False by (auto simp: extends_def no_role_def message_ok_def)
      next
        case False
        with n \<open>x = c\<close> assms(1) that show False by (auto simp: extends_def)
      qed
    qed
  qed
  show ?thesis
    using assms(2) heard d e to_daemon_mono [OF assms(1)] to_client_mono [OF assms(1)]
    by (auto simp: message_ok_def)
qed

section \<open>One step\<close>

lemma history_step:
  assumes h: "history_inv C cfg tr b" and inv: "broker_inv b" and ext: "extends c tr b tr' b'"
    and pos: "position_hist C cfg tr' b' c (b_pc b' c)" and nonce: "nonce_hist tr' b' c"
    and out: "b_out b' = b_out b @ new"
    and msgs: "\<forall>e \<in> set new. message_ok C cfg tr' b' (fst e) (snd e)"
    and ws: "\<forall>w \<in> set (b_watchers b'). w \<in> set (b_watchers b) \<or> spectator b' (fst w)"
    and turn: "\<forall>f. b_turn b' = Some f \<longrightarrow> turn_inv f"
  shows "history_inv C cfg tr' b'"
proof -
  have f: "frame c b b'" and sub: "set tr \<subseteq> set tr'" using ext by (simp_all add: extends_def)
  have "position_hist C cfg tr' b' x (b_pc b' x)" for x
  proof (cases "x = c")
    case False
    have "position_hist C cfg tr b x (b_pc b x)" using h by (simp add: history_inv_def)
    with position_hist_mono [OF ext] frame_other [OF f False] show ?thesis by simp
  qed (use pos in simp)
  moreover have "nonce_hist tr' b' x" for x
  proof (cases "x = c")
    case False
    have "nonce_hist tr b x" using h by (simp add: history_inv_def)
    with frame_other [OF f False] sub show ?thesis unfolding nonce_hist_def by (metis subsetD)
  qed (use nonce in simp)
  moreover have "message_ok C cfg tr' b' (fst e) (snd e)" if "e \<in> set (b_out b)" for e
    using h that message_mono [OF ext _ one_role [OF inv]] by (simp add: history_inv_def)
  moreover have "spectator b' (fst w)" if "w \<in> set (b_watchers b')" for w
    using h that ws spectator_mono [OF ext] by (auto simp: history_inv_def)
  ultimately show ?thesis
    using msgs turn out by (auto simp: history_inv_def)
qed

lemma extends_moved:
  assumes same: "b_dconn b' = b_dconn b" "b_cconn b' = b_cconn b"
    and pc: "b_pc b' = (b_pc b)(c := p)" and sub: "set tr \<subseteq> set tr'"
    and heard: "unheard (b_pc b c) \<or> \<not> unheard p"
    and spec: "b_pc b c = WRead \<or> b_pc b c = Finished \<longrightarrow> p = WRead \<or> p = Finished"
  shows "extends c tr b tr' b'"
proof -
  have "bound b' = bound b" by (simp add: bound_def fun_eq_iff same)
  moreover have "frame c b b'" using same pc by (simp add: frame_def)
  ultimately show ?thesis
    using sub heard spec pc by (auto simp: extends_def no_role_def spectator_def same)
qed

lemma proved_same: "b_cconn b' = b_cconn b \<Longrightarrow> proved C cfg tr b' = proved C cfg tr b"
  by (simp add: proved_def fun_eq_iff)

lemma history_moved:
  assumes h: "history_inv C cfg tr b" and inv: "broker_inv b"
    and same: "b_dconn b' = b_dconn b" "b_cconn b' = b_cconn b"
    and pc: "b_pc b' = (b_pc b)(c := p)"
    and heard: "unheard (b_pc b c) \<or> \<not> unheard p"
    and spec: "b_pc b c = WRead \<or> b_pc b c = Finished \<longrightarrow> p = WRead \<or> p = Finished"
    and pos: "position_hist C cfg (tr @ [l]) b' c p"
    and out: "b_out b' = b_out b @ new"
    and msgs: "\<forall>e \<in> set new. message_ok C cfg (tr @ [l]) b' (fst e) (snd e)"
    and ws: "\<forall>w \<in> set (b_watchers b'). w \<in> set (b_watchers b) \<or> spectator b' (fst w)"
    and turn: "\<forall>f. b_turn b' = Some f \<longrightarrow> turn_inv f"
  shows "history_inv C cfg (tr @ [l]) b'"
proof (rule history_step [OF h inv, where c = c])
  show "extends c tr b (tr @ [l]) b'"
    by (rule extends_moved [OF same pc _ heard spec]) auto
  have "nonce_hist tr b c" using h by (simp add: history_inv_def)
  then show "nonce_hist (tr @ [l]) b' c" by (fastforce simp: nonce_hist_def same)
qed (use assms in simp_all)

lemma history_turn: "history_inv C cfg tr b \<Longrightarrow> b_turn b = Some f \<Longrightarrow> turn_inv f"
  by (simp add: history_inv_def)

lemma history_position: "history_inv C cfg tr b \<Longrightarrow> b_pc b c = p \<Longrightarrow> position_hist C cfg tr b c p"
  by (auto simp: history_inv_def)

lemma daemon_heard: "broker_inv b \<Longrightarrow> b_dconn b d \<noteq> None \<Longrightarrow> \<not> unheard (b_pc b d)"
  using position_of [of b d "b_pc b d"] by (cases "b_pc b d") (auto simp: no_role_def)

lemma client_heard: "broker_inv b \<Longrightarrow> b_cconn b d \<noteq> None \<Longrightarrow> \<not> unheard (b_pc b d)"
  using position_of [of b d "b_pc b d"] by (cases "b_pc b d") (auto simp: no_role_def)

lemma message_to_daemon:
  "broker_inv b \<Longrightarrow> b_dconn b d \<noteq> None \<Longrightarrow> to_daemon_ok C cfg tr b d m \<Longrightarrow> message_ok C cfg tr b d m"
  using one_role [of b d] daemon_heard [of b d] by (auto simp: message_ok_def)

lemma message_to_client:
  "broker_inv b \<Longrightarrow> b_cconn b c \<noteq> None \<Longrightarrow> to_client_ok C cfg tr b c m \<Longrightarrow> message_ok C cfg tr b c m"
  using one_role [of b c] client_heard [of b c] by (auto simp: message_ok_def)

lemma message_to_stranger: "no_role b c \<Longrightarrow> \<not> unheard (b_pc b c) \<Longrightarrow> message_ok C cfg tr b c m"
  by (simp add: message_ok_def no_role_def)

lemma proved_later: "proved C cfg tr b c m ice \<Longrightarrow> proved C cfg (tr @ [l]) b c m ice"
  unfolding proved_def by (metis UnI1 set_append)

section \<open>The steps\<close>

lemma history_open:
  assumes h: "history_inv C cfg tr b" and inv: "broker_inv b"
  shows "b_pc b c = Fresh \<Longrightarrow> history_inv C cfg (tr @ [LStep c]) (goto c Accepted b)"
    and "b_pc b c = Accepted \<Longrightarrow> history_inv C cfg (tr @ [LStep c]) (goto c Finished b)"
proof -
  show "history_inv C cfg (tr @ [LStep c]) (goto c Accepted b)" if "b_pc b c = Fresh"
    using that history_turn [OF h]
    by - (rule history_moved [OF h inv, where c = c and p = Accepted and new = "[]"], simp_all)
  show "history_inv C cfg (tr @ [LStep c]) (goto c Finished b)" if "b_pc b c = Accepted"
    using that history_turn [OF h]
    by - (rule history_moved [OF h inv, where c = c and p = Finished and new = "[]"], simp_all)
qed

lemma in_update: "w \<in> set (AList.update k v al) \<Longrightarrow> w = (k, v) \<or> w \<in> set al"
  by (induction al) (auto split: if_splits)

lemma history_refused:
  \<comment> \<open>a connection that is turned away before it has a role\<close>
  assumes h: "history_inv C cfg tr b" and inv: "broker_inv b" and nr: "no_role b c" and u: "unheard (b_pc b c)"
  shows "history_inv C cfg (tr @ [l]) (goto c Finished (put c m b))"
    and "history_inv C cfg (tr @ [l]) (goto c Finished (put c m (tick f b)))"
  using history_turn [OF h] u nr
  by - (rule history_moved [OF h inv, where p = Finished and c = c and new = "[(c, m)]"],
      auto simp: message_ok_def no_role_def)+

lemma history_register:
  assumes h: "history_inv C cfg tr b" and inv: "broker_inv b" and pc: "b_pc b c = Accepted"
  shows "history_inv C cfg (tr @ [l]) (register_daemon c m b)"
proof (cases "m_daemon m = []")
  case True
  then show ?thesis
    using history_refused(1) [OF h inv, of c l] position_of [OF inv pc] pc by (simp add: register_daemon_def)
next
  case False
  let ?b = "register_daemon c m b"
  have nr: "no_role b c" using position_of [OF inv pc] by simp
  have fields: "b_pc ?b = (b_pc b)(c := DNotify (m_daemon m) True)" "b_cconn ?b = b_cconn b"
    "b_dconn ?b = (b_dconn b)(c \<mapsto> \<lparr>dc_id = m_daemon m, dc_trickle = m_trickle m, dc_client = None\<rparr>)"
    "b_watchers ?b = b_watchers b" "b_out ?b = b_out b" "b_turn ?b = b_turn b"
    using False by (simp_all add: register_daemon_def)
  have "frame c b ?b" using nr by (simp add: frame_def fields no_role_def)
  moreover have "bound ?b y d" if "bound b y d" for y d
    using that nr by (auto simp: bound_def fields no_role_def)
  ultimately have "extends c tr b (tr @ [l]) ?b"
    using nr pc by (auto simp: extends_def no_role_def spectator_def fields)
  then show ?thesis
    by (rule history_step [OF h inv, where new = "[]"])
      (use nr history_turn [OF h] in \<open>simp_all add: fields nonce_hist_def no_role_def\<close>)
qed

lemma history_first:
  assumes h: "history_inv C cfg tr b" and inv: "broker_inv b" and pc: "b_pc b c = Accepted"
  shows "history_inv C cfg (tr @ [LFirst c m]) (on_first c m b)"
proof -
  have nr: "no_role b c" using position_of [OF inv pc] by simp
  note t = history_turn [OF h]
  note refused = history_refused [OF h inv nr, of "LFirst c m"]
  have w: "history_inv C cfg (tr @ [LFirst c m]) (add_watcher c m b)"
    by (rule history_moved [OF h inv, where p = WRead and c = c and
          new = "[(c, presenceMsg (snapshot (m_daemons m) b))]"])
      (use nr pc t in \<open>auto simp: add_watcher_def message_ok_def no_role_def spectator_def
          dest: in_update\<close>)
  have j: "history_inv C cfg (tr @ [LFirst c m]) (goto c (CJoin d m) (tick f b))" if "m_type m = TypeJoin" for d f
    by (rule history_moved [OF h inv, where p = "CJoin d m" and c = c and new = "[]"])
      (use pc t that in simp_all)
  show ?thesis
    using refused w j history_register [OF h inv pc] pc
    by (auto simp: on_first_def start_join_def Let_def tick_tick split: option.split)
qed

lemma history_longer:
  assumes h: "history_inv C cfg tr b" and inv: "broker_inv b" and "b_pc b c = p"
    and "position_hist C cfg (tr @ [l]) b c p"
  shows "history_inv C cfg (tr @ [l]) b"
  by (rule history_moved [OF h inv, where c = c and p = p and new = "[]"])
    (use assms history_turn [OF h] in auto)

lemma history_notify:
  assumes h: "history_inv C cfg tr b" and inv: "broker_inv b"
  shows "b_pc b c = DNotify i on \<Longrightarrow> mset ts = mset (tracking i b) \<Longrightarrow>
      history_inv C cfg (tr @ [l]) (notify_collect c i on ts b)"
    and "b_pc b c = DSend i on (w # ws) \<Longrightarrow> history_inv C cfg (tr @ [l]) (notify_send c i on w ws b)"
    and "b_pc b c = DSend i on [] \<Longrightarrow> history_inv C cfg (tr @ [l]) (notify_done c on b)"
proof -
  note t = history_turn [OF h]
  have spectator_goto: "spectator (b'\<lparr>b_pc := (b_pc b)(c := p)\<rparr>) x"
    if "spectator b x" "b_pc b c \<noteq> WRead" "b_pc b c \<noteq> Finished" "b_dconn b' = b_dconn b" "b_cconn b' = b_cconn b"
    for x p b'
    using that by (auto simp: spectator_def no_role_def)
  show "history_inv C cfg (tr @ [l]) (notify_collect c i on ts b)"
    if pc: "b_pc b c = DNotify i on" and ts: "mset ts = mset (tracking i b)"
  proof -
    have "spectator b x" if "x \<in> set ts" for x
    proof -
      have "x \<in> set (tracking i b)" using ts that by (metis mset_eq_setD)
      with h show ?thesis by (auto simp: tracking_def history_inv_def)
    qed
    then have "position_hist C cfg (tr @ [l]) (notify_collect c i on ts b) c (DSend i on ts)"
      using spectator_goto [where b' = b] pc by (simp add: notify_collect_def goto_def)
    then show ?thesis
      using pc t
      by - (rule history_moved [OF h inv, where c = c and p = "DSend i on ts" and new = "[]"],
          simp_all add: notify_collect_def)
  qed
  show "history_inv C cfg (tr @ [l]) (notify_send c i on w ws b)" if pc: "b_pc b c = DSend i on (w # ws)"
  proof -
    let ?b = "notify_send c i on w ws b"
    have sp: "spectator b x" if "x \<in> set (w # ws)" for x
      using history_position [OF h pc] that by auto
    have later: "spectator ?b x" if "spectator b x" for x
      using that pc by (auto simp: notify_send_def spectator_def no_role_def)
    have "message_ok C cfg (tr @ [l]) ?b w (presenceMsg [i \<mapsto> on])"
      using later [OF sp [of w]] by (auto intro: message_to_stranger simp: spectator_def)
    then show ?thesis
      using pc t later sp
      by - (rule history_moved [OF h inv, where c = c and p = "DSend i on ws" and
            new = "[(w, presenceMsg [i \<mapsto> on])]"], simp_all add: notify_send_def)
  qed
  show "history_inv C cfg (tr @ [l]) (notify_done c on b)" if pc: "b_pc b c = DSend i on []"
    using pc t
    by - (rule history_moved [OF h inv, where c = c and p = "if on then DRead else DLeft" and new = "[]"],
        simp_all add: notify_done_def)
qed

lemma slot_bound: "broker_inv b \<Longrightarrow> current d b = Some c \<Longrightarrow> bound b c d"
  by (simp add: broker_inv_def slots_ok_def)

lemma bound_roles: "bound b c d \<Longrightarrow> b_dconn b d \<noteq> None" "bound b c d \<Longrightarrow> b_cconn b c \<noteq> None"
  by (auto simp: bound_def)

lemma bound_goto: "b_dconn b' = b_dconn b \<Longrightarrow> b_cconn b' = b_cconn b \<Longrightarrow> bound b' = bound b"
  by (simp add: bound_def fun_eq_iff)

lemma history_daemon:
  assumes h: "history_inv C cfg tr b" and inv: "broker_inv b"
  shows "b_pc b c = DRead \<Longrightarrow> history_inv C cfg (tr @ [LRead c m]) (daemon_read c m b)"
    and "b_pc b c = DRelay cl x \<Longrightarrow> history_inv C cfg (tr @ [l]) (daemon_relay c cl x b)"
    and "b_pc b c = DRead \<Longrightarrow> history_inv C cfg (tr @ [l]) (daemon_drop c b)"
    and "b_pc b c = DLeft \<Longrightarrow> history_inv C cfg (tr @ [l]) (daemon_left c b)"
    and "b_pc b c = DBye cl \<Longrightarrow> history_inv C cfg (tr @ [l]) (daemon_bye c cl b)"
proof -
  note t = history_turn [OF h]
  show "history_inv C cfg (tr @ [LRead c m]) (daemon_read c m b)" if pc: "b_pc b c = DRead"
  proof (cases "current c b")
    case None
    with history_longer [OF h inv pc, of "LRead c m"] show ?thesis by (simp add: daemon_read_def)
  next
    case (Some cl)
    with pc t show ?thesis
      by - (rule history_moved [OF h inv, where c = c and p = "DRelay cl m" and new = "[]"],
          simp_all add: daemon_read_def)
  qed
  show "history_inv C cfg (tr @ [l]) (daemon_relay c cl x b)" if pc: "b_pc b c = DRelay cl x"
  proof -
    let ?b = "daemon_relay c cl x b"
    have inv': "broker_inv ?b" by (rule inv_daemon_reads(2) [OF inv pc])
    have same: "b_dconn ?b = b_dconn b" "b_cconn ?b = b_cconn b"
      by (simp_all add: daemon_relay_def split: option.split)
    have rd: "LRead c x \<in> set tr" using history_position [OF h pc] by simp
    have bnd: "bound ?b cl c" using position_of [OF inv pc] bound_goto [OF same] by simp
    then obtain cc where cc: "b_cconn b cl = Some cc" by (auto simp: bound_def same)
    have "to_client_ok C cfg (tr @ [l]) ?b cl y" if "relay_to_client cl x b = Some y" for y
      using that rd bnd cc
      by (fastforce simp: to_client_ok_def relay_to_client_def same split: if_splits)
    then have msg: "message_ok C cfg (tr @ [l]) ?b cl y" if "relay_to_client cl x b = Some y" for y
      using that message_to_client [OF inv' bound_roles(2) [OF bnd]] by blast
    show ?thesis
      using msg pc t
      by - (rule history_moved [OF h inv, where c = c and p = DRead and
            new = "case relay_to_client cl x b of None \<Rightarrow> [] | Some y \<Rightarrow> [(cl, y)]"],
          auto simp: daemon_relay_def split: option.splits)
  qed
  show "history_inv C cfg (tr @ [l]) (daemon_drop c b)" if pc: "b_pc b c = DRead"
  proof -
    obtain dc where dc: "b_dconn b c = Some dc" using position_of [OF inv pc] by (auto simp: is_daemon_def)
    show ?thesis
      using pc t dc
      by - (rule history_moved [OF h inv, where c = c and new = "[]" and
            p = "if map_of (b_daemons b) (dc_id dc) = Some c then DNotify (dc_id dc) False else DLeft"],
          simp_all add: daemon_drop_def)
  qed
  show "history_inv C cfg (tr @ [l]) (daemon_left c b)" if pc: "b_pc b c = DLeft"
    using pc t
    by - (rule history_moved [OF h inv, where c = c and new = "[]" and
          p = "case current c b of None \<Rightarrow> Finished | Some cl \<Rightarrow> DBye cl"],
        simp_all add: daemon_left_def split: option.splits)
  show "history_inv C cfg (tr @ [l]) (daemon_bye c cl b)" if pc: "b_pc b c = DBye cl"
  proof -
    let ?b = "daemon_bye c cl b"
    have bnd: "bound ?b cl c" using position_of [OF inv pc] by (simp add: daemon_bye_def bound_def)
    have "message_ok C cfg (tr @ [l]) ?b cl peerLeftMsg"
      by (rule message_to_client [OF inv_daemon_reads(4) [OF inv pc] bound_roles(2) [OF bnd]])
        (simp add: to_client_ok_def)
    then show ?thesis
      using pc t
      by - (rule history_moved [OF h inv, where c = c and p = Finished and new = "[(cl, peerLeftMsg)]"],
          simp_all add: daemon_bye_def)
  qed
qed

lemma history_swap:
  assumes h: "history_inv C cfg tr b" and inv: "broker_inv b" and pc: "b_pc b c = CJoin d j"
  shows "history_inv C cfg (tr @ [LSwap c env]) (join_swap env c d j b)"
proof -
  have nr: "no_role b c" using position_of [OF inv pc] by simp
  note refused = history_refused [OF h inv nr, of "LSwap c env"]
  let ?cl = "\<lambda>rnd. \<lparr>cc_pubKey = m_pubkey j, cc_bNonce = nonce_of rnd, cc_trickle = m_trickle j, cc_daemon = d\<rparr>"
  let ?b = "\<lambda>rnd. goto c (CEvict d (current d b) j) (set_client d (Some c) (b\<lparr>b_cconn := (b_cconn b)(c \<mapsto> ?cl rnd)\<rparr>))"
  have take: "history_inv C cfg (tr @ [LSwap c env]) (?b rnd)" if rnd: "bv_random env = Some rnd" for rnd
  proof -
    have dc: "map_option dc_id (b_dconn (?b rnd) x) = map_option dc_id (b_dconn b x)" for x
      by (auto simp: set_client_def option.map_comp o_def)
    have cc: "b_cconn (?b rnd) = (b_cconn b)(c \<mapsto> ?cl rnd)" by simp
    have f: "frame c b (?b rnd)" using nr dc by (simp add: frame_def cc no_role_def)
    have "bound (?b rnd) y e" if "bound b y e" for y e
      using that nr by (auto simp: bound_def no_role_def)
    with f have "extends c tr b (tr @ [LSwap c env]) (?b rnd)"
      using nr pc by (auto simp: extends_def no_role_def spectator_def)
    then show ?thesis
      by (rule history_step [OF h inv, where new = "[]"])
        (use history_turn [OF h] history_position [OF h pc] rnd in
          \<open>auto simp: nonce_hist_def intro!: exI [of _ env]\<close>)
  qed
  show ?thesis
    using refused take pc by (simp add: join_swap_def Let_def split: option.split)
qed

lemma history_client:
  assumes h: "history_inv C cfg tr b" and inv: "broker_inv b"
  shows "b_pc b c = CEvict d old j \<Longrightarrow> history_inv C cfg (tr @ [l]) (evict c d old j b)"
    and "b_pc b c = CConnect d j \<Longrightarrow> history_inv C cfg (tr @ [l]) (send_connect c d j b)"
    and "b_pc b c = CRead \<Longrightarrow> history_inv C cfg (tr @ [LRead c m]) (client_read c m b)"
    and "b_pc b c = CRead \<Longrightarrow> history_inv C cfg (tr @ [l]) (goto c CLeave b)"
    and "b_pc b c = CIce ice t x \<Longrightarrow> history_inv C cfg (tr @ [l]) (send_ice c ice t x b)"
    and "b_pc b c = CProof x \<Longrightarrow> history_inv C cfg (tr @ [l]) (send_proof c x b)"
    and "b_pc b c = CBye d \<Longrightarrow> history_inv C cfg (tr @ [l]) (client_bye c d b)"
proof -
  note tn = history_turn [OF h]
  have to_d: "message_ok C cfg (tr @ [l]) b' d' y"
    if "broker_inv b'" "bound b' c d'" "to_daemon_ok C cfg (tr @ [l]) b' d' y" for b' d' y
    using that by (auto intro: message_to_daemon simp: bound_def)
  show "history_inv C cfg (tr @ [l]) (evict c d old j b)" if pc: "b_pc b c = CEvict d old j"
  proof -
    let ?b = "evict c d old j b"
    have "message_ok C cfg (tr @ [l]) ?b x takenOverMsg" if "old = Some x" for x
    proof -
      have "bound b x d" using position_of [OF inv pc] that by simp
      then have "b_cconn ?b x \<noteq> None" by (auto simp: bound_def evict_def Let_def split: option.split)
      with inv_client_moves(1) [OF inv pc] show ?thesis
        by (rule message_to_client) (simp add: to_client_ok_def)
    qed
    then have "\<exists>new. b_out ?b = b_out b @ new \<and> (\<forall>e \<in> set new. message_ok C cfg (tr @ [l]) ?b (fst e) (snd e))"
      by (auto simp: evict_def Let_def split: option.splits)
    then obtain new where "b_out ?b = b_out b @ new" "\<forall>e \<in> set new. message_ok C cfg (tr @ [l]) ?b (fst e) (snd e)"
      by blast
    then show ?thesis
      using pc tn history_position [OF h pc]
      by - (rule history_moved [OF h inv, where c = c and p = "CConnect d j" and new = new],
          simp_all add: evict_def Let_def split: option.splits)
  qed
  show "history_inv C cfg (tr @ [l]) (send_connect c d j b)" if pc: "b_pc b c = CConnect d j"
  proof -
    let ?b = "send_connect c d j b"
    have bnd: "bound ?b c d" using position_of [OF inv pc] by (simp add: send_connect_def bound_def)
    have "to_daemon_ok C cfg (tr @ [l]) ?b d (connectMsg j)"
      using history_position [OF h pc] bnd by (auto simp: to_daemon_ok_def)
    from to_d [OF inv_client_moves(2) [OF inv pc] bnd this] show ?thesis
      using pc tn
      by - (rule history_moved [OF h inv, where c = c and p = CRead and new = "[(d, connectMsg j)]"],
          simp_all add: send_connect_def)
  qed
  show "history_inv C cfg (tr @ [LRead c m]) (client_read c m b)" if pc: "b_pc b c = CRead"
  proof -
    have "history_inv C cfg (tr @ [LRead c m]) (goto c p b)" if "p = CHandle m \<or> p = CLeave" for p
      using pc tn that
      by - (rule history_moved [OF h inv, where c = c and p = p and new = "[]"], auto)
    with history_longer [OF h inv pc, of "LRead c m"] show ?thesis
      by (simp add: client_read_def split: option.split)
  qed
  show "history_inv C cfg (tr @ [l]) (goto c CLeave b)" if pc: "b_pc b c = CRead"
    using pc tn by - (rule history_moved [OF h inv, where c = c and p = CLeave and new = "[]"], simp_all)
  show "history_inv C cfg (tr @ [l]) (send_ice c ice t x b)" if pc: "b_pc b c = CIce ice t x"
  proof -
    obtain cc where cc: "b_cconn b c = Some cc" using position_of [OF inv pc] by (auto simp: bound_def)
    let ?b = "send_ice c ice t x b"
    have bnd: "bound ?b c (cc_daemon cc)"
      using position_of [OF inv pc] cc by (auto simp: send_ice_def bound_def)
    have pr: "proved C cfg (tr @ [l]) ?b c x ice"
      using proved_later [of C cfg tr b c x ice l] history_position [OF h pc] cc
        proved_same [of ?b b C cfg "tr @ [l]"] by (simp add: send_ice_def)
    then have "to_daemon_ok C cfg (tr @ [l]) ?b (cc_daemon cc) (iceMsg ice t)"
      using bnd by (auto simp: to_daemon_ok_def)
    from to_d [OF inv_client_moves(5) [OF inv pc] bnd this] show ?thesis
      using pc tn cc pr
      by - (rule history_moved [OF h inv, where c = c and p = "CProof x" and new = "[(cc_daemon cc, iceMsg ice t)]"],
          auto simp: send_ice_def)
  qed
  show "history_inv C cfg (tr @ [l]) (send_proof c x b)" if pc: "b_pc b c = CProof x"
  proof -
    obtain cc where cc: "b_cconn b c = Some cc" using position_of [OF inv pc] by (auto simp: bound_def)
    let ?b = "send_proof c x b"
    have bnd: "bound ?b c (cc_daemon cc)"
      using position_of [OF inv pc] cc by (auto simp: send_proof_def bound_def)
    obtain ice where "proved C cfg tr b c x ice" using history_position [OF h pc] by auto
    then have "proved C cfg (tr @ [l]) ?b c x ice"
      using proved_later [of C cfg tr b c x ice l] cc proved_same [of ?b b C cfg "tr @ [l]"]
      by (simp add: send_proof_def)
    then have "to_daemon_ok C cfg (tr @ [l]) ?b (cc_daemon cc) (proofMsg (m_sig x))"
      using bnd by (auto simp: to_daemon_ok_def)
    from to_d [OF inv_client_moves(6) [OF inv pc] bnd this] show ?thesis
      using pc tn cc
      by - (rule history_moved [OF h inv, where c = c and p = CRead and
            new = "[(cc_daemon cc, proofMsg (m_sig x))]"], auto simp: send_proof_def)
  qed
  show "history_inv C cfg (tr @ [l]) (client_bye c d b)" if pc: "b_pc b c = CBye d"
  proof -
    let ?b = "client_bye c d b"
    have bnd: "bound ?b c d" using position_of [OF inv pc] by (simp add: client_bye_def bound_def)
    have "to_daemon_ok C cfg (tr @ [l]) ?b d peerLeftMsg" by (simp add: to_daemon_ok_def)
    from to_d [OF inv_client_moves(7) [OF inv pc] bnd this] show ?thesis
      using pc tn
      by - (rule history_moved [OF h inv, where c = c and p = Finished and new = "[(d, peerLeftMsg)]"],
          simp_all add: client_bye_def)
  qed
qed

lemma turn_get_ok:
  assumes "turn_inv f" and "turn_get now now' resp f = (r, f')"
  shows "turn_inv f' \<and> (\<forall>s. r = Inr s \<longrightarrow> 0 \<le> now \<longrightarrow> relay_ok s)"
  using assms turn_inv_get [OF assms(1), of now now' resp]
  by (cases rule: turn_get_cases [of now f now' resp]) (auto simp: turn_inv_def)

lemma iceServers_ok:
  assumes "iceServers cfg env pub b = (ice, b')" and "\<forall>f. b_turn b = Some f \<longrightarrow> turn_inv f"
  shows "ice_allowed cfg env pub ice \<and> (\<forall>f. b_turn b' = Some f \<longrightarrow> turn_inv f)"
proof (cases "relay_granted cfg env pub b")
  case False
  with assms show ?thesis by (simp add: iceServers_def Let_def ice_allowed_def)
next
  case True
  then obtain f where f: "b_turn b = Some f" by (auto simp: relay_granted_def)
  obtain r f' where g: "turn_get (bv_now env) (bv_later env) (bv_turn env) f = (r, f')" by fastforce
  from turn_get_ok [OF _ g] assms(2) f have ok: "turn_inv f'" "\<forall>s. r = Inr s \<longrightarrow> 0 \<le> bv_now env \<longrightarrow> relay_ok s"
    by auto
  have allowed: "cf_TURNOpen cfg \<or> cf_hasStore cfg \<and> bv_active env pub = Inr True"
    using True by (auto simp: relay_granted_def split: if_splits)
  show ?thesis
    using assms(1) True f g ok allowed
    by (cases r) (auto simp: iceServers_def Let_def ice_allowed_def)
qed

lemma history_handle:
  assumes h: "history_inv C cfg tr b" and inv: "broker_inv b" and pc: "b_pc b c = CHandle m"
  shows "history_inv C cfg (tr @ [LHandle c m env]) (client_handle C cfg env c m b)"
proof -
  let ?tr = "tr @ [LHandle c m env]"
  note tn = history_turn [OF h]
  obtain d where bnd: "bound b c d" using position_of [OF inv pc] by auto
  then obtain cc where cc: "b_cconn b c = Some cc" and d: "cc_daemon cc = d" and dc: "b_dconn b c = None"
    by (auto simp: bound_def)
  have rd: "LRead c m \<in> set tr" using history_position [OF h pc] by simp
  have inv': "broker_inv (client_handle C cfg env c m b)" by (rule inv_handle [OF inv pc])
  have ignored: "history_inv C cfg ?tr (goto c CRead b)"
    using pc tn by - (rule history_moved [OF h inv, where c = c and p = CRead and new = "[]"], simp_all)
  have relayed: "history_inv C cfg ?tr (goto c CRead (put d m b))" (is "history_inv C cfg ?tr ?b")
    if ty: "m_type m = TypeOffer \<or> m_type m = TypeCandidate"
  proof -
    have b: "?b = client_handle C cfg env c m b" using ty cc d by (auto simp: client_handle_def)
    have "bound ?b c d" using bnd by (simp add: bound_def)
    moreover have "to_daemon_ok C cfg ?tr ?b d m"
      using ty rd \<open>bound ?b c d\<close> by (auto simp: to_daemon_ok_def)
    ultimately have "message_ok C cfg ?tr ?b d m"
      using message_to_daemon [of ?b d] inv' b by (simp add: bound_roles)
    then show ?thesis
      using pc tn by - (rule history_moved [OF h inv, where c = c and p = CRead and new = "[(d, m)]"], simp_all)
  qed
  have refused: "history_inv C cfg ?tr (goto c CLeave (put c (errMsg t) (tick f b)))" for t f
  proof -
    have "message_ok C cfg ?tr (goto c CLeave (put c (errMsg t) (tick f b))) c (errMsg t)"
      using cc dc by (simp add: message_ok_def to_client_ok_def) blast
    then show ?thesis
      using pc tn
      by - (rule history_moved [OF h inv, where c = c and p = CLeave and new = "[(c, errMsg t)]"], simp_all)
  qed
  have granted: "history_inv C cfg ?tr (goto c (CIce ice t m) (put c (iceMsg ice t) b'))"
    (is "history_inv C cfg ?tr ?b")
    if ty: "m_type m = TypeProof" and v: "Verify C (cc_pubKey cc) (cc_bNonce cc) (m_brokerSig m)"
      and ice: "iceServers cfg env (cc_pubKey cc) (tick f b) = (ice, b')" for f ice b' t
  proof -
    note same = iceServers_fields [OF ice]
    have ok: "ice_allowed cfg env (cc_pubKey cc) ice" "\<forall>f. b_turn b' = Some f \<longrightarrow> turn_inv f"
      using iceServers_ok [OF ice] tn by auto
    have "nonce_hist tr b c" using h by (simp add: history_inv_def)
    then obtain env0 rnd where sw: "LSwap c env0 \<in> set tr" "bv_random env0 = Some rnd" "cc_bNonce cc = nonce_of rnd"
      using cc by (auto simp: nonce_hist_def)
    have pr: "proved C cfg ?tr ?b c m ice"
      unfolding proved_def
      by (rule exI [of _ env], rule exI [of _ cc], rule exI [of _ env0], rule exI [of _ rnd])
        (use ty v ok sw cc same in simp)
    have "message_ok C cfg ?tr ?b c (iceMsg ice t)"
      using pr dc same unfolding message_ok_def to_client_ok_def by simp blast
    then show ?thesis
      using pc same ok pr h
      by - (rule history_moved [OF h inv, where c = c and p = "CIce ice t m" and new = "[(c, iceMsg ice t)]"],
          simp_all)
  qed
  show ?thesis
    using refused granted relayed ignored cc d
    by (simp add: client_handle_def Let_def split: prod.split)
qed

lemma history_leave:
  assumes h: "history_inv C cfg tr b" and inv: "broker_inv b" and pc: "b_pc b c = CLeave"
  shows "history_inv C cfg (tr @ [l]) (client_leave c b)"
proof -
  obtain d where bnd: "bound b c d" using position_of [OF inv pc] by auto
  then obtain cc where cc: "b_cconn b c = Some cc" "cc_daemon cc = d" "b_dconn b c = None" by (auto simp: bound_def)
  let ?b = "client_leave c b"
  have dc: "map_option dc_id (b_dconn ?b x) = map_option dc_id (b_dconn b x)" for x
    by (auto simp: client_leave_def set_client_def option.map_comp o_def split: option.split)
  have dn: "b_dconn ?b x = None \<longleftrightarrow> b_dconn b x = None" for x by (simp add: client_leave_def split: option.split)
  have cn: "b_cconn ?b = b_cconn b" by (simp add: client_leave_def split: option.split)
  have pcs: "b_pc ?b = (b_pc b)(c := if current d b = Some c then CBye d else Finished)"
    using cc by (simp add: client_leave_def)
  have "frame c b ?b" using dc by (simp add: frame_def cn pcs)
  moreover have "bound ?b = bound b" by (simp add: bound_def fun_eq_iff dn cn)
  ultimately have "extends c tr b (tr @ [l]) ?b"
    using pc cc dn by (auto simp: extends_def no_role_def spectator_def cn pcs)
  moreover have "nonce_hist (tr @ [l]) ?b c"
    using h unfolding history_inv_def nonce_hist_def cn by (metis UnI1 set_append)
  moreover have "b_out ?b = b_out b @ []" "b_watchers ?b = b_watchers b" "b_turn ?b = b_turn b"
    by (simp_all add: client_leave_def split: option.split)
  ultimately show ?thesis
    using history_turn [OF h] by - (rule history_step [OF h inv, where c = c and new = "[]"], simp_all add: pcs)
qed

lemma in_delete: "w \<in> set (AList.delete k al) \<Longrightarrow> w \<in> set al"
  by (simp add: AList.delete_eq)

lemma history_watcher_gone:
  assumes h: "history_inv C cfg tr b" and inv: "broker_inv b" and pc: "b_pc b c = WRead"
  shows "history_inv C cfg (tr @ [l]) (drop_watcher c b)"
  using pc history_turn [OF h]
  by - (rule history_moved [OF h inv, where c = c and p = Finished and new = "[]"],
      auto simp: drop_watcher_def dest: in_delete)

section \<open>Every history\<close>

lemma history_inv_step:
  assumes "broker_step C cfg l b b'" and "broker_inv b" and "history_inv C cfg tr b"
  shows "history_inv C cfg (tr @ [l]) b'"
  using assms
  by (cases rule: broker_step.cases)
    (simp_all add: history_open history_first history_notify history_daemon history_swap history_client
      history_handle history_leave history_watcher_gone)

lemma broker_trace_history:
  assumes "broker_trace C cfg turn tr b" and "\<forall>f. turn = Some f \<longrightarrow> turn_inv f"
  shows "history_inv C cfg tr b"
  using assms
  by (induction rule: broker_trace.induct) (auto simp: history_inv_new intro: history_inv_step broker_trace_inv)

end
