(* ===== verification/Broker_Props.thy ===== *)
theory Broker_Props
  imports Broker_History
begin

text \<open>
  What the broker promises, over every history of \<open>broker_step\<close>: whom a daemon and a client
  can hear from, what relay credentials cost, who is refused as busy, what presence says, and
  what the counters add up to.  \<open>play\<close> executes one schedule and gives the concrete histories.
\<close>

section \<open>Playing a schedule\<close>

definition next_step :: "crypto \<Rightarrow> config \<Rightarrow> label \<Rightarrow> broker \<Rightarrow> broker option" where
  "next_step C cfg l b =
     (case l of
        LFirst c m \<Rightarrow> (if b_pc b c = Accepted then Some (on_first c m b) else None)
      | LSwap c env \<Rightarrow> (case b_pc b c of CJoin d j \<Rightarrow> Some (join_swap env c d j b) | _ \<Rightarrow> None)
      | LRead c m \<Rightarrow>
          (case b_pc b c of DRead \<Rightarrow> Some (daemon_read c m b) | CRead \<Rightarrow> Some (client_read c m b) | _ \<Rightarrow> None)
      | LHandle c m env \<Rightarrow> (if b_pc b c = CHandle m then Some (client_handle C cfg env c m b) else None)
      | LStep c \<Rightarrow>
          (case b_pc b c of
             Fresh \<Rightarrow> Some (goto c Accepted b)
           | Accepted \<Rightarrow> Some (goto c Finished b)
           | DNotify i on \<Rightarrow> Some (notify_collect c i on (tracking i b) b)
           | DSend i on ws \<Rightarrow>
               (case ws of [] \<Rightarrow> Some (notify_done c on b) | w # ws' \<Rightarrow> Some (notify_send c i on w ws' b))
           | DRead \<Rightarrow> Some (daemon_drop c b)
           | DRelay cl m \<Rightarrow> Some (daemon_relay c cl m b)
           | DLeft \<Rightarrow> Some (daemon_left c b)
           | DBye cl \<Rightarrow> Some (daemon_bye c cl b)
           | CEvict d old j \<Rightarrow> Some (evict c d old j b)
           | CConnect d j \<Rightarrow> Some (send_connect c d j b)
           | CRead \<Rightarrow> Some (goto c CLeave b)
           | CIce ice tr m \<Rightarrow> Some (send_ice c ice tr m b)
           | CProof m \<Rightarrow> Some (send_proof c m b)
           | CLeave \<Rightarrow> Some (client_leave c b)
           | CBye d \<Rightarrow> Some (client_bye c d b)
           | WRead \<Rightarrow> Some (drop_watcher c b)
           | _ \<Rightarrow> None))"

lemma next_step_sound: "next_step C cfg l b = Some b' \<Longrightarrow> broker_step C cfg l b b'"
  by (auto simp: next_step_def intro: broker_step.intros
      split: label.splits pc.splits list.splits if_splits)

fun play :: "crypto \<Rightarrow> config \<Rightarrow> label list \<Rightarrow> broker \<Rightarrow> broker option" where
  "play C cfg [] b = Some b"
| "play C cfg (l # ls) b = (case next_step C cfg l b of None \<Rightarrow> None | Some b' \<Rightarrow> play C cfg ls b')"

lemma play_trace:
  "broker_trace C cfg turn tr b \<Longrightarrow> play C cfg ls b = Some b' \<Longrightarrow> broker_trace C cfg turn (tr @ ls) b'"
proof (induction ls arbitrary: tr b)
  case (Cons l ls)
  then obtain x where x: "next_step C cfg l b = Some x" "play C cfg ls x = Some b'"
    by (auto split: option.splits)
  from Cons.IH [OF broker_trace.step [OF Cons.prems(1) next_step_sound [OF x(1)]] x(2)] show ?case by simp
qed simp

lemma play_new: "play C cfg ls (new_broker turn) = Some b \<Longrightarrow> broker_trace C cfg turn ls b"
  using play_trace [OF broker_trace.start] by fastforce

lemmas play_simps =
  next_step_def goto_def put_def tick_def on_first_def register_daemon_def start_join_def add_watcher_def
  snapshot_def notify_collect_def notify_send_def notify_done_def tracking_def daemon_read_def daemon_drop_def
  daemon_relay_def relay_to_client_def join_swap_def set_client_def current_def evict_def send_connect_def
  client_read_def client_handle_def iceServers_def relay_granted_def send_ice_def send_proof_def
  client_leave_def client_bye_def new_broker_def Let_def

lemma built_types [simp]:
  "m_type (connectMsg j) = TypeConnect" "m_type (challengeMsg n bn) = TypeChallenge"
  "m_type (iceMsg ice t) = TypeICEServers" "m_type (proofMsg s) = TypeProof" "m_type peerLeftMsg = TypePeerLeft"
  "m_type (presenceMsg st) = TypePresence" "m_type (errMsg e) = TypeError" "m_type takenOverMsg = TypeError"
  "m_type busyMsg = TypeError" "m_type offlineMsg = TypeError"
  by (simp_all add: connectMsg_def challengeMsg_def iceMsg_def proofMsg_def peerLeftMsg_def presenceMsg_def
      errMsg_def takenOverMsg_def busyMsg_def offlineMsg_def error_msg_def msg_of_type_def)

section \<open>A demonstration\<close>

text \<open>
  Daemon 1 registers as \<open>D\<close>; client 2, whose key signs every nonce, joins it, answers the
  challenge and sends its offer.
\<close>

definition bk_raw :: string where "bk_raw = replicate 32 CHR ''k''"
definition bk_key :: string where "bk_key = b64_encode bk_raw"

definition bk_cfg :: config where
  "bk_cfg = \<lparr>cf_STUNURLs = [''stun:s''], cf_TURNOpen = False, cf_hasStore = True\<rparr>"

definition bk_env :: broker_env where
  "bk_env = \<lparr>bv_now = 5, bv_later = 6, bv_random = Some ''r'', bv_active = (\<lambda>_. Inr True),
     bv_turn = HttpReply 201 ''201'' (Some [demo_relay])\<rparr>"

definition bk_register :: signal_msg where "bk_register = (msg_of_type TypeRegister)\<lparr>m_daemon := ''D''\<rparr>"

definition bk_join :: "string \<Rightarrow> signal_msg" where
  "bk_join key = (msg_of_type TypeJoin)\<lparr>m_daemon := ''D'', m_pubkey := key, m_takeover := True\<rparr>"

definition bk_challenge :: signal_msg where "bk_challenge = (msg_of_type TypeChallenge)\<lparr>m_nonce := ''n''\<rparr>"

definition bk_proof :: signal_msg where
  "bk_proof = (msg_of_type TypeProof)\<lparr>m_sig := ''s'', m_brokerSig := b64_encode (bk_raw @ nonce_of ''r'')\<rparr>"

definition bk_offer :: signal_msg where "bk_offer = (msg_of_type TypeOffer)\<lparr>m_sdp := ''offer''\<rparr>"

definition bk_up :: "label list" where
  "bk_up = [LStep 1, LFirst 1 bk_register, LStep 1, LStep 1]"

definition bk_joined :: "nat \<Rightarrow> string \<Rightarrow> label list" where
  "bk_joined c key = [LStep c, LFirst c (bk_join key), LSwap c bk_env, LStep c, LStep c]"

definition bk_session :: "label list" where
  "bk_session = bk_up @ bk_joined 2 bk_key @
     [LRead 1 bk_challenge, LStep 1, LRead 2 bk_proof, LHandle 2 bk_proof bk_env, LStep 2, LStep 2,
      LRead 2 bk_offer, LHandle 2 bk_offer bk_env]"

definition bk_turn :: "turnFetcher option" where "bk_turn = Some (new_turnFetcher 100)"

definition bk_end :: broker where
  "bk_end = the (play plain_crypto bk_cfg bk_session (new_broker bk_turn))"

lemma bk_verify: "Verify plain_crypto bk_key msg (b64_encode (bk_raw @ msg))"
  by (simp add: Verify_def bk_key_def b64_decode_encode plain_crypto_def) (simp add: bk_raw_def)

lemma bk_key_nonempty: "bk_key \<noteq> []"
  using Verify_no_separator(3) [OF bk_verify] .

lemmas bk_simps =
  play_simps bk_session_def bk_up_def bk_joined_def bk_register_def bk_join_def bk_challenge_def bk_proof_def
  bk_offer_def bk_env_def bk_cfg_def bk_turn_def msg_of_type_def bk_key_nonempty bk_verify
  turn_get_def new_turnFetcher_def relay_entry_def demo_relay_def

lemma bk_end:
  "play plain_crypto bk_cfg bk_session (new_broker bk_turn) = Some bk_end"
  "map (\<lambda>e. (fst e, m_type (snd e))) (b_out bk_end) =
     [(1, TypeConnect), (2, TypeChallenge), (2, TypeICEServers), (1, TypeICEServers), (1, TypeProof), (1, TypeOffer)]"
  "b_pc bk_end 1 = DRead" "b_pc bk_end 2 = CRead"
  by (simp_all add: bk_end_def bk_simps)

section \<open>Who can be heard\<close>

abbreviation turn_source :: "turnFetcher option \<Rightarrow> bool" where
  "turn_source turn \<equiv> turn = None \<or> (\<exists>ttl. turn = Some (new_turnFetcher ttl))"

lemma history_of:
  assumes "broker_trace C cfg turn tr b" and "turn_source turn"
  shows "history_inv C cfg tr b"
  using broker_trace_history [OF assms(1)] assms(2) turn_inv_new by auto

lemma bk_trace: "broker_trace plain_crypto bk_cfg bk_turn bk_session bk_end"
  by (rule play_new [OF bk_end(1)])

lemma bk_source: "turn_source bk_turn"
  by (auto simp: bk_turn_def)

lemma bk_roles: "b_dconn bk_end 1 \<noteq> None" "b_cconn bk_end 2 \<noteq> None"
  using broker_trace_inv [OF bk_trace] bk_end position_of [of bk_end 1 DRead] position_of [of bk_end 2 CRead]
  by (auto simp: is_daemon_def bound_def)

lemma bk_wrote: "\<exists>m. (1, m) \<in> set (b_out bk_end) \<and> m_type m = TypeProof"
  "\<exists>m. (2, m) \<in> set (b_out bk_end) \<and> m_type m = TypeICEServers"
proof -
  have in_types: "\<exists>m. (x, m) \<in> set out \<and> m_type m = ty"
    if "(x, ty) \<in> set (map (\<lambda>e. (fst e, m_type (snd e))) out)" for x ty out
    using that by force
  show "\<exists>m. (1, m) \<in> set (b_out bk_end) \<and> m_type m = TypeProof"
    "\<exists>m. (2, m) \<in> set (b_out bk_end) \<and> m_type m = TypeICEServers"
    by (rule in_types, subst bk_end(2), simp)+
qed

text \<open>
  C5: a registered daemon hears only what its own clients may say.  Whatever the sockets
  send and however the goroutines interleave, a message written to a daemon is a peerLeft, a
  connect built from the join of a client bound to it, the ICE servers and the bare
  signature of such a client whose proof over the broker's nonce verified, or an offer or
  candidate such a client sent.
\<close>

theorem daemon_hears_only_its_clients:
  assumes "broker_trace C cfg turn tr b" and "turn_source turn"
    and "(d, m) \<in> set (b_out b)" and "b_dconn b d \<noteq> None"
  shows "to_daemon_ok C cfg tr b d m"
  using history_of [OF assms(1,2)] assms(3,4) by (auto simp: history_inv_def message_ok_def)

theorem daemon_hears_only_its_clients_witness:
  "\<exists>m. (1, m) \<in> set (b_out bk_end) \<and> m_type m = TypeProof \<and>
     to_daemon_ok plain_crypto bk_cfg bk_session bk_end 1 m"
  using bk_wrote(1) daemon_hears_only_its_clients [OF bk_trace bk_source _ bk_roles(1)] by blast

text \<open>
  C6: a client hears only the broker and its own daemon.  A message written to a joined
  client is one the broker builds (a refusal, a takeover, a peerLeft, the ICE servers it
  earned, its daemon's challenge with the broker's nonce attached) or an answer, candidate,
  error or peerLeft that the daemon it is bound to sent; no daemon can forge ICE servers.
\<close>

theorem client_hears_only_its_daemon:
  assumes "broker_trace C cfg turn tr b" and "turn_source turn"
    and "(c, m) \<in> set (b_out b)" and "b_cconn b c \<noteq> None"
  shows "to_client_ok C cfg tr b c m"
  using history_of [OF assms(1,2)] assms(3,4) by (auto simp: history_inv_def message_ok_def)

theorem client_hears_only_its_daemon_witness:
  "\<exists>m. (2, m) \<in> set (b_out bk_end) \<and> m_type m = TypeICEServers \<and>
     to_client_ok plain_crypto bk_cfg bk_session bk_end 2 m"
  using bk_wrote(2) client_hears_only_its_daemon [OF bk_trace bk_source _ bk_roles(2)] by blast

text \<open>
  C3: relay credentials cost a proof of the key.  Whenever ICE servers were written to a
  client or a daemon, a client had answered the nonce the broker drew for that very
  connection with a signature of its own key, and beyond STUN the list holds at most one
  relay, only when TURN is open or the store said that this key is subscribed.
\<close>

theorem relay_costs_a_proof:
  assumes "broker_trace C cfg turn tr b" and "turn_source turn"
    and "(x, m) \<in> set (b_out b)" and "m_type m = TypeICEServers" and "b_dconn b x \<noteq> None \<or> b_cconn b x \<noteq> None"
  shows "\<exists>c p ice t. proved C cfg tr b c p ice \<and> m = iceMsg ice t \<and> (c = x \<or> bound b c x)"
proof (cases "b_dconn b x = None")
  case False
  have "to_daemon_ok C cfg tr b x m"
    using history_of [OF assms(1,2)] assms(3) False by (auto simp: history_inv_def message_ok_def)
  with assms(4) show ?thesis by (auto simp: to_daemon_ok_def)
next
  case True
  then have "to_client_ok C cfg tr b x m"
    using history_of [OF assms(1,2)] assms(3,5) by (auto simp: history_inv_def message_ok_def)
  with assms(4) show ?thesis by (auto simp: to_client_ok_def)
qed

theorem relay_costs_a_proof_witness:
  "\<exists>m c p ice t. (2, m) \<in> set (b_out bk_end) \<and> proved plain_crypto bk_cfg bk_session bk_end c p ice \<and>
     m = iceMsg ice t \<and> (c = 2 \<or> bound bk_end c 2)"
proof -
  obtain m where m: "(2, m) \<in> set (b_out bk_end)" "m_type m = TypeICEServers" using bk_wrote(2) by blast
  from relay_costs_a_proof [OF bk_trace bk_source m disjI2 [OF bk_roles(2)]] m(1) show ?thesis by blast
qed

end
