(* ===== verification/Rendezvous.thy ===== *)
theory Rendezvous
  imports Remote Broker_Props
begin

text \<open>
  The two ends of a rendezvous put together: the daemon of \<open>Remote\<close> on one connection of the
  broker of \<open>Broker\<close>.  What the daemon receives is what the broker has written to that
  connection; the sockets of everybody else are arbitrary.
\<close>

definition hears :: "broker \<Rightarrow> nat \<Rightarrow> daemon_event list \<Rightarrow> bool" where
  "hears b d es \<longleftrightarrow> list_all (\<lambda>e. case e of Recv env m \<Rightarrow> (d, m) \<in> set (b_out b) | _ \<Rightarrow> True) es"

lemma hears_in: "hears b d es \<Longrightarrow> Recv env m \<in> set es \<Longrightarrow> (d, m) \<in> set (b_out b)"
  by (auto simp: hears_def list_all_iff)

text \<open>Each kind of message the daemon meets, traced back to the client it comes from.\<close>

lemma heard_connect:
  assumes "to_daemon_ok C cfg tr b d m" "m_type m = TypeConnect"
  obtains c j where "LFirst c j \<in> set tr" "m_type j = TypeJoin" "bound b c d" "m = connectMsg j"
  using assms by (auto simp: to_daemon_ok_def)

lemma heard_proof:
  assumes "to_daemon_ok C cfg tr b d m" "m_type m = TypeProof"
  obtains c p ice where "proved C cfg tr b c p ice" "bound b c d" "m_sig m = m_sig p"
  using assms by (auto simp: to_daemon_ok_def proofMsg_def)

lemma heard_offer:
  assumes "to_daemon_ok C cfg tr b d m" "m_type m = TypeOffer"
  obtains c where "LRead c m \<in> set tr" "bound b c d"
  using assms by (auto simp: to_daemon_ok_def)


section \<open>A rendezvous\<close>

text \<open>Client 2 pairs with the secret \<open>S\<close> and signs both nonces with one key.\<close>

definition rv_join :: signal_msg where
  "rv_join = (bk_join bk_key)\<lparr>m_nonce := ''n'', m_pair := EnrollProof plain_crypto ''S'' bk_key ''n''\<rparr>"

definition rv_proof :: signal_msg where
  "rv_proof = bk_proof\<lparr>m_sig := b64_encode (bk_raw @ nonce_of ''r'')\<rparr>"

definition rv_session :: "label list" where
  "rv_session = bk_up @ [LStep 2, LFirst 2 rv_join, LSwap 2 bk_env, LStep 2, LStep 2] @
     [LRead 1 bk_challenge, LStep 1, LRead 2 rv_proof, LHandle 2 rv_proof bk_env, LStep 2, LStep 2,
      LRead 2 bk_offer, LHandle 2 bk_offer bk_env]"

definition rv_end :: broker where
  "rv_end = the (play plain_crypto bk_cfg rv_session (new_broker bk_turn))"

lemma same_key: "bk_key = demo_key" "bk_raw = demo_raw"
  by (simp_all add: bk_key_def demo_key_def bk_raw_def demo_raw_def)

lemma rv_end:
  "play plain_crypto bk_cfg rv_session (new_broker bk_turn) = Some rv_end"
  "(1, connectMsg rv_join) \<in> set (b_out rv_end)" "(1, proofMsg (m_sig rv_proof)) \<in> set (b_out rv_end)"
  "(1, bk_offer) \<in> set (b_out rv_end)" "b_pc rv_end 1 = DRead"
  by (simp_all add: rv_end_def rv_session_def rv_join_def rv_proof_def bk_simps)

lemma rv_hears: "hears rv_end 1 demo_history"
proof -
  have "connectMsg rv_join = (msg_of_type TypeConnect)\<lparr>m_pubkey := demo_key, m_nonce := ''n'',
        m_pair := EnrollProof plain_crypto ''S'' demo_key ''n''\<rparr>"
    "proofMsg (m_sig rv_proof) = (msg_of_type TypeProof)\<lparr>m_sig := b64_encode (demo_raw @ nonce_of ''r'')\<rparr>"
    by (simp_all add: connectMsg_def proofMsg_def rv_join_def rv_proof_def bk_join_def same_key)
  then show ?thesis
    using rv_end(2-4) by (simp add: hears_def demo_history_def demo_join_def demo_proof_def demo_offer_def bk_offer_def)
qed


end
