(* ===== verification/Broker_Wire.thy ===== *)
theory Broker_Wire
  imports Wire Broker
begin

text \<open>
  The broker on the wire.  Its steps carry decoded messages; here they come from frames, and
  what it writes goes out as frames.  The invariant is that every string the broker holds, and
  may yet write, is valid UTF-8, so that no string is repaired on the way to its reader.
\<close>

section \<open>What comes in\<close>

definition turn_fields :: "ice_server list fields" where
  "turn_fields = [(''iceServers'', field id id (into_slice (into_struct ice_fields) ice_zero))]"

definition turn_body :: "string \<Rightarrow> ice_server list option" where
  \<comment> \<open>\<open>turnFetcher.get\<close>: the decoded reply of the credential service\<close>
  "turn_body = decode_into (into_struct turn_fields) []"

definition on_wire :: "signal_msg \<Rightarrow> bool" where
  "on_wire m \<longleftrightarrow> (\<exists>frame. decode_Msg frame = Some m)"

definition decoded_reply :: "turn_response \<Rightarrow> bool" where
  "decoded_reply r =
     (case r of HttpReply _ _ (Some ss) \<Rightarrow> (\<exists>body. turn_body body = Some ss) | _ \<Rightarrow> True)"

definition decoded_label :: "label \<Rightarrow> bool" where
  "decoded_label l =
     (case l of
        LFirst _ m \<Rightarrow> on_wire m
      | LRead _ m \<Rightarrow> on_wire m
      | LHandle _ _ env \<Rightarrow> decoded_reply (bv_turn env)
      | _ \<Rightarrow> True)"

lemma keeps_turn: "keeps (list_all clean_ice) (into_struct turn_fields)"
proof (rule keeps_struct)
  show "list_all (\<lambda>(n, f). keeps (list_all clean_ice) f) turn_fields"
    unfolding turn_fields_def list.pred_inject prod.case
    by (intro conjI TrueI keeps_field [OF keeps_slice [OF keeps_ice]]) (simp_all add: clean_ice_def ice_zero_def)
qed

lemma turn_body_clean: "turn_body body = Some ss \<Longrightarrow> list_all clean_ice ss"
  using keeps_turn decoded_clean
  by (auto simp: turn_body_def decode_into_def bind_eq_Some_conv dest: keepsD)

lemma on_wire_clean: "on_wire m \<Longrightarrow> clean_msg m"
  by (auto simp: on_wire_def decoded_msg_clean)

section \<open>What the broker holds\<close>

fun clean_pc :: "pc \<Rightarrow> bool" where
  "clean_pc (DNotify did online) \<longleftrightarrow> valid_utf8 did"
| "clean_pc (DSend did online ws) \<longleftrightarrow> valid_utf8 did"
| "clean_pc (DRelay cl m) \<longleftrightarrow> clean_msg m"
| "clean_pc (CJoin d m) \<longleftrightarrow> clean_msg m"
| "clean_pc (CEvict d old m) \<longleftrightarrow> clean_msg m"
| "clean_pc (CConnect d m) \<longleftrightarrow> clean_msg m"
| "clean_pc (CHandle m) \<longleftrightarrow> clean_msg m"
| "clean_pc (CIce ice tr m) \<longleftrightarrow> list_all clean_ice ice \<and> clean_msg m"
| "clean_pc (CProof m) \<longleftrightarrow> clean_msg m"
| "clean_pc _ \<longleftrightarrow> True"

definition clean_turn :: "turnFetcher option \<Rightarrow> bool" where
  "clean_turn t = (case t of None \<Rightarrow> True | Some f \<Rightarrow> clean_ice (tf_cached f))"

definition clean_broker :: "broker \<Rightarrow> bool" where
  "clean_broker b \<longleftrightarrow>
     (\<forall>c. clean_pc (b_pc b c)) \<and>
     (\<forall>c dc. b_dconn b c = Some dc \<longrightarrow> valid_utf8 (dc_id dc)) \<and>
     (\<forall>c cc. b_cconn b c = Some cc \<longrightarrow> valid_utf8 (cc_bNonce cc)) \<and>
     clean_turn (b_turn b) \<and> (\<forall>cm \<in> set (b_out b). clean_msg (snd cm))"

named_theorems held

lemma clean_goto [held]: "clean_broker b \<Longrightarrow> clean_pc p \<Longrightarrow> clean_broker (goto c p b)"
  by (simp add: clean_broker_def)

lemma clean_put [held]: "clean_broker b \<Longrightarrow> clean_msg m \<Longrightarrow> clean_broker (put c m b)"
  by (auto simp: clean_broker_def)

lemma clean_tick [held]: "clean_broker b \<Longrightarrow> clean_broker (tick f b)"
  by (simp add: clean_broker_def)

lemma clean_set_client [held]: "clean_broker b \<Longrightarrow> clean_broker (set_client d x b)"
  by (auto simp: clean_broker_def set_client_def split: if_splits)

lemma clean_pcD: "clean_broker b \<Longrightarrow> b_pc b c = p \<Longrightarrow> clean_pc p"
  by (auto simp: clean_broker_def)

lemma clean_dconnD: "clean_broker b \<Longrightarrow> b_dconn b c = Some dc \<Longrightarrow> valid_utf8 (dc_id dc)"
  by (auto simp: clean_broker_def)

lemma clean_cconnD: "clean_broker b \<Longrightarrow> b_cconn b c = Some cc \<Longrightarrow> valid_utf8 (cc_bNonce cc)"
  by (auto simp: clean_broker_def)

section \<open>What the broker composes\<close>

lemma valid_utf8_cons_ascii [simp]: "(of_char c :: nat) < 128 \<Longrightarrow> valid_utf8 (c # s) \<longleftrightarrow> valid_utf8 s"
  by (simp add: valid_utf8_def)

lemma valid_em_dash: "valid_utf8 (em_dash @ s) \<longleftrightarrow> valid_utf8 s"
  by (simp add: em_dash_def valid_utf8_def utf8_repair.simps [of "CHR 0xE2 # _"] bytes_of_def is_cont_def)

lemma b64_char_ascii: "(of_char (b64_char i) :: nat) < 128"
  by (auto simp: b64_char_def)

lemma valid_b64: "valid_utf8 (b64_encode bs)"
  by (induction bs rule: b64_encode.induct) (simp_all add: b64_char_ascii Let_def)

lemma clean_msg_of_type [held]: "valid_utf8 t \<Longrightarrow> clean_msg (msg_of_type t)"
  by (simp add: clean_msg_def msg_of_type_def)

lemma clean_composed [held]:
  "valid_utf8 text \<Longrightarrow> clean_msg (errMsg text)" "clean_msg busyMsg" "clean_msg takenOverMsg"
  "clean_msg offlineMsg" "clean_msg peerLeftMsg"
  "clean_msg join \<Longrightarrow> clean_msg (connectMsg join)"
  "valid_utf8 n \<Longrightarrow> valid_utf8 bn \<Longrightarrow> clean_msg (challengeMsg n bn)"
  "list_all clean_ice ice \<Longrightarrow> clean_msg (iceMsg ice tr)"
  "valid_utf8 sig \<Longrightarrow> clean_msg (proofMsg sig)"
  "finite (dom st) \<Longrightarrow> \<forall>k \<in> dom st. valid_utf8 k \<Longrightarrow> clean_msg (presenceMsg st)"
  by (simp_all add: error_msg_def errMsg_def busyMsg_def takenOverMsg_def offlineMsg_def peerLeftMsg_def connectMsg_def
      challengeMsg_def iceMsg_def proofMsg_def presenceMsg_def valid_em_dash
      CodeBusy_def CodeTakenOver_def CodeOffline_def clean_msg_def msg_of_type_def)

lemma clean_delta [held]: "valid_utf8 did \<Longrightarrow> clean_msg (presenceMsg [did \<mapsto> online])"
  by (simp add: held)

lemma clean_member:
  "clean_msg m \<Longrightarrow> valid_utf8 (m_nonce m)" "clean_msg m \<Longrightarrow> valid_utf8 (m_sig m)"
  by (simp_all add: clean_msg_def)

lemma clean_snapshot: "list_all valid_utf8 ids \<Longrightarrow> clean_msg (presenceMsg (snapshot ids b))"
  by (intro held) (auto simp: snapshot_def dom_def list_all_iff split: if_splits)

lemma clean_relay_entry: "list_all clean_ice ss \<Longrightarrow> relay_entry ss = Some s \<Longrightarrow> clean_ice s"
  using relay_entry_Some by (fastforce simp: list_all_iff)

lemma clean_usable: "clean_ice s \<Longrightarrow> clean_ice (s\<lparr>urls := usableRelayURLs (urls s)\<rparr>)"
  by (simp add: clean_ice_def usableRelayURLs_def list_all_iff)

lemma clean_turn_get:
  assumes "clean_ice (tf_cached f)" "decoded_reply resp" "turn_get now now' resp f = (r, f')"
  shows "clean_ice (tf_cached f') \<and> (\<forall>s. r = Inr s \<longrightarrow> clean_ice s)"
  using assms
  by (auto simp: turn_get_def Let_def decoded_reply_def split: if_splits turn_response.splits option.splits
      intro!: clean_usable intro: clean_relay_entry [OF turn_body_clean])

lemma clean_iceServers:
  assumes "clean_broker b" "list_all valid_utf8 (cf_STUNURLs cfg)" "decoded_reply (bv_turn env)"
    "iceServers cfg env pub b = (ice, b')"
  shows "clean_broker b' \<and> list_all clean_ice ice"
proof -
  have out: "clean_ice \<lparr>urls = cf_STUNURLs cfg, username = [], credential = []\<rparr>"
    using assms(2) by (simp add: clean_ice_def)
  show ?thesis
  proof (cases "relay_granted cfg env pub b")
    case True
    then obtain f where f: "b_turn b = Some f" by (auto simp: relay_granted_def)
    obtain r f' where get: "turn_get (bv_now env) (bv_later env) (bv_turn env) f = (r, f')" by fastforce
    have "clean_ice (tf_cached f)" using assms(1) f by (simp add: clean_broker_def clean_turn_def)
    from clean_turn_get [OF this assms(3) get] have
      "clean_broker (b\<lparr>b_turn := Some f'\<rparr>)" "\<forall>s. r = Inr s \<longrightarrow> clean_ice s"
      using assms(1) by (simp_all add: clean_broker_def clean_turn_def)
    then show ?thesis
      using assms(4) True f get out by (auto simp: iceServers_def Let_def intro: held split: sum.splits)
  qed (use assms out in \<open>auto simp: iceServers_def Let_def\<close>)
qed

section \<open>The invariant\<close>

lemma clean_new_broker: "clean_broker (new_broker (map_option new_turnFetcher ttl))"
  by (simp add: clean_broker_def new_broker_def clean_turn_def new_turnFetcher_def no_server_def clean_ice_def
      split: option.split)

lemma clean_register:
  assumes "clean_broker b" "clean_msg m"
  shows "clean_broker (register_daemon c m b)"
proof -
  have "clean_broker (b\<lparr>b_daemons := AList.update (m_daemon m) c (b_daemons b),
      b_dconn := (b_dconn b)(c \<mapsto> \<lparr>dc_id = m_daemon m, dc_trickle = m_trickle m, dc_client = None\<rparr>)\<rparr>)"
    using assms by (auto simp: clean_broker_def clean_msg_def)
  then show ?thesis
    using assms by (auto simp: register_daemon_def clean_msg_def intro!: held)
qed

lemma clean_start_join: "clean_broker b \<Longrightarrow> clean_msg m \<Longrightarrow> clean_broker (start_join c m b)"
  by (auto simp: start_join_def Let_def intro!: held split: option.split)

lemma clean_add_watcher:
  assumes "clean_broker b" "clean_msg m"
  shows "clean_broker (add_watcher c m b)"
proof -
  have "clean_broker (b\<lparr>b_watchers := AList.update c (m_daemons m) (b_watchers b)\<rparr>)"
    using assms(1) by (simp add: clean_broker_def)
  then show ?thesis
    using assms(2) by (auto simp: add_watcher_def clean_msg_def intro!: held clean_snapshot)
qed

lemma clean_on_first: "clean_broker b \<Longrightarrow> clean_msg m \<Longrightarrow> clean_broker (on_first c m b)"
  by (auto simp: on_first_def clean_register clean_start_join clean_add_watcher intro!: held)

lemma clean_join_swap:
  assumes "clean_broker b" "clean_msg m"
  shows "clean_broker (join_swap env c d m b)"
proof -
  have "clean_broker (b\<lparr>b_cconn := (b_cconn b)(c \<mapsto> cl)\<rparr>)" if "valid_utf8 (cc_bNonce cl)" for cl
    using assms(1) that by (auto simp: clean_broker_def)
  then show ?thesis
    using assms by (auto simp: join_swap_def Let_def nonce_of_def valid_b64 intro!: held split: option.split)
qed

lemma clean_evict:
  assumes "clean_broker b" "clean_msg m"
  shows "clean_broker (evict c d old m b)"
proof -
  have closed: "clean_broker (x\<lparr>b_closed := os\<rparr>)" if "clean_broker x" for x os
    using that by (simp add: clean_broker_def)
  then show ?thesis
    using assms by (auto simp: evict_def Let_def intro!: held closed split: option.split)
qed

lemma clean_relay:
  assumes "clean_broker b" "clean_msg m" "relay_to_client cl m b = Some x"
  shows "clean_msg x"
  using assms
  by (auto simp: relay_to_client_def clean_cconnD clean_member intro!: held split: if_splits option.splits)

lemma clean_handle:
  assumes "clean_broker b" "clean_msg m" "list_all valid_utf8 (cf_STUNURLs cfg)" "decoded_reply (bv_turn env)"
  shows "clean_broker (client_handle C cfg env c m b)"
proof (cases "b_cconn b c")
  case (Some cc)
  let ?b = "tick (\<lambda>n. n\<lparr>n_proofsOK := Suc (n_proofsOK n)\<rparr>) b"
  obtain ice b' where ice: "iceServers cfg env (cc_pubKey cc) ?b = (ice, b')" by fastforce
  have "clean_broker b'" "list_all clean_ice ice"
    using clean_iceServers [OF clean_tick [OF assms(1)] assms(3,4) ice] by simp_all
  then show ?thesis
    using assms(1,2) Some ice by (auto simp: client_handle_def Let_def intro!: held)
qed (use assms in \<open>simp add: client_handle_def\<close>)

lemma clean_step:
  assumes "broker_step C cfg l b b'" "clean_broker b" "list_all valid_utf8 (cf_STUNURLs cfg)" "decoded_label l"
  shows "clean_broker b'"
  using assms
proof cases
  case (drelay c cl m)
  then show ?thesis
    using assms(2) clean_pcD [OF assms(2) drelay(3)] clean_relay [OF assms(2)]
    by (auto simp: daemon_relay_def intro!: held split: option.split)
next
  case (cice c ice tr m)
  then show ?thesis
    using assms(2) clean_pcD [OF assms(2) cice(3)]
    by (auto simp: send_ice_def intro!: held split: option.split)
next
  case (cproof c m)
  then show ?thesis
    using assms(2) clean_pcD [OF assms(2) cproof(3)]
    by (auto simp: send_proof_def clean_member intro!: held split: option.split)
next
  case (connect c d join)
  then show ?thesis
    using assms(2) clean_pcD [OF assms(2) connect(3)] by (auto simp: send_connect_def intro!: held)
next
  case (notify c did online w ws)
  then show ?thesis
    using assms(2) clean_pcD [OF assms(2) notify(3)] by (auto simp: notify_send_def intro!: held)
next
  case (wgone c)
  moreover have "clean_broker (b\<lparr>b_watchers := x\<rparr>)" for x
    using assms(2) by (simp add: clean_broker_def)
  ultimately show ?thesis by (simp add: drop_watcher_def clean_goto)
next
  case (ddrop c)
  moreover have "clean_broker (b\<lparr>b_daemons := x\<rparr>)" for x
    using assms(2) by (simp add: clean_broker_def)
  ultimately show ?thesis
    using assms(2) by (auto simp: daemon_drop_def clean_dconnD intro!: held split: option.split)
next
  case (swap c d join env)
  then show ?thesis using assms(2) clean_pcD [OF assms(2) swap(3)] by (simp add: clean_join_swap)
next
  case (evicts c d old join)
  then show ?thesis using assms(2) clean_pcD [OF assms(2) evicts(3)] by (simp add: clean_evict)
next
  case (chandle c m env)
  then show ?thesis
    using assms(2-4) clean_pcD [OF assms(2) chandle(3)] by (simp add: decoded_label_def clean_handle)
qed (use assms(2-4) clean_pcD [OF assms(2)] in
  \<open>auto simp: decoded_label_def on_wire_clean clean_on_first
      notify_collect_def notify_done_def daemon_read_def daemon_left_def daemon_bye_def client_read_def
      client_leave_def client_bye_def dest: clean_pcD intro!: held split: option.split\<close>)

lemma clean_trace:
  assumes "broker_trace C cfg (map_option new_turnFetcher ttl) tr b" "list_all valid_utf8 (cf_STUNURLs cfg)"
    "list_all decoded_label tr"
  shows "clean_broker b"
  using assms(1,3)
proof induction
  case start
  show ?case by (rule clean_new_broker)
next
  case (step tr b l b')
  then show ?case using clean_step [OF step(2) _ assms(2)] by simp
qed

section \<open>What goes out is read as it was meant\<close>

text \<open>
  C40: Every frame the broker writes is read as the message it stands for.  If what the broker
  reads are frames (whatever they hold: unknown or repeated names, names in another case, broken
  UTF-8, escapes) and its STUN URLs are valid UTF-8, then each message it ever writes, its own or
  a relayed one, with daemon ids, nonces and relay credentials, is decoded by the receiving peer
  to exactly that message; in particular a relayed SDP still is the text its signature covers.
\<close>

theorem broker_frames_read_back:
  assumes "broker_trace C cfg (map_option new_turnFetcher ttl) tr b" "list_all valid_utf8 (cf_STUNURLs cfg)"
    "list_all decoded_label tr" "(c, m) \<in> set (b_out b)"
  shows "decode_Msg (encode_Msg m) = Some m"
proof -
  have "clean_broker b" using clean_trace assms(1-3) .
  then have "clean_msg m" using assms(4) by (auto simp: clean_broker_def)
  then show ?thesis by (rule msg_reads_back)
qed

definition watch_msg :: signal_msg where
  "watch_msg = (msg_of_type TypeWatch)\<lparr>m_daemons := [''d'']\<rparr>"

definition open_config :: config where
  "open_config = \<lparr>cf_STUNURLs = [''stun:s''], cf_TURNOpen = True, cf_hasStore = False\<rparr>"

lemma watch_on_wire: "on_wire watch_msg"
  unfolding on_wire_def
  by (intro exI [of _ "encode_Msg watch_msg"] msg_reads_back) 
    (simp add: watch_msg_def clean_msg_def msg_of_type_def TypeWatch_def)

theorem broker_frames_read_back_witness:
  "\<exists>b. broker_trace plain_crypto open_config None [LStep 1, LFirst 1 watch_msg] b \<and>
     b_out b = [(1, presenceMsg [''d'' \<mapsto> False])] \<and>
     decode_Msg (encode_Msg (presenceMsg [''d'' \<mapsto> False])) = Some (presenceMsg [''d'' \<mapsto> False])"
proof -
  let ?b = "goto 1 Accepted (new_broker None)"
  let ?b' = "on_first 1 watch_msg ?b"
  have "broker_trace plain_crypto open_config None ([] @ [LStep 1]) ?b"
    by (intro broker_trace.step [OF broker_trace.start] broker_step.accept) (simp add: new_broker_def)
  then have "broker_trace plain_crypto open_config None (([] @ [LStep 1]) @ [LFirst 1 watch_msg]) ?b'"
    by (rule broker_trace.step) (simp add: broker_step.first)
  then have tr: "broker_trace plain_crypto open_config (map_option new_turnFetcher None) [LStep 1, LFirst 1 watch_msg] ?b'"
    by simp
  have "snapshot [''d''] ?b = [''d'' \<mapsto> False]"
    by (auto simp: snapshot_def new_broker_def fun_eq_iff)
  then have out: "b_out ?b' = [(1, presenceMsg [''d'' \<mapsto> False])]"
    by (simp add: on_first_def watch_msg_def TypeRegister_def TypeJoin_def TypeWatch_def add_watcher_def
        msg_of_type_def) (simp add: new_broker_def)
  have "decode_Msg (encode_Msg (presenceMsg [''d'' \<mapsto> False])) = Some (presenceMsg [''d'' \<mapsto> False])"
    using broker_frames_read_back [OF tr, of 1] out
    by (simp add: open_config_def decoded_label_def watch_on_wire)
  then show ?thesis using tr out by auto
qed

end
