(* ===== verification/Rendezvous_Wire.thy ===== *)
theory Rendezvous_Wire
  imports Rendezvous Broker_Wire
begin

text \<open>
  Daemon, broker and client over frames: what the daemon reads of the broker's frames is what
  the broker wrote, and what the daemon signs reaches the client as it was signed.
\<close>

section \<open>The daemon reads frames\<close>

text \<open>
  One turn of \<open>serveOnce\<close>'s loop: a frame is a message to serve, or an error that ends the
  connection.
\<close>

definition read_frame :: "serve_env \<times> string \<Rightarrow> daemon_event" where
  "read_frame ef = (case decode_Msg (snd ef) of None \<Rightarrow> Reconnect | Some m \<Rightarrow> Recv (fst ef) m)"

definition written_to :: "nat \<Rightarrow> broker \<Rightarrow> string \<Rightarrow> bool" where
  "written_to d b f \<longleftrightarrow> f \<in> encode_Msg ` snd ` {cm \<in> set (b_out b). fst cm = d}"

text \<open>
  The daemon hears the broker: of frames the broker wrote to it, each is read, none ends the
  connection, and each is a message the broker meant for it.  So what \<open>Rendezvous\<close> shows of the
  messages holds of the frames.
\<close>

theorem daemon_reads_the_broker:
  assumes "broker_trace C cfg (map_option new_turnFetcher ttl) tr b" "list_all valid_utf8 (cf_STUNURLs cfg)"
    and "list_all decoded_label tr" "list_all (\<lambda>ef. written_to d b (snd ef)) fs"
  shows "hears b d (map read_frame fs) \<and> Reconnect \<notin> set (map read_frame fs)"
proof -
  have b: "clean_broker b" using clean_trace assms(1-3) .
  have "\<exists>m. (d, m) \<in> set (b_out b) \<and> read_frame (env, f) = Recv env m" if "(env, f) \<in> set fs" for env f
  proof -
    have "written_to d b f" using that assms(4) by (auto simp: list_all_iff)
    then obtain m where m: "(d, m) \<in> set (b_out b)" "f = encode_Msg m" by (auto simp: written_to_def)
    then have "clean_msg m" using b by (auto simp: clean_broker_def)
    then show ?thesis using m msg_reads_back [of m] by (intro exI [of _ m]) (simp add: read_frame_def)
  qed
  then show ?thesis by (fastforce simp: hears_def list_all_iff)
qed

section \<open>The daemon's messages through the broker\<close>

text \<open>A message of the daemon as the client has it after two frames and the broker's relaying.\<close>

definition through_broker :: "nat \<Rightarrow> broker \<Rightarrow> signal_msg \<Rightarrow> signal_msg option" where
  "through_broker cl b m =
     Option.bind (decode_Msg (encode_Msg m)) (\<lambda>a.
     Option.bind (relay_to_client cl a b) (\<lambda>x. decode_Msg (encode_Msg x)))"

lemma through_unchanged:
  assumes "clean_msg m" "relay_to_client cl m b = Some m"
  shows "through_broker cl b m = Some m"
  using assms by (simp add: through_broker_def msg_reads_back)

lemma clean_Sign: "valid_utf8 (Sign C priv m)"
  by (simp add: Sign_def valid_b64)

text \<open>The answer arrives with the very text its signature covers.\<close>

theorem answer_crosses_the_broker:
  assumes "valid_utf8 sdp"
  shows "through_broker cl b (signedAnswer C priv sdp) = Some (signedAnswer C priv sdp)"
  by (rule through_unchanged)
    (use assms in \<open>simp_all add: signedAnswer_def clean_msg_def msg_of_type_def clean_Sign relay_to_client_def\<close>)

text \<open>
  A candidate arrives as it was gathered, its line index also when it is 0; an empty media
  identification arrives as none.
\<close>

theorem candidate_crosses_the_broker:
  assumes "valid_utf8 (ci_candidate i)" "\<forall>mid. ci_sdpMid i = Some mid \<longrightarrow> valid_utf8 mid \<and> mid \<noteq> []"
  shows "map_option candidate_init_of (through_broker cl b (candidateMsg (Some i))) = Some i"
proof -
  have "clean_msg (candidateMsg (Some i))"
    using assms by (cases "ci_sdpMid i") (simp_all add: candidateMsg_def clean_msg_def msg_of_type_def)
  moreover have "relay_to_client cl (candidateMsg (Some i)) b = Some (candidateMsg (Some i))"
    by (cases "ci_sdpMid i") (simp_all add: candidateMsg_def msg_of_type_def relay_to_client_def)
  ultimately have "through_broker cl b (candidateMsg (Some i)) = Some (candidateMsg (Some i))"
    by (rule through_unchanged)
  then show ?thesis
    using assms(2) by (cases "ci_sdpMid i") (simp_all add: candidateMsg_def candidate_init_of_def msg_of_type_def)
qed

end
