(* ===== verification/Feeds.thy ===== *)
theory Feeds
  imports Sim_Backend Browser
begin

text \<open>
  What the two backends do besides attaching: the \<open>simctl\<close> client's own commands
  (\<open>companion.go\<close>), locating the helper and ending a feed (\<open>control.go\<close>, \<open>sim.go\<close>), and the
  demo device's screenshots on their way to the encoder (\<open>browser.go\<close>, \<open>ffmpeg.go\<close>).
\<close>

section \<open>The \<open>simctl\<close> client\<close>

definition DefaultSimctl :: string where "DefaultSimctl = ''xcrun''"

record Client =
  cl_Simctl :: string

definition new_Client :: Client where "new_Client = \<lparr>cl_Simctl = DefaultSimctl\<rparr>"

definition simctl :: "Client \<Rightarrow> string" where
  "simctl c = (if cl_Simctl c = [] then DefaultSimctl else cl_Simctl c)"

text \<open>The command line \<open>execSimctl\<close> runs.\<close>

definition execSimctl_argv :: "Client \<Rightarrow> string list \<Rightarrow> string list" where
  "execSimctl_argv c args = simctl c # ''simctl'' # args"

definition list_args :: "string list" where "list_args = [''list'', ''-j'', ''devices'', ''available'']"

text \<open>\<open>unmarshal\<close> is the JSON decoder: an error, or the devices in the order the map is iterated.\<close>

definition simctl_List ::
  "(string \<Rightarrow> string + (string \<times> simctlDevice list) list) \<Rightarrow> cmd_result \<Rightarrow> string + Simulator list" where
  "simctl_List unmarshal r =
     (case runSimctl list_args r of
        Inl e \<Rightarrow> Inl e
      | Inr out \<Rightarrow>
          (case unmarshal out of
             Inl e \<Rightarrow> Inl (''parsing simctl device list: '' @ e)
           | Inr devices \<Rightarrow>
               (case parseSimctlDevices (Some devices) of
                  None \<Rightarrow> Inr [] | Some sims \<Rightarrow> Inr sims)))"

text \<open>
  \<open>CheckToolchain\<close>: whether \<open>simctl\<close> was found, and what \<open>xcode-select -p\<close> printed, if it ran.
\<close>

definition toolchain_hint :: "string option \<Rightarrow> string" where
  "toolchain_hint selected =
     (case selected of
        None \<Rightarrow> []
      | Some out \<Rightarrow>
          (let p = trim_space out in
           if contains ''CommandLineTools'' p
           then nl @ ''(xcode-select points at '' @ p @ em_dash @
             ''the Command Line Tools, which don't include simctl.)''
           else []))"

definition CheckToolchain :: "bool \<Rightarrow> string option \<Rightarrow> string option" where
  "CheckToolchain found selected =
     (if found then None
      else Some (''iOS Simulator tools not found: xcrun can't locate simctl.'' @ toolchain_hint selected @ nl @ nl @
        ''simbeam needs a full Xcode, not just the Command Line Tools. To fix:'' @ nl @
        ''  1. Install Xcode (App Store, or https://developer.apple.com/xcode/).'' @ nl @
        ''  2. Point the toolchain at it:'' @ nl @
        ''       sudo xcode-select -s /Applications/Xcode.app/Contents/Developer'' @ nl @
        ''  3. Accept the license once:'' @ nl @
        ''       sudo xcodebuild -license accept''))"

text \<open>
  A list is an error exactly when the command or the decoder fails, and otherwise only holds
  available devices.
\<close>

lemma simctl_List_outcome:
  "(\<exists>e. simctl_List unmarshal r = Inl e) \<longleftrightarrow>
     cmd_err r \<noteq> None \<or> (\<exists>e. unmarshal (cmd_stdout r) = Inl e)"
  by (auto simp: simctl_List_def runSimctl_def parseSimctlDevices_def split: option.splits sum.splits)

section \<open>The helper and its feed\<close>

definition ResolveControl :: "string + string \<Rightarrow> string + string" where
  "ResolveControl look =
     (case look of
        Inl e \<Rightarrow> Inl (''simbeam-control not found in PATH (install with `brew install kei-sidorov/simbeam/simbeam-control`): '' @ e)
      | Inr path \<Rightarrow> Inr path)"

definition control_screen :: "control \<Rightarrow> nat \<times> nat" where
  "control_screen c = (pixelW (ctl_dims c), pixelH (ctl_dims c))"

text \<open>A feed of the simulator backend is the helper and, for screenshots, \<open>simctl\<close> on the same device.\<close>

record feed =
  fd_ctl :: control
  fd_udid :: string
  fd_comp :: Client

definition sim_Attach :: "Client \<Rightarrow> string \<Rightarrow> go_error + control \<Rightarrow> go_error + feed" where
  "sim_Attach cl udid started =
     (case started of
        Inl e \<Rightarrow> Inl e
      | Inr ctl \<Rightarrow> Inr \<lparr>fd_ctl = ctl, fd_udid = udid, fd_comp = cl\<rparr>)"

definition sim_Screen :: "feed \<Rightarrow> nat \<times> nat" where
  "sim_Screen f = control_screen (fd_ctl f)"

definition sim_Screenshot :: "feed \<Rightarrow> string option \<Rightarrow> string \<Rightarrow> cmd_result \<Rightarrow> string + string \<Rightarrow> string + string" where
  "sim_Screenshot f tmp_err path r readback = simctl_Screenshot (fd_udid f) tmp_err path r readback"

text \<open>
  \<open>Close\<close>: the steps in their order; the process is killed only if it was started.  The pipe
  readers finish before the process is reaped, because reaping closes their pipes.
\<close>

datatype close_step = SignalClosed | CloseStdin | KillProcess | WaitReaders | WaitProcess

definition control_Close :: "bool \<Rightarrow> bool \<Rightarrow> control \<Rightarrow> close_step list \<times> control" where
  "control_Close signalled started c =
     ((if signalled then [] else [SignalClosed]) @ [CloseStdin] @ (if started then [KillProcess] else []) @
        [WaitReaders, WaitProcess],
      closeStdin c)"

text \<open>A closed feed takes no more input: nothing reaches the helper after \<open>Close\<close>.\<close>

lemma closed_feed_is_silent:
  "ctl_written (fold (writeCmd jf) cs (snd (control_Close signalled started c))) = ctl_written c"
proof -
  have "\<not> ctl_open d \<Longrightarrow> fold (writeCmd jf) cs d = d" for d
    by (induction cs arbitrary: d) (simp_all add: writeCmd_def)
  from this [of "closeStdin c"] show ?thesis by (simp add: control_Close_def closeStdin_def)
qed

definition sim_Close :: "bool \<Rightarrow> bool \<Rightarrow> feed \<Rightarrow> close_step list \<times> feed" where
  "sim_Close signalled started f =
     map_prod id (\<lambda>c. f\<lparr>fd_ctl := c\<rparr>) (control_Close signalled started (fd_ctl f))"

section \<open>The demo device\<close>

text \<open>\<open>Screenshot\<close>: the capture's error, and that of the caller's context if it is done.\<close>

definition browser_Screenshot :: "go_error + string \<Rightarrow> go_error option \<Rightarrow> go_error + string" where
  "browser_Screenshot capture ctxErr =
     (case capture of
        Inr buf \<Rightarrow> Inr buf
      | Inl e \<Rightarrow> Inl (Wrapped ''demo screenshot'' (case ctxErr of Some c \<Rightarrow> c | None \<Rightarrow> e)))"

text \<open>
  The poll loop: one tick is a capture that worked, one that failed, or the tab's end (met
  while waiting, capturing or handing the picture on).
\<close>

datatype poll_tick = Captured string | CaptureFailed | TabDone

fun poll_shots :: "poll_tick list \<Rightarrow> string list" where
  "poll_shots [] = []"
| "poll_shots (Captured buf # ts) = buf # poll_shots ts"
| "poll_shots (CaptureFailed # ts) = poll_shots ts"
| "poll_shots (TabDone # ts) = []"

text \<open>
  The encoder's feeder: it takes pictures until the context is done (\<open>FeedCancelled\<close>), the
  channel is closed, or ffmpeg's input breaks (\<open>FeedBroken\<close>, with what of the picture was
  still written).  The result is what ffmpeg has read and \<open>framesIn\<close>.
\<close>

datatype feed_event = FeedPng string | FeedBroken string | FeedCancelled | FeedClosed

fun encode_feed :: "feed_event list \<Rightarrow> string \<times> nat" where
  "encode_feed [] = ([], 0)"
| "encode_feed (FeedPng p # es) = (let (s, n) = encode_feed es in (p @ s, Suc n))"
| "encode_feed (FeedBroken p # es) = (p, 0)"
| "encode_feed (FeedCancelled # es) = ([], 0)"
| "encode_feed (FeedClosed # es) = ([], 0)"

text \<open>The feeder offered the pictures of the poll loop, cut off after \<open>n\<close> of them.\<close>

definition demo_pipeline :: "poll_tick list \<Rightarrow> nat \<Rightarrow> feed_event \<Rightarrow> string \<times> nat" where
  "demo_pipeline ts n stop = encode_feed (map FeedPng (take n (poll_shots ts)) @ [stop])"

lemma encode_feed_png: "encode_feed (map FeedPng ps @ es) =
    (concat ps @ fst (encode_feed es), length ps + snd (encode_feed es))"
  by (induction ps) (simp_all add: case_prod_unfold Let_def)

lemma poll_shots_captured: "poll_shots ts =
    map (\<lambda>t. case t of Captured b \<Rightarrow> b | _ \<Rightarrow> []) (filter (\<lambda>t. t \<noteq> CaptureFailed) (takeWhile (\<lambda>t. t \<noteq> TabDone) ts))"
  by (induction ts rule: poll_shots.induct) simp_all

text \<open>
  ffmpeg reads whole pictures in the order they were captured, those that failed left out,
  and \<open>framesIn\<close> counts them.
\<close>

lemma demo_pipeline_whole:
  "stop = FeedCancelled \<or> stop = FeedClosed \<Longrightarrow>
     demo_pipeline ts n stop = (concat (take n (poll_shots ts)), min (length (poll_shots ts)) n)"
  by (auto simp: demo_pipeline_def encode_feed_png)

end
