(* ===== verification/Keepalive.thy ===== *)
theory Keepalive
  imports Prelude
begin

text \<open>
  \<open>internal/signalbroker/presence.go\<close>, \<open>keepalive\<close>: how the broker finds out that a peer is
  gone without a close.  The link starts with a read deadline; a pong, handled by the read
  loop, moves it, and a read that is still waiting at the deadline fails, which ends the loop.
  The pinger runs beside it until it is stopped or a ping cannot be written.
\<close>

section \<open>The link\<close>

definition presencePingInterval :: duration where "presencePingInterval = 10 * second"
definition presenceReadTimeout :: duration where "presenceReadTimeout = 25 * second"
definition clientPingInterval :: duration where "clientPingInterval = 5 * second"

record link =
  kl_deadline :: gotime
  kl_open :: bool             \<comment> \<open>the read loop runs\<close>
  kl_pinging :: bool
  kl_pings :: "gotime list"   \<comment> \<open>when pings went out\<close>

text \<open>
  \<open>Tick\<close>: the ticker fires, and the ping is written or not.  \<open>Pong\<close>: the read loop meets a
  pong.  \<open>Reading\<close>: the read loop gets a message, or is waiting for one, at that time.
  \<open>StopPinger\<close>: the returned function is called.
\<close>

datatype ka_event = Tick gotime bool | Pong gotime | Reading gotime | StopPinger

definition keepalive :: "gotime \<Rightarrow> link" where
  "keepalive now = \<lparr>kl_deadline = now + presenceReadTimeout, kl_open = True, kl_pinging = True, kl_pings = []\<rparr>"

fun ka_step :: "ka_event \<Rightarrow> link \<Rightarrow> link" where
  "ka_step (Tick now ok) l =
     (if kl_pinging l then l\<lparr>kl_pings := kl_pings l @ [now], kl_pinging := ok\<rparr> else l)"
| "ka_step (Pong now) l =
     (if \<not> kl_open l then l
      else if now > kl_deadline l then l\<lparr>kl_open := False\<rparr>
      else l\<lparr>kl_deadline := now + presenceReadTimeout\<rparr>)"
| "ka_step (Reading now) l = (if now > kl_deadline l then l\<lparr>kl_open := False\<rparr> else l)"
| "ka_step StopPinger l = l\<lparr>kl_pinging := False\<rparr>"

definition ka_run :: "ka_event list \<Rightarrow> link \<Rightarrow> link" where
  "ka_run es l = fold ka_step es l"

section \<open>When a link stays open\<close>

definition pongs :: "ka_event list \<Rightarrow> gotime list" where
  "pongs es = concat (map (\<lambda>e. case e of Pong t \<Rightarrow> [t] | _ \<Rightarrow> []) es)"

text \<open>The times at which the read loop does something.\<close>

definition read_times :: "ka_event list \<Rightarrow> gotime list" where
  "read_times es = concat (map (\<lambda>e. case e of Pong t \<Rightarrow> [t] | Reading t \<Rightarrow> [t] | _ \<Rightarrow> []) es)"

lemma pongs_snoc: "pongs (es @ [e]) = pongs es @ (case e of Pong t \<Rightarrow> [t] | _ \<Rightarrow> [])"
  by (simp add: pongs_def)

lemma read_times_snoc:
  "read_times (es @ [e]) = read_times es @ (case e of Pong t \<Rightarrow> [t] | Reading t \<Rightarrow> [t] | _ \<Rightarrow> [])"
  by (simp add: read_times_def)

lemma pongs_read: "set (pongs es) \<subseteq> set (read_times es)"
  by (auto simp: pongs_def read_times_def split: ka_event.splits)

lemma ka_run_snoc: "ka_run (es @ [e]) l = ka_step e (ka_run es l)"
  by (simp add: ka_run_def)

lemma closed_stays: "\<not> kl_open l \<Longrightarrow> \<not> kl_open (ka_step e l)"
  by (cases e) simp_all

text \<open>While the loop runs the deadline is the last pong's, or the start's.\<close>

lemma ka_deadline:
  "kl_open (ka_run es (keepalive t0)) \<Longrightarrow>
     kl_deadline (ka_run es (keepalive t0)) = last (t0 # pongs es) + presenceReadTimeout"
proof (induction es rule: rev_induct)
  case Nil
  show ?case by (simp add: ka_run_def keepalive_def pongs_def)
next
  case (snoc e es)
  have "kl_open (ka_run es (keepalive t0))" using snoc.prems closed_stays by (auto simp: ka_run_snoc)
  then show ?case using snoc by (cases e) (auto simp: ka_run_snoc pongs_snoc split: if_splits)
qed

text \<open>
  The link is open exactly when no read was attempted more than the timeout after the pong
  before it.
\<close>

fun gaps_ok :: "gotime \<Rightarrow> ka_event list \<Rightarrow> bool" where
  "gaps_ok s [] \<longleftrightarrow> True"
| "gaps_ok s (Pong t # es) \<longleftrightarrow> t \<le> s + presenceReadTimeout \<and> gaps_ok t es"
| "gaps_ok s (Reading t # es) \<longleftrightarrow> t \<le> s + presenceReadTimeout \<and> gaps_ok s es"
| "gaps_ok s (_ # es) \<longleftrightarrow> gaps_ok s es"

lemma closed_run: "\<not> kl_open l \<Longrightarrow> \<not> kl_open (ka_run es l)"
  by (induction es arbitrary: l) (auto simp: ka_run_def closed_stays)

lemma open_iff_gaps:
  "kl_open l \<Longrightarrow> kl_deadline l = s + presenceReadTimeout \<Longrightarrow> kl_open (ka_run es l) \<longleftrightarrow> gaps_ok s es"
proof (induction es arbitrary: l s)
  case Nil
  then show ?case by (simp add: ka_run_def)
next
  case (Cons e es)
  have step: "ka_run (e # es) l = ka_run es (ka_step e l)" by (simp add: ka_run_def)
  show ?case
  proof (cases e)
    case (Pong t)
    show ?thesis
      unfolding step using Cons.prems Cons.IH [of "ka_step e l" t] closed_run [of "ka_step e l" es] Pong
      by (cases "t \<le> s + presenceReadTimeout") simp_all
  next
    case (Reading t)
    show ?thesis
      unfolding step using Cons.prems Cons.IH [of "ka_step e l" s] closed_run [of "ka_step e l" es] Reading
      by (cases "t \<le> s + presenceReadTimeout") simp_all
  next
    case (Tick t ok)
    then show ?thesis unfolding step using Cons.prems Cons.IH [of "ka_step e l" s] by simp
  next
    case StopPinger
    then show ?thesis unfolding step using Cons.prems Cons.IH [of "ka_step e l" s] by simp
  qed
qed

text \<open>
  A peer that answers within \<open>d\<close>: when the read loop does something at a time by which the
  \<open>k\<close>-th ping is \<open>d\<close> old, it has met a pong no older than that ping.
\<close>

definition answers_within :: "duration \<Rightarrow> duration \<Rightarrow> gotime \<Rightarrow> ka_event list \<Rightarrow> bool" where
  "answers_within interval d t0 es \<longleftrightarrow>
     (\<forall>n < length es. \<forall>k \<ge> 1. \<forall>t \<in> set (read_times [es ! n]).
        t0 + k * interval + d \<le> t \<longrightarrow> (\<exists>p \<in> set (pongs (take n es)). t0 + k * interval \<le> p))"

lemma answered_gap:
  assumes "0 < interval" "interval + d \<le> presenceReadTimeout" "0 \<le> d" "sorted (t0 # pongs es)"
    and ans: "\<forall>k \<ge> 1. t0 + k * interval + d \<le> t \<longrightarrow> (\<exists>p \<in> set (pongs es). t0 + k * interval \<le> p)"
  shows "t \<le> last (t0 # pongs es) + presenceReadTimeout"
proof -
  let ?k = "(t - t0 - d) div interval"
  let ?m = "last (t0 # pongs es)"
  have k: "t0 + ?k * interval + d \<le> t" "t < t0 + ?k * interval + interval + d"
    using div_mult_mod_eq [of "t - t0 - d" interval] pos_mod_bound [OF assms(1), of "t - t0 - d"]
      pos_mod_sign [OF assms(1), of "t - t0 - d"] by linarith+
  have mono: "p \<le> ?m" if "p \<in> set (t0 # pongs es)" for p
  proof -
    obtain i where i: "i < length (t0 # pongs es)" "p = (t0 # pongs es) ! i"
      using \<open>p \<in> set (t0 # pongs es)\<close> by (metis in_set_conv_nth)
    have "?m = (t0 # pongs es) ! (length (t0 # pongs es) - 1)" by (rule last_conv_nth) simp
    then show ?thesis using i sorted_nth_mono [OF assms(4), of i "length (t0 # pongs es) - 1"] by auto
  qed
  have "t0 + ?k * interval \<le> ?m"
  proof (cases "?k \<ge> 1")
    case True
    then obtain p where "p \<in> set (pongs es)" "t0 + ?k * interval \<le> p" using ans k(1) by blast
    with mono [of p] show ?thesis by simp
  next
    case False
    then have "?k * interval \<le> 0" using assms(1) by (simp add: mult_nonpos_nonneg)
    with mono [of t0] show ?thesis by simp
  qed
  with k(2) assms(2) show ?thesis by linarith
qed

lemma answers_within_butlast:
  "answers_within i d t0 (es @ [e]) \<Longrightarrow> answers_within i d t0 es"
  unfolding answers_within_def by (auto simp: nth_append)

lemma sorted_pongs: "sorted (t0 # read_times es) \<Longrightarrow> sorted (t0 # pongs es)"
proof -
  have "sorted (read_times es) \<Longrightarrow> sorted (pongs es)"
  proof (induction es rule: rev_induct)
    case (snoc e es)
    then show ?case using pongs_read [of es] by (cases e) (auto simp: pongs_snoc read_times_snoc sorted_append)
  qed (simp add: pongs_def)
  then show "sorted (t0 # read_times es) \<Longrightarrow> sorted (t0 # pongs es)" using pongs_read [of es] by auto
qed

lemma answering_open:
  assumes "0 < interval" "interval \<le> presenceReadTimeout" "sorted (t0 # read_times es)"
    and "answers_within interval (presenceReadTimeout - interval) t0 es"
  shows "kl_open (ka_run es (keepalive t0))"
  using assms(3,4)
proof (induction es rule: rev_induct)
  case Nil
  show ?case by (simp add: ka_run_def keepalive_def)
next
  case (snoc e es)
  have srt: "sorted (t0 # read_times es)" using snoc.prems(1) by (simp add: read_times_snoc sorted_append)
  have op: "kl_open (ka_run es (keepalive t0))" using snoc.IH [OF srt answers_within_butlast [OF snoc.prems(2)]] .
  have "t \<le> last (t0 # pongs es) + presenceReadTimeout" if "t \<in> set (read_times [e])" for t
  proof (rule answered_gap [OF assms(1) _ _ sorted_pongs [OF srt]])
    show "\<forall>k\<ge>1. t0 + k * interval + (presenceReadTimeout - interval) \<le> t \<longrightarrow>
        (\<exists>p \<in> set (pongs es). t0 + k * interval \<le> p)"
    proof (intro allI impI)
      fix k assume "1 \<le> k" "t0 + k * interval + (presenceReadTimeout - interval) \<le> t"
      moreover have "t \<in> set (read_times [(es @ [e]) ! length es])" using that by simp
      ultimately have "\<exists>p \<in> set (pongs (take (length es) (es @ [e]))). t0 + k * interval \<le> p"
        using snoc.prems(2) unfolding answers_within_def by (metis length_append_singleton lessI)
      then show "\<exists>p \<in> set (pongs es). t0 + k * interval \<le> p" by simp
    qed
  qed (use assms(2) in simp_all)
  then show ?case
    using op ka_deadline [OF op] by (cases e) (auto simp: ka_run_snoc read_times_def)
qed



end
