(* ===== verification/Stored_Rows.thy ===== *)
theory Stored_Rows
  imports Subscription_Api
begin

text \<open>
  What the comment of \<open>Upsert\<close> asks of its caller: times as RFC 3339 text in UTC, so that
  comparing the text compares the instants.  The subscription handler keeps that promise, and
  the rows of the table are well typed.
\<close>

definition utc_text :: "string \<Rightarrow> bool" where
  "utc_text s \<longleftrightarrow> (case parse_rfc3339 s of None \<Rightarrow> False | Some t \<Rightarrow> format_rfc3339 t = s)"

lemma format_seconds: "format_rfc3339 (t div second * second) = format_rfc3339 t"
  by (simp add: format_rfc3339_def second_def)

lemma utc_text_format: "utc_text (format_rfc3339 t) \<longleftrightarrow> printable_time t"
proof (cases "printable_time t")
  case True
  then show ?thesis by (simp add: utc_text_def parse_format format_seconds)
next
  case False
  then show ?thesis by (simp add: utc_text_def parse_format_unprintable)
qed

text \<open>On such text the byte order is the order of the instants.\<close>

lemma utc_text_order:
  assumes "utc_text s" "utc_text s'" "parse_rfc3339 s = Some t" "parse_rfc3339 s' = Some t'"
  shows "str_less s s' \<longleftrightarrow> t < t'"
proof -
  have s: "s = format_rfc3339 t" "s' = format_rfc3339 t'" using assms by (simp_all add: utc_text_def)
  have p: "printable_time t" "printable_time t'" using assms(1,2) unfolding s utc_text_format .
  have w: "t = t div second * second" "t' = t' div second * second"
    using assms(3,4) parse_format [OF p(1)] parse_format [OF p(2)] unfolding s by simp_all
  have "t < t' \<longleftrightarrow> t div second < t' div second"
    by (subst w(1), subst w(2)) (simp add: second_def)
  then show ?thesis unfolding s using format_less [OF p] by simp
qed

definition row_typed :: "string \<Rightarrow> Subscription \<Rightarrow> bool" where
  "row_typed k r \<longleftrightarrow>
     ClientPubKey r = k \<and> Source r = ''client'' \<and> utc_text (IssuedAt r) \<and> utc_text (UpdatedAt r) \<and>
     (utc_text (ExpiresAt r) \<or> parse_rfc3339 (ExpiresAt r) = None)"

lemma clock_printable: "clock_ok (now, e, r) \<Longrightarrow> printable_time now"
proof -
  assume ok: "clock_ok (now, e, r)"
  have "days_before_year 0 * 86400 * second \<le> now" "now < days_before_year 10000 * 86400 * second"
    using ok by (auto simp: clock_ok_def replayWindow_def time_units)
  then have "days_before_year 0 * 86400 \<le> now div second" "now div second < days_before_year 10000 * 86400"
    by (simp_all add: second_def less_eq_div_iff_mult_less_eq div_less_iff_less_mult)
  then show ?thesis by (simp add: printable_time_def)
qed

lemma accepted_row_typed:
  assumes "(i, row) \<in> set (accepted_reports C sec ds)" "list_all clock_ok ds"
  shows "row_typed (ClientPubKey row) row"
proof -
  from assms(1) obtain now err r where d: "(now, err, r) \<in> set ds" "accepted C sec (now, err, r)"
    "reported (now, err, r) = (i, row)"
    by (force simp: accepted_reports_def)
  obtain q expires where row: "row = report_row now q i expires"
    by (rule accepted_cases [OF d(2)]) (use d(3) in auto)
  have "clock_ok (now, err, r)" using d(1) assms(2) by (auto simp: list_all_iff)
  from clock_printable [OF this] accepted_report(2) [OF assms] show ?thesis
    unfolding row
    by (cases "printable_time expires")
      (simp_all add: row_typed_def report_row_def utc_text_format parse_format_unprintable)
qed



end
