(* ===== verification/Dispatch_Inv.thy ===== *)
theory Dispatch_Inv
  imports Bulk
begin

text \<open>
  The control plane under concurrency.  The goroutines of a session (the "control" and "bulk"
  read loops, the attaches in flight, the pumps, the teardown) interleave at the critical
  sections of \<open>d.mu\<close>; \<open>disp_step\<close> has one rule per section, \<open>disp_reach\<close> any interleaving of
  them.  The handlers, run alone, are sequences of these steps (\<open>handle_steps\<close>,
  \<open>handleBulk_steps\<close>).  The invariant is about who owns a feed: every feed a backend handed
  out is either the installed attachment or closed exactly once.

  A feed's number and a claim's number stand for the pointers and generations of the source;
  the 64-bit generation agrees with the claim count as long as fewer than \<open>2 ^ 64\<close> intents
  were claimed in the session.
\<close>

section \<open>Steps\<close>

datatype act = Stop | Claim | Restart | Finish | PumpEnd | Out | End

fun feed_event :: "effect \<Rightarrow> bool" where
  "feed_event (GotFeed f) = True"
| "feed_event (CancelFeed f) = True"
| "feed_event (CloseFeed f) = True"
| "feed_event e = False"

definition claim_spawn :: "string \<Rightarrow> QualityOpts \<Rightarrow> route \<Rightarrow> rtcDispatch \<Rightarrow> rtcDispatch" where
  \<comment> \<open>the claim of \<open>doAttach\<close> with the goroutine it is made for\<close>
  "claim_spawn udid q r d =
     (let (gen, _, d1) = claimAttach udid d
      in spawn (Attaching \<lparr>t_udid = udid, t_quality = q, t_gen = gen, t_route = r, t_claim = d_claims d1\<rparr>) d1)"

definition restart_spawn :: "QualityOpts \<Rightarrow> route \<Rightarrow> rtcDispatch \<Rightarrow> rtcDispatch" where
  "restart_spawn q r d =
     (case restartAttachment d of
        (None, d1) \<Rightarrow> d1
      | (Some (udid, gen), d1) \<Rightarrow>
          spawn (Attaching \<lparr>t_udid = udid, t_quality = q, t_gen = gen, t_route = r, t_claim = d_claims d1\<rparr>) d1)"

inductive disp_step :: "act \<Rightarrow> rtcDispatch \<Rightarrow> rtcDispatch \<Rightarrow> bool" where
  stop: "disp_step Stop d (snd (stopAttachment d))"
| claim: "udid \<noteq> [] \<Longrightarrow> disp_step Claim d (claim_spawn udid q r d)"
| restart: "disp_step Restart d (restart_spawn q r d)"
| finish: "Attaching t \<in> set (d_tasks d) \<Longrightarrow>
    disp_step Finish d (attachAs t expired res (task_done (Attaching t) d))"
| pump_end: "Pumping a \<in> set (d_tasks d) \<Longrightarrow>
    disp_step PumpEnd d (pump_end a reason (task_done (Pumping a) d))"
| out: "(\<forall>e \<in> set es. \<not> feed_event e) \<Longrightarrow> disp_step Out d (emits es d)"
| mark: "disp_step Out d (d\<lparr>d_bulkLifecycle := True\<rparr>)"
| session_end: "disp_step End d (session_end d)"

definition disp_next :: "rtcDispatch \<Rightarrow> rtcDispatch \<Rightarrow> bool" where
  "disp_next d d' \<longleftrightarrow> (\<exists>a. disp_step a d d')"

definition disp_reach :: "rtcDispatch \<Rightarrow> bool" where
  "disp_reach d \<longleftrightarrow> disp_next\<^sup>*\<^sup>* new_dispatch d"

inductive_cases disp_stepE: "disp_step a d d'"

section \<open>Invariant\<close>

definition closes :: "nat \<Rightarrow> rtcDispatch \<Rightarrow> nat" where
  "closes f d = count_list (d_log d) (CloseFeed f)"

definition attached :: "nat \<Rightarrow> rtcDispatch \<Rightarrow> bool" where
  "attached f d \<longleftrightarrow> (case d_att d of None \<Rightarrow> False | Some a \<Rightarrow> at_feed a = f)"

definition attaching :: "rtcDispatch \<Rightarrow> attach_task set" where
  "attaching d = {t. Attaching t \<in> set (d_tasks d)}"

definition pumping :: "rtcDispatch \<Rightarrow> attachment set" where
  "pumping d = {a. Pumping a \<in> set (d_tasks d)}"

definition gens_ok :: "rtcDispatch \<Rightarrow> bool" where
  "gens_ok d \<longleftrightarrow> d_gen d = of_nat (d_claims d) \<and> distinct (d_tasks d) \<and> inj_on t_claim (attaching d) \<and>
     (\<forall>t \<in> attaching d. t_gen t = of_nat (t_claim t) \<and> t_claim t \<le> d_claims d \<and> t_udid t \<noteq> [])"

definition feeds_ok :: "rtcDispatch \<Rightarrow> bool" where
  "feeds_ok d \<longleftrightarrow>
     (\<forall>f. closes f d = (if f < d_feeds d \<and> \<not> attached f d then 1 else 0)) \<and>
     inj_on at_feed (pumping d) \<and> (\<forall>a \<in> pumping d. at_feed a < d_feeds d) \<and>
     (\<forall>a. d_att d = Some a \<longrightarrow> a \<in> pumping d \<and> at_udid a \<noteq> [])"

definition intent_ok :: "rtcDispatch \<Rightarrow> bool" where
  "intent_ok d \<longleftrightarrow>
     (if d_pending d = [] then \<forall>t \<in> attaching d. t_claim t \<noteq> d_claims d
      else d_att d = None \<and> (\<exists>t \<in> attaching d. t_claim t = d_claims d \<and> t_udid t = d_pending d))"

definition disp_inv :: "rtcDispatch \<Rightarrow> bool" where
  "disp_inv d \<longleftrightarrow> gens_ok d \<and> feeds_ok d \<and> intent_ok d"

lemma disp_inv_new: "disp_inv new_dispatch"
  by (simp add: disp_inv_def gens_ok_def feeds_ok_def intent_ok_def new_dispatch_def closes_def
      attached_def attaching_def pumping_def)

lemma count_stop_feed [simp]:
  "count_list (stop_feed x) (CloseFeed f) = (if \<exists>a. x = Some a \<and> at_feed a = f then 1 else 0)"
  by (auto simp: stop_feed_def split: option.split)

lemma count_list_not_in: "x \<notin> set xs \<Longrightarrow> count_list xs x = 0"
  by (simp add: count_list_0_iff)

lemma of_nat_claims_inj:
  assumes "a \<le> b" and "b < 2 ^ 64" and "(of_nat a :: 64 word) = of_nat b"
  shows "a = b"
proof -
  have "unat (of_nat a :: 64 word) = a" "unat (of_nat b :: 64 word) = b"
    using assms(1,2) by (simp_all add: unat_of_nat)
  with assms(3) show ?thesis by metis
qed

lemma feeds_ok_stopped:
  assumes "feeds_ok d" and "d_att d' = None" and "d_feeds d' = d_feeds d" and "pumping d' = pumping d"
    and "d_log d' = d_log d @ stop_feed (d_att d)"
  shows "feeds_ok d'"
  using assms by (auto simp: feeds_ok_def closes_def attached_def split: option.splits if_splits)

lemma gens_ok_claimed:
  assumes "gens_ok d" and "d_gen d' = d_gen d + 1" and "d_claims d' = Suc (d_claims d)"
    and "d_tasks d' = d_tasks d @ map Attaching ts"
    and "\<forall>t \<in> set ts. t_gen t = d_gen d' \<and> t_claim t = d_claims d' \<and> t_udid t \<noteq> []"
    and "length ts \<le> 1"
  shows "gens_ok d'"
proof -
  have at: "attaching d' = attaching d \<union> set ts" using assms(4) by (auto simp: attaching_def)
  have old: "\<forall>t \<in> attaching d. t_claim t \<le> d_claims d" using assms(1) by (simp add: gens_ok_def)
  have fresh: "\<forall>t \<in> set ts. Attaching t \<notin> set (d_tasks d)"
    using old assms(3,5) by (fastforce simp: attaching_def)
  have "inj_on t_claim (attaching d \<union> set ts)"
  proof -
    have "inj_on t_claim (set ts)" using assms(6) by (cases ts) auto
    moreover have "inj_on t_claim (attaching d)" using assms(1) by (simp add: gens_ok_def)
    moreover have "t_claim ` (attaching d - set ts) \<inter> t_claim ` (set ts - attaching d) = {}"
      using old assms(3,5) by fastforce
    ultimately show ?thesis by (simp add: inj_on_Un)
  qed
  moreover have "distinct (d_tasks d')"
    using assms(1,4,6) fresh by (cases ts) (auto simp: gens_ok_def)
  ultimately show ?thesis
    using assms at by (auto simp: gens_ok_def)
qed

lemma inv_stop:
  assumes "disp_inv d"
  shows "disp_inv (snd (stopAttachment d))"
proof -
  let ?d = "snd (stopAttachment d)"
  have f: "d_att ?d = None" "d_gen ?d = d_gen d + 1" "d_claims ?d = Suc (d_claims d)"
    "d_pending ?d = []" "d_tasks ?d = d_tasks d" "d_feeds ?d = d_feeds d"
    "d_log ?d = d_log d @ stop_feed (d_att d)"
    by (simp_all add: stopAttachment_def claimAttach_def Let_def)
  have "gens_ok ?d"
    using assms f by - (rule gens_ok_claimed [of d _ "[]"], simp_all add: disp_inv_def)
  moreover have "feeds_ok ?d"
    using assms f by - (rule feeds_ok_stopped [of d], simp_all add: disp_inv_def pumping_def)
  moreover have "intent_ok ?d"
    using assms f by (fastforce simp: disp_inv_def intent_ok_def gens_ok_def attaching_def)
  ultimately show ?thesis by (simp add: disp_inv_def)
qed

lemma inv_claimed:
  assumes "disp_inv d" and "u \<noteq> []"
    and "d_att d' = None" "d_gen d' = d_gen d + 1" "d_claims d' = Suc (d_claims d)" "d_pending d' = u"
    "d_feeds d' = d_feeds d" "d_log d' = d_log d @ stop_feed (d_att d)"
    "d_tasks d' = d_tasks d @ [Attaching t]"
    and "t_udid t = u" "t_gen t = d_gen d'" "t_claim t = d_claims d'"
  shows "disp_inv d'"
proof -
  have "gens_ok d'"
    using assms by - (rule gens_ok_claimed [of d _ "[t]"], simp_all add: disp_inv_def)
  moreover have "feeds_ok d'"
    using assms by - (rule feeds_ok_stopped [of d], simp_all add: disp_inv_def pumping_def)
  moreover have "intent_ok d'"
    using assms by (auto simp: intent_ok_def attaching_def intro!: exI [of _ t])
  ultimately show ?thesis by (simp add: disp_inv_def)
qed

lemma inv_claim:
  assumes "disp_inv d" and "u \<noteq> []"
  shows "disp_inv (claim_spawn u q r d)"
  by (rule inv_claimed [OF assms, where t = "\<lparr>t_udid = u, t_quality = q, t_gen = d_gen d + 1,
        t_route = r, t_claim = Suc (d_claims d)\<rparr>"])
    (simp_all add: claim_spawn_def claimAttach_def Let_def)

lemma inv_restart:
  assumes "disp_inv d"
  shows "disp_inv (restart_spawn q r d)"
proof (cases "d_att d")
  case None
  with assms show ?thesis by (simp add: restart_spawn_def restartAttachment_def)
next
  case (Some a)
  with assms have "at_udid a \<noteq> []" by (simp add: disp_inv_def feeds_ok_def)
  from inv_claimed [OF assms this] Some show ?thesis
    by (simp add: restart_spawn_def restartAttachment_def Let_def)
qed

section \<open>An attach that finishes\<close>

text \<open>The feed the backend handed out and did not keep: what is left of it in the log.\<close>

definition dropped :: "rtcDispatch \<Rightarrow> bool \<Rightarrow> effect list" where
  "dropped d got = (if got then [GotFeed (d_feeds d), CancelFeed (d_feeds d), CloseFeed (d_feeds d)] else [])"

definition feeds_after :: "rtcDispatch \<Rightarrow> bool \<Rightarrow> nat" where
  "feeds_after d got = (if got then Suc (d_feeds d) else d_feeds d)"

lemma attachAs_cases [consumes 0, case_names superseded failed live]:
  fixes t expired res d
  obtains (superseded) got where "d_gen d \<noteq> t_gen t"
      "attachAs t expired res d = emits (dropped d got) (d\<lparr>d_feeds := feeds_after d got\<rparr>)"
  | (failed) got v where "d_gen d = t_gen t" "cr_type v = ''error''" "cr_operation v = opAttach"
      "cr_udid v = t_udid t"
      "attachAs t expired res d =
         reply_via (t_route t) v
           ((emits (dropped d got) (d\<lparr>d_feeds := feeds_after d got\<rparr>))\<lparr>d_pending := []\<rparr>)"
  | (live) w h where "d_gen d = t_gen t" "\<not> expired" "res = FeedReady w h"
      "attachAs t expired res d =
         reply_via (t_route t) ((ctrl_reply ''attached'')\<lparr>cr_udid := t_udid t, cr_w := w, cr_h := h\<rparr>)
           (spawn (Pumping \<lparr>at_feed = d_feeds d, at_udid = t_udid t\<rparr>)
             ((emits [GotFeed (d_feeds d)] (d\<lparr>d_feeds := Suc (d_feeds d)\<rparr>))
               \<lparr>d_att := Some \<lparr>at_feed = d_feeds d, at_udid = t_udid t\<rparr>, d_pending := []\<rparr>))"
proof -
  have err: "cr_type v = ''error'' \<and> cr_operation v = opAttach \<and> cr_udid v = t_udid t"
    if "v = (lifecycle_error opAttach (t_udid t) c m)\<lparr>cr_retryable := rt\<rparr>" for v c m rt
    using that by (simp add: lifecycle_error_def ctrl_reply_def)
  have fail: thesis
    if "attachWithin expired res (t_udid t) d = (Refused e, emits (dropped d got) (d\<lparr>d_feeds := feeds_after d got\<rparr>))"
    for e got
  proof (cases "d_gen d = t_gen t")
    case False
    with that show thesis
      by (intro superseded [of got]) (simp_all add: attachAs_def failAttach_def)
  next
    case True
    show thesis
    proof (rule failed [OF True])
      let ?cr = "case as_attach_error e of
                  Some (c, m, rt) \<Rightarrow> if c \<noteq> [] then (c, rt) else (CodeAttachFailed, False)
                | None \<Rightarrow> (CodeAttachFailed, False)"
      let ?v = "(lifecycle_error opAttach (t_udid t) (fst ?cr) (error_text e))\<lparr>cr_retryable := snd ?cr\<rparr>"
      show "cr_type ?v = ''error''" "cr_operation ?v = opAttach" "cr_udid ?v = t_udid t"
        using err [OF refl] by auto
      show "attachAs t expired res d =
         reply_via (t_route t) ?v
           ((emits (dropped d got) (d\<lparr>d_feeds := feeds_after d got\<rparr>))\<lparr>d_pending := []\<rparr>)"
        using that True by (simp add: attachAs_def failAttach_def Let_def case_prod_unfold)
    qed
  qed
  show thesis
  proof (cases res)
    case (AttachFails e)
    then show thesis
      by (intro fail [where got = False]) (simp add: attachWithin_def dropped_def feeds_after_def Let_def)
  next
    case (FeedReady w h)
    show thesis
    proof (cases expired)
      case True
      with FeedReady show thesis
        by (intro fail [where got = True]) (simp add: attachWithin_def dropped_def feeds_after_def Let_def)
    next
      case ready: False
      show thesis
      proof (cases "d_gen d = t_gen t")
        case False
        with FeedReady ready show thesis
          by (intro superseded [of True]) (simp_all add: attachAs_def attachWithin_def dropped_def feeds_after_def Let_def)
      next
        case True
        with FeedReady ready show thesis
          by (intro live [of w h]) (simp_all add: attachAs_def attachWithin_def Let_def)
      qed
    qed
  qed
qed

lemma feeds_ok_cong:
  assumes "feeds_ok d" and "d_att d' = d_att d" and "d_feeds d' = d_feeds d"
    and "pumping d' = pumping d" and "\<And>f. closes f d' = closes f d"
  shows "feeds_ok d'"
  using assms by (simp add: feeds_ok_def attached_def)

lemma gens_ok_cong:
  assumes "gens_ok d" and "d_gen d' = d_gen d" and "d_claims d' = d_claims d" and "d_tasks d' = d_tasks d"
  shows "gens_ok d'"
  using assms by (simp add: gens_ok_def attaching_def)

lemma intent_ok_cong:
  assumes "intent_ok d" and "d_att d' = d_att d" and "d_pending d' = d_pending d"
    and "d_claims d' = d_claims d" and "d_tasks d' = d_tasks d"
  shows "intent_ok d'"
  using assms by (auto simp: intent_ok_def attaching_def)

lemma task_done_fields [simp]:
  "d_att (task_done x d) = d_att d" "d_gen (task_done x d) = d_gen d"
  "d_pending (task_done x d) = d_pending d" "d_claims (task_done x d) = d_claims d"
  "d_feeds (task_done x d) = d_feeds d" "d_log (task_done x d) = d_log d"
  "d_tasks (task_done x d) = remove1 x (d_tasks d)" "d_baseDone (task_done x d) = d_baseDone d"
  "d_bulkLifecycle (task_done x d) = d_bulkLifecycle d"
  by (simp_all add: task_done_def)

lemma gens_ok_done:
  assumes "gens_ok d"
  shows "gens_ok (task_done x d)"
  using assms by (auto simp: gens_ok_def attaching_def intro: inj_on_subset)

lemma attaching_done:
  "gens_ok d \<Longrightarrow> attaching (task_done (Attaching t) d) = attaching d - {t}"
  by (auto simp: gens_ok_def attaching_def)

lemma pumping_done:
  "gens_ok d \<Longrightarrow> pumping (task_done (Pumping a) d) = pumping d - {a}"
  by (auto simp: gens_ok_def pumping_def)

lemma feeds_ok_done:
  assumes "feeds_ok d"
  shows "feeds_ok (task_done (Attaching t) d)"
  by (rule feeds_ok_cong [OF assms]) (auto simp: pumping_def closes_def in_set_remove1)

lemma feeds_ok_dropped:
  assumes "feeds_ok d"
  shows "feeds_ok (emits (dropped d got) (d\<lparr>d_feeds := feeds_after d got\<rparr>))"
proof (cases got)
  case True
  have "at_feed a < d_feeds d" if "d_att d = Some a" for a
    using assms that by (simp add: feeds_ok_def)
  then have "d_att d = Some a \<Longrightarrow> at_feed a \<noteq> d_feeds d" for a by fastforce
  then have new: "\<not> attached (d_feeds d) d"
    by (simp add: attached_def split: option.split)
  show ?thesis
    using assms new True
    by (auto simp: feeds_ok_def closes_def attached_def pumping_def dropped_def feeds_after_def less_Suc_eq)
next
  case False
  then show ?thesis
    by - (rule feeds_ok_cong [OF assms], simp_all add: dropped_def feeds_after_def pumping_def closes_def)
qed

lemma claim_current:
  assumes "disp_inv d" and "d_claims d < 2 ^ 64" and "t \<in> attaching d"
  shows "d_gen d = t_gen t \<longleftrightarrow> t_claim t = d_claims d"
proof -
  have "gens_ok d" using assms(1) by (simp add: disp_inv_def)
  then have g: "d_gen d = of_nat (d_claims d)" "t_gen t = of_nat (t_claim t)" "t_claim t \<le> d_claims d"
    using assms(3) by (simp_all add: gens_ok_def)
  show ?thesis
  proof
    assume "d_gen d = t_gen t"
    then show "t_claim t = d_claims d"
      using of_nat_claims_inj [OF g(3) assms(2)] g(1,2) by metis
  qed (simp add: g(1,2))
qed

lemma inv_superseded:
  assumes "disp_inv d" and "d_claims d < 2 ^ 64" and "t \<in> attaching d" and "d_gen d \<noteq> t_gen t"
  shows "disp_inv (task_done (Attaching t) d)"
proof -
  have g: "gens_ok d" and f: "feeds_ok d" and i: "intent_ok d" using assms(1) by (simp_all add: disp_inv_def)
  have "t_claim t \<noteq> d_claims d" using claim_current [OF assms(1-3)] assms(4) by simp
  with i have "intent_ok (task_done (Attaching t) d)"
    by (auto simp: intent_ok_def attaching_done [OF g])
  with gens_ok_done [OF g] feeds_ok_done [OF f] show ?thesis by (simp add: disp_inv_def)
qed

lemma only_current:
  assumes "disp_inv d" and "d_claims d < 2 ^ 64" and "t \<in> attaching d" and "d_gen d = t_gen t"
  shows "d_att d = None" and "d_pending d = t_udid t"
    and "\<forall>t' \<in> attaching (task_done (Attaching t) d). t_claim t' \<noteq> d_claims d"
proof -
  have g: "gens_ok d" and i: "intent_ok d" using assms(1) by (simp_all add: disp_inv_def)
  have c: "t_claim t = d_claims d" using claim_current [OF assms(1-3)] assms(4) by simp
  then have p: "d_pending d \<noteq> []" using i assms(3) by (auto simp: intent_ok_def split: if_splits)
  with i obtain t' where t': "t' \<in> attaching d" "t_claim t' = d_claims d" "t_udid t' = d_pending d"
    and a: "d_att d = None" by (auto simp: intent_ok_def)
  have inj: "inj_on t_claim (attaching d)" using g by (simp add: gens_ok_def)
  show "d_att d = None" by (rule a)
  have "t' = t" using inj_onD [OF inj _ t'(1) assms(3)] t'(2) c by simp
  with t' show "d_pending d = t_udid t" by simp
  show "\<forall>t' \<in> attaching (task_done (Attaching t) d). t_claim t' \<noteq> d_claims d"
    using inj_onD [OF inj] assms(3) c by (auto simp: attaching_done [OF g])
qed

lemma inv_finish:
  assumes inv: "disp_inv d" and bound: "d_claims d < 2 ^ 64" and t: "t \<in> attaching d"
  shows "disp_inv (attachAs t expired res (task_done (Attaching t) d))"
proof -
  let ?d = "task_done (Attaching t) d"
  have g: "gens_ok ?d" and f: "feeds_ok ?d"
    using inv by (simp_all add: disp_inv_def gens_ok_done feeds_ok_done)
  show ?thesis
  proof (cases rule: attachAs_cases [of ?d t expired res])
    case (superseded got)
    have "intent_ok ?d" using inv_superseded [OF inv bound t] superseded(1) by (simp add: disp_inv_def)
    then show ?thesis
      unfolding superseded(2) disp_inv_def
      using feeds_ok_dropped [OF f, of got]
        gens_ok_cong [OF g, of "emits (dropped ?d got) (?d\<lparr>d_feeds := feeds_after ?d got\<rparr>)"]
      intent_ok_cong [of ?d "emits (dropped ?d got) (?d\<lparr>d_feeds := feeds_after ?d got\<rparr>)"]
      by simp
  next
    case (failed got v)
    have cur: "d_gen d = t_gen t" using failed(1) by simp
    note oc = only_current [OF inv bound t cur]
    let ?e = "emits (dropped ?d got) (?d\<lparr>d_feeds := feeds_after ?d got\<rparr>)"
    have "feeds_ok (reply_via (t_route t) v (?e\<lparr>d_pending := []\<rparr>))"
      by (rule feeds_ok_cong [OF feeds_ok_dropped [OF f, of got]]) (simp_all add: pumping_def closes_def)
    then show ?thesis
      unfolding failed(5) disp_inv_def
      using gens_ok_cong [OF g] oc(3) by (simp add: intent_ok_def attaching_def)
  next
    case (live w h)
    have cur: "d_gen d = t_gen t" using live(1) by simp
    note oc = only_current [OF inv bound t cur]
    have udid: "t_udid t \<noteq> []" using inv t by (simp add: disp_inv_def gens_ok_def)
    have new: "\<forall>a \<in> pumping ?d. at_feed a < d_feeds ?d" and dist: "distinct (d_tasks ?d)"
      and inj: "inj_on at_feed (pumping ?d)"
      using f g by (simp_all add: feeds_ok_def gens_ok_def)
    let ?a = "\<lparr>at_feed = d_feeds ?d, at_udid = t_udid t\<rparr>"
    have fresh: "?a \<notin> pumping ?d" using new by force
    let ?d' = "attachAs t expired res ?d"
    have e: "d_att ?d' = Some ?a" "d_feeds ?d' = Suc (d_feeds ?d)" "d_pending ?d' = []"
      "d_gen ?d' = d_gen ?d" "d_claims ?d' = d_claims ?d" "d_tasks ?d' = d_tasks ?d @ [Pumping ?a]"
      "\<And>f. closes f ?d' = closes f ?d"
      unfolding live(4) by (simp_all add: closes_def)
    have pu: "pumping ?d' = insert ?a (pumping ?d)" and at: "attaching ?d' = attaching ?d"
      using e(6) by (auto simp: pumping_def attaching_def)
    have "inj_on at_feed (pumping ?d')" using inj new fresh by (force simp: pu inj_on_insert)
    moreover have "closes f ?d' = (if f < Suc (d_feeds ?d) \<and> \<not> attached f ?d' then 1 else 0)" for f
      using f e(1,7) oc(1) by (auto simp: feeds_ok_def attached_def less_Suc_eq)
    ultimately have "feeds_ok ?d'" using new udid by (auto simp: feeds_ok_def e(1,2) pu)
    moreover have "gens_ok ?d'"
      using g dist fresh e(4,5) by (auto simp: gens_ok_def at e(6) pumping_def)
    moreover have "intent_ok ?d'" using oc(3) e by (simp add: intent_ok_def at)
    ultimately show ?thesis by (simp add: disp_inv_def)
  qed
qed

section \<open>The remaining steps\<close>

lemma attaching_pump_done:
  "attaching (task_done (Pumping a) d) = attaching d"
  by (auto simp: attaching_def)

lemma inv_pump_end:
  assumes inv: "disp_inv d" and a: "a \<in> pumping d"
  shows "disp_inv (pump_end a reason (task_done (Pumping a) d))"
proof -
  let ?d = "task_done (Pumping a) d" and ?d' = "pump_end a reason (task_done (Pumping a) d)"
  have g: "gens_ok d" and f: "feeds_ok d" and i: "intent_ok d" using inv by (simp_all add: disp_inv_def)
  have pd: "pumping ?d' = pumping d - {a}" "attaching ?d' = attaching d"
    using pumping_done [OF g, of a] attaching_pump_done [of a d]
    by (simp_all add: pump_end_def Let_def pumping_def attaching_def)
  have fields: "d_gen ?d' = d_gen d" "d_claims ?d' = d_claims d" "d_feeds ?d' = d_feeds d"
    "d_pending ?d' = d_pending d" "d_tasks ?d' = d_tasks ?d"
    "d_att ?d' = (if d_att d = Some a then None else d_att d)"
    "\<And>f. closes f ?d' = closes f d + (if d_att d = Some a \<and> at_feed a = f then 1 else 0)"
    by (simp_all add: pump_end_def Let_def closes_def)
  have "gens_ok ?d'" using gens_ok_done [OF g, of "Pumping a"] gens_ok_cong fields by simp
  moreover have "intent_ok ?d'" using i by (simp add: intent_ok_def fields pd)
  moreover have "feeds_ok ?d'"
  proof -
    have cl: "closes k ?d' = (if k < d_feeds d \<and> \<not> attached k ?d' then 1 else 0)" for k
    proof (cases "d_att d = Some a")
      case True
      moreover have "at_feed a < d_feeds d" using f a by (simp add: feeds_ok_def)
      ultimately show ?thesis using f by (auto simp: feeds_ok_def fields attached_def)
    next
      case False
      then show ?thesis using f by (simp add: feeds_ok_def fields attached_def)
    qed
    have "inj_on at_feed (pumping d - {a})" using f by (auto simp: feeds_ok_def intro: inj_on_subset)
    with f cl show ?thesis by (auto simp: feeds_ok_def fields pd)
  qed
  ultimately show ?thesis by (simp add: disp_inv_def)
qed

lemma count_no_feed_event: "(\<forall>e \<in> set es. \<not> feed_event e) \<Longrightarrow> count_list es (CloseFeed f) = 0"
  by (intro count_list_not_in) auto

lemma inv_out:
  assumes "disp_inv d" and "\<forall>e \<in> set es. \<not> feed_event e"
  shows "disp_inv (emits es d)"
proof -
  have "gens_ok (emits es d)" using assms(1) by (auto simp: disp_inv_def intro: gens_ok_cong)
  moreover have "intent_ok (emits es d)"
    using assms(1) by (auto simp: disp_inv_def intro: intent_ok_cong)
  moreover have "feeds_ok (emits es d)"
    by (rule feeds_ok_cong [of d]) (use assms in \<open>simp_all add: disp_inv_def pumping_def closes_def count_no_feed_event\<close>)
  ultimately show ?thesis by (simp add: disp_inv_def)
qed

lemma inv_flags:
  assumes "disp_inv d"
  shows "disp_inv (d\<lparr>d_bulkLifecycle := b\<rparr>)" and "disp_inv (session_end d)"
proof -
  have g: "gens_ok d" and f: "feeds_ok d" and i: "intent_ok d" using assms by (simp_all add: disp_inv_def)
  show "disp_inv (d\<lparr>d_bulkLifecycle := b\<rparr>)"
    using gens_ok_cong [OF g] intent_ok_cong [OF i] feeds_ok_cong [OF f]
    by (simp add: disp_inv_def pumping_def closes_def)
  show "disp_inv (session_end d)"
    using gens_ok_cong [OF g] intent_ok_cong [OF i] feeds_ok_cong [OF f]
    by (simp add: disp_inv_def pumping_def closes_def session_end_def)
qed

lemmas disp_preserved = inv_stop inv_claim inv_restart inv_finish inv_pump_end inv_out inv_flags

lemma disp_step_inv:
  assumes "disp_step a d d'" and "disp_inv d" and "d_claims d < 2 ^ 64"
  shows "disp_inv d'"
  using assms
  by (cases rule: disp_step.cases) (simp_all add: disp_preserved attaching_def pumping_def)

lemma attachAs_claims: "d_claims (attachAs t expired res d) = d_claims d"
  by (cases rule: attachAs_cases [of d t expired res]) simp_all

lemma disp_step_claims: "disp_step a d d' \<Longrightarrow> d_claims d \<le> d_claims d'"
  by (cases rule: disp_step.cases)
    (auto simp: stopAttachment_def claim_spawn_def restart_spawn_def restartAttachment_def claimAttach_def
      Let_def attachAs_claims pump_end_def session_end_def split: option.split)

lemma disp_reach_inv:
  assumes "disp_reach d" and "d_claims d < 2 ^ 64"
  shows "disp_inv d"
  using assms unfolding disp_reach_def
proof (induction rule: rtranclp_induct)
  case base
  show ?case by (rule disp_inv_new)
next
  case (step d d')
  then obtain a where a: "disp_step a d d'" by (auto simp: disp_next_def)
  then have "d_claims d < 2 ^ 64" using disp_step_claims [OF a] step.prems by simp
  with step.IH a show ?case by (blast intro: disp_step_inv)
qed

section \<open>The handlers are sequences of these steps\<close>

lemma next_step: "disp_next\<^sup>*\<^sup>* d d1 \<Longrightarrow> disp_step a d1 d2 \<Longrightarrow> disp_next\<^sup>*\<^sup>* d d2"
  by (rule rtranclp.rtrancl_into_rtrancl) (auto simp: disp_next_def)

lemma next_claim: "disp_next\<^sup>*\<^sup>* d d1 \<Longrightarrow> u \<noteq> [] \<Longrightarrow> disp_next\<^sup>*\<^sup>* d (claim_spawn u q r d1)"
  by (erule next_step) (rule disp_step.claim)

lemma next_out:
  "disp_next\<^sup>*\<^sup>* d d1 \<Longrightarrow> (\<forall>e \<in> set es. \<not> feed_event e) \<Longrightarrow> disp_next\<^sup>*\<^sup>* d (emits es d1)"
  by (erule next_step) (rule disp_step.out)

lemmas next_stop = next_step [OF _ disp_step.stop]
  and next_restart = next_step [OF _ disp_step.restart]
  and next_mark = next_step [OF _ disp_step.mark]

lemma next_reply: "disp_next\<^sup>*\<^sup>* d d1 \<Longrightarrow> disp_next\<^sup>*\<^sup>* d (reply_via r v d1)"
  by (cases r) (simp_all add: reply_via_def next_out next_mark)

lemmas next_intros = next_reply next_out next_mark next_stop next_restart rtranclp.rtrancl_refl

lemma doAttach_steps: "disp_next\<^sup>*\<^sup>* d (doAttach u q r d)"
proof (cases "u = []")
  case False
  have "doAttach u q r d = reply_via r ((ctrl_reply ''attaching'')\<lparr>cr_udid := u\<rparr>) (claim_spawn u q r d)"
    using False
    by (simp add: doAttach_def claim_spawn_def claimAttach_def Let_def reply_via_def spawn_def emits_def
        split: route.split)
  then show ?thesis using False by (simp add: next_reply next_claim)
qed (simp add: doAttach_def next_intros)

lemma lifecycle_steps:
  "lifecycle env m reliable d = (served, d') \<Longrightarrow> disp_next\<^sup>*\<^sup>* d d'"
  by (auto simp: lifecycle_def Let_def doBoot_def doRestart_def doShutdown_def doDetach_def
      case_prod_unfold intro!: next_intros doAttach_steps split: if_splits option.splits)

lemma handle_steps: "disp_next\<^sup>*\<^sup>* d (handle hi env data d)"
proof (cases "parseControl data")
  case (Some m)
  obtain served d1 where l: "lifecycle env m False d = (served, d1)" by fastforce
  from lifecycle_steps [OF l] show ?thesis
    by (simp add: handle_def Some l doInput_def doShake_def sendHello_def next_out split: option.split)
qed (simp add: handle_def)

lemma bulkError_steps: "disp_next\<^sup>*\<^sup>* d d1 \<Longrightarrow> disp_next\<^sup>*\<^sup>* d (bulkError env code msg d1)"
  by (simp add: bulkError_def sendBulkText_def Let_def next_out)

lemma sendChunked_steps: "disp_next\<^sup>*\<^sup>* d d1 \<Longrightarrow> disp_next\<^sup>*\<^sup>* d (snd (sendChunked env tp payload d1))"
proof (cases "bk_wired env")
  case True
  assume d: "disp_next\<^sup>*\<^sup>* d d1"
  show ?thesis
  proof (cases rule: sendChunked_cases [OF True, of tp payload d1, case_names refused sent])
    case (refused e)
    with d show ?thesis by (simp add: next_out)
  next
    case (sent es)
    then have "\<forall>e \<in> set es. \<not> feed_event e"
      by (auto simp: transferred_def split: option.splits)
    with d sent(1) show ?thesis by (simp add: next_out)
  qed
qed (simp add: sendChunked_def)

lemma handleBulk_steps: "disp_next\<^sup>*\<^sup>* d (handleBulk env be data d)"
proof (cases data)
  case (Some m)
  have l: "disp_next\<^sup>*\<^sup>* d (doList env d)"
    by (auto simp: doList_def Let_def intro!: next_intros bulkError_steps sendChunked_steps split: sum.split)
  have "disp_next\<^sup>*\<^sup>* d d2" if "sendChunked env tp img (emits [FeedScreenshot f] d) = (r, d2)" for tp img f r d2
    using sendChunked_steps [of d "emits [FeedScreenshot f] d" env tp img] that by (simp add: next_intros)
  then have s: "disp_next\<^sup>*\<^sup>* d (doScreenshot env d)"
    by (auto simp: doScreenshot_def Let_def intro!: next_intros bulkError_steps
        split: sum.split option.split prod.split)
  have q: "disp_next\<^sup>*\<^sup>* d (doQuality env q0 d)" for q0
  proof (cases "d_att d")
    case (Some a)
    let ?d1 = "restart_spawn (Resolve (bk_defaultScale env) q0) (lifecycleReply d) d"
    have "doQuality env q0 d =
        (if bk_wired env
         then snd (sendBulkText env (marshal_quality (bk_float env) (Resolve (bk_defaultScale env) q0)) ?d1)
         else ?d1)"
      using Some by (simp add: doQuality_def restart_spawn_def restartAttachment_def Let_def lifecycleReply_def)
    then show ?thesis by (simp add: sendBulkText_def Let_def next_intros)
  qed (simp add: doQuality_def restartAttachment_def bulkError_steps)
  obtain served d1 where lc: "lifecycle be (bulk_control m) True d = (served, d1)" by fastforce
  with l s q lifecycle_steps [OF lc] show ?thesis
    by (simp add: handleBulk_def Some bulkError_steps)
qed (simp add: handleBulk_def bulkError_steps)

section \<open>Properties\<close>

text \<open>
  C12: no feed leaks and none is closed twice.  In every state the session's goroutines can
  reach by interleaving, each feed a backend handed out is either the one installed, never
  closed and still being pumped, or it has been closed exactly once.
\<close>

theorem feeds_never_leak:
  assumes "disp_reach d" and "d_claims d < 2 ^ 64"
  shows "(\<forall>f < d_feeds d. closes f d = (if attached f d then 0 else 1))
     \<and> (\<forall>a. d_att d = Some a \<longrightarrow> Pumping a \<in> set (d_tasks d) \<and> at_feed a < d_feeds d)"
  using disp_reach_inv [OF assms] by (auto simp: disp_inv_def feeds_ok_def pumping_def)

definition demo_quality :: QualityOpts where
  "demo_quality = \<lparr>q_scale = 0, q_bitrate = 0\<rparr>"

definition demo_attached :: rtcDispatch where
  \<comment> \<open>one attach requested, spawned, and installed\<close>
  "demo_attached =
     (let d1 = claim_spawn ''U'' demo_quality ViaBulk new_dispatch;
          t = \<lparr>t_udid = ''U'', t_quality = demo_quality, t_gen = 1, t_route = ViaBulk, t_claim = 1\<rparr>
      in attachAs t False (FeedReady 100 200) (task_done (Attaching t) d1))"

lemma demo_attached_simps:
  "d_claims demo_attached = 1" "d_feeds demo_attached = 1"
  "d_att demo_attached = Some \<lparr>at_feed = 0, at_udid = ''U''\<rparr>"
  by (simp_all add: demo_attached_def claim_spawn_def claimAttach_def new_dispatch_def attachAs_def
      attachWithin_def Let_def task_done_def)

lemma demo_attached_reach: "disp_reach demo_attached"
proof -
  have "disp_next\<^sup>*\<^sup>* new_dispatch (claim_spawn ''U'' demo_quality ViaBulk new_dispatch)"
    by (rule next_claim) simp_all
  then show ?thesis
    unfolding disp_reach_def demo_attached_def Let_def
    by (rule next_step [OF _ disp_step.finish])
      (simp add: claim_spawn_def claimAttach_def Let_def new_dispatch_def)
qed

theorem feeds_never_leak_witness:
  "closes 0 demo_attached = 0 \<and> Pumping \<lparr>at_feed = 0, at_udid = ''U''\<rparr> \<in> set (d_tasks demo_attached)"
  using feeds_never_leak [OF demo_attached_reach] demo_attached_simps by (simp add: attached_def)

lemma dropped_no_reply: "Reply r v \<notin> set (dropped d got)"
  by (simp add: dropped_def)


definition demo_task :: attach_task where
  "demo_task = \<lparr>t_udid = ''U'', t_quality = demo_quality, t_gen = 1, t_route = ViaBulk, t_claim = 1\<rparr>"

definition demo_spawned :: rtcDispatch where
  "demo_spawned = claim_spawn ''U'' demo_quality ViaBulk new_dispatch"

lemma demo_spawned_simps:
  "d_claims demo_spawned = 1" "d_tasks demo_spawned = [Attaching demo_task]" "d_log demo_spawned = []"
  "d_att demo_spawned = None" "d_pending demo_spawned = ''U''"
  by (simp_all add: demo_spawned_def claim_spawn_def claimAttach_def Let_def new_dispatch_def demo_task_def
      stop_feed_def)

lemma demo_spawned_reach: "disp_reach demo_spawned"
  unfolding disp_reach_def demo_spawned_def by (rule next_claim) simp_all


text \<open>
  A device the session says it is busy with is really being attached.  Whenever \<open>pending\<close>
  names a device nothing is installed and the attach of the newest intent is still running
  for exactly that device; whenever it is empty no attach in flight can install anything.
  So no attach is stranded, and a failed one never leaves the session looking busy.
\<close>

theorem pending_is_in_flight:
  assumes "disp_reach d" and "d_claims d < 2 ^ 64"
  shows "if d_pending d = []
     then \<forall>t. Attaching t \<in> set (d_tasks d) \<longrightarrow> t_gen t \<noteq> d_gen d
     else d_att d = None \<and>
       (\<exists>t. Attaching t \<in> set (d_tasks d) \<and> t_gen t = d_gen d \<and> t_udid t = d_pending d)"
proof -
  have inv: "disp_inv d" by (rule disp_reach_inv [OF assms])
  then have i: "intent_ok d" by (simp add: disp_inv_def)
  note cur = claim_current [OF inv assms(2)]
  show ?thesis
  proof (cases "d_pending d = []")
    case True
    with i cur show ?thesis by (fastforce simp: intent_ok_def attaching_def)
  next
    case False
    with i obtain t where t: "t \<in> attaching d" "t_claim t = d_claims d" "t_udid t = d_pending d"
      and a: "d_att d = None" by (auto simp: intent_ok_def)
    then have "t_gen t = d_gen d" using cur [OF t(1)] by simp
    with t a False show ?thesis by (auto simp: attaching_def)
  qed
qed

theorem pending_is_in_flight_witness:
  "\<exists>t. Attaching t \<in> set (d_tasks demo_spawned) \<and> t_udid t = ''U''"
  using pending_is_in_flight [OF demo_spawned_reach] by (auto simp: demo_spawned_simps)

text \<open>
  What can still happen once the session is being torn down: no request claims any more,
  but attaches and pumps in flight finish and replies are written.
\<close>

definition quiet_next :: "rtcDispatch \<Rightarrow> rtcDispatch \<Rightarrow> bool" where
  "quiet_next d d' \<longleftrightarrow> (\<exists>a. disp_step a d d' \<and> a \<notin> {Claim, Restart})"

lemma quiet_steps_idle:
  assumes "quiet_next\<^sup>*\<^sup>* d d'" and "disp_inv d" and "d_att d = None" and "d_pending d = []"
    and "d_claims d' < 2 ^ 64"
  shows "disp_inv d' \<and> d_att d' = None \<and> d_pending d' = []"
  using assms
proof (induction rule: rtranclp_induct)
  case (step d1 d2)
  then obtain a where a: "disp_step a d1 d2" "a \<notin> {Claim, Restart}" by (auto simp: quiet_next_def)
  have bound: "d_claims d1 < 2 ^ 64" using disp_step_claims [OF a(1)] step.prems(4) by simp
  with step have d1: "disp_inv d1" "d_att d1 = None" "d_pending d1 = []" by blast+
  have "d_att d2 = None \<and> d_pending d2 = []"
    using a
  proof (cases rule: disp_step.cases)
    case (finish t expired res)
    have t: "t \<in> attaching d1" using finish by (simp add: attaching_def)
    have "d_gen d1 \<noteq> t_gen t"
      using claim_current [OF d1(1) bound t] d1 t by (auto simp: disp_inv_def intent_ok_def)
    then show ?thesis using finish d1
      by (cases rule: attachAs_cases [of "task_done (Attaching t) d1" t expired res]) simp_all
  qed (use d1 in \<open>simp_all add: stopAttachment_def claimAttach_def Let_def pump_end_def session_end_def\<close>)
  with disp_step_inv [OF a(1) d1(1) bound] show ?case by simp
qed simp



text \<open>Once a feed has been closed it is closed for good, and is never installed again.\<close>

lemma disp_step_log:
  assumes "disp_step a d d'"
  shows "\<exists>es. d_log d' = d_log d @ es"
  using assms
proof (cases rule: disp_step.cases)
  case (finish t expired res)
  then show ?thesis
    by (cases rule: attachAs_cases [of "task_done (Attaching t) d" t expired res]) simp_all
qed (auto simp: stopAttachment_def claim_spawn_def restart_spawn_def restartAttachment_def claimAttach_def
      Let_def pump_end_def session_end_def split: option.split)

lemma disp_next_log: "disp_next\<^sup>*\<^sup>* d d' \<Longrightarrow> \<exists>es. d_log d' = d_log d @ es"
proof (induction rule: rtranclp_induct)
  case (step y z)
  then show ?case using disp_step_log by (fastforce simp: disp_next_def)
qed simp

definition told_ended :: "attachment \<Rightarrow> effect list \<Rightarrow> bool" where
  "told_ended a es \<longleftrightarrow> (\<exists>r v. Reply r v \<in> set es \<and> cr_type v = ''stream_ended'' \<and> cr_udid v = at_udid a)"

text \<open>
  The client hears \<open>stream_ended\<close> only about a feed nobody stopped.  When a pump ends, the
  event is sent exactly if its attachment is still installed and the session is not ending;
  and once any detach, shutdown, restart, new attach or quality change has been claimed, the
  feed installed before it is never installed again, so its pump ends in silence.
\<close>

theorem stream_ended_only_if_unasked:
  assumes "disp_reach d" and "d_att d = Some a" and "d_claims d' < 2 ^ 64"
    and "disp_step act d d1" and "act \<in> {Stop, Claim, Restart}" and "disp_next\<^sup>*\<^sup>* d1 d'"
  shows "told_ended a (new_effects d (pump_end a reason d)) = (\<not> d_baseDone d)
     \<and> new_effects d' (pump_end a reason d') = [CancelFeed (at_feed a)]"
proof -
  have "disp_reach d'"
    using assms(1,4,6) unfolding disp_reach_def by (meson disp_next_def rtranclp.rtrancl_into_rtrancl rtranclp_trans)
  then have inv: "disp_inv d'" by (rule disp_reach_inv [OF _ assms(3)])
  have "CloseFeed (at_feed a) \<in> set (d_log d1)"
    using assms(4,5,2)
    by (cases rule: disp_step.cases)
      (auto simp: stopAttachment_def claim_spawn_def restart_spawn_def restartAttachment_def claimAttach_def
        Let_def stop_feed_def)
  then have "closes (at_feed a) d' \<noteq> 0"
    using disp_next_log [OF assms(6)] by (auto simp: closes_def count_list_0_iff)
  then have "d_att d' \<noteq> Some a" using inv by (auto simp: disp_inv_def feeds_ok_def attached_def)
  then have "new_effects d' (pump_end a reason d') = [CancelFeed (at_feed a)]"
    by (simp add: pump_end_def Let_def new_effects_def)
  moreover have "told_ended a (new_effects d (pump_end a reason d)) = (\<not> d_baseDone d)"
    using assms(2)
    by (auto simp: pump_end_def Let_def new_effects_def told_ended_def wire_reply_def cap_msg_def ctrl_reply_def
        split: route.split)
  ultimately show ?thesis by simp
qed

theorem stream_ended_only_if_unasked_witness:
  "told_ended \<lparr>at_feed = 0, at_udid = ''U''\<rparr>
     (new_effects demo_attached (pump_end \<lparr>at_feed = 0, at_udid = ''U''\<rparr> None demo_attached))
   = (\<not> d_baseDone demo_attached)"
proof -
  have "d_claims (snd (stopAttachment demo_attached)) < 2 ^ 64"
    by (simp add: stopAttachment_def claimAttach_def Let_def demo_attached_simps)
  from stream_ended_only_if_unasked [OF demo_attached_reach demo_attached_simps(3) this disp_step.stop]
  show ?thesis by simp
qed

definition untouched :: "rtcDispatch \<Rightarrow> rtcDispatch \<Rightarrow> bool" where
  \<comment> \<open>neither the feed, nor the attach in flight, nor their owner changed\<close>
  "untouched d d' \<longleftrightarrow>
     d_att d' = d_att d \<and> d_gen d' = d_gen d \<and> d_pending d' = d_pending d \<and> d_tasks d' = d_tasks d
     \<and> (\<forall>e \<in> set (new_effects d d'). \<not> feed_event e)"

definition stopped_first :: "string \<Rightarrow> rtcDispatch \<Rightarrow> rtcDispatch \<Rightarrow> bool" where
  \<comment> \<open>the feed was released and the intent dropped before the simulator was shut down\<close>
  "stopped_first udid d d' \<longleftrightarrow>
     d_att d' = None \<and> d_pending d' = [] \<and> d_gen d' = d_gen d + 1 \<and>
     (\<exists>es es'. new_effects d d' = stop_feed (d_att d) @ es @ CallShutdown udid # es' \<and>
        (\<forall>e \<in> set (es @ es'). \<not> feed_event e))"

lemma stopAttachment_fields [simp]:
  "d_att (snd (stopAttachment d)) = None" "d_pending (snd (stopAttachment d)) = []"
  "d_gen (snd (stopAttachment d)) = d_gen d + 1"
  "d_log (snd (stopAttachment d)) = d_log d @ stop_feed (d_att d)"
  by (simp_all add: stopAttachment_def claimAttach_def Let_def)

lemma doShutdown_stopped:
  assumes "udid \<noteq> []" and "streaming udid d"
  shows "stopped_first udid d (doShutdown env udid r d)"
proof -
  have "stopped_first udid d d'"
    if "d_log d' = d_log d @ stop_feed (d_att d) @ [Reply r v, CallShutdown udid, Reply r w]"
      "d_att d' = None" "d_pending d' = []" "d_gen d' = d_gen d + 1" for d' v w
    using that by (simp add: stopped_first_def new_effects_def) (rule exI [of _ "[Reply r v]"], simp)
  then show ?thesis
    using assms by (cases "be_shutdown env") (simp_all add: doShutdown_def Let_def)
qed

lemma doRestart_stopped:
  assumes "udid \<noteq> []" and "streaming udid d"
  shows "stopped_first udid d (doRestart env udid r d)"
  using assms
  by (auto simp: doRestart_def Let_def stopped_first_def new_effects_def split: option.split
      intro: exI [of _ "[]"])

text \<open>
  Shutting down or power-cycling one simulator leaves the stream of another alone.  For a
  device that is neither streamed nor being attached, neither request touches the feed, the
  pending attach or its generation; for the one that is, its feed is cancelled and closed and
  its attach superseded before the simulator is powered off.
\<close>

theorem power_requests_spare_other_device:
  assumes "udid \<noteq> []"
  shows "if streaming udid d
     then stopped_first udid d (doShutdown env udid r d) \<and> stopped_first udid d (doRestart env udid r d)
     else untouched d (doShutdown env udid r d) \<and> untouched d (doRestart env udid r d)"
proof (cases "streaming udid d")
  case True
  with assms show ?thesis by (simp add: doShutdown_stopped doRestart_stopped)
next
  case False
  with assms show ?thesis
    by (auto simp: doShutdown_def doRestart_def Let_def untouched_def new_effects_def split: option.split)
qed

theorem power_requests_spare_other_device_witness:
  "untouched demo_attached (doShutdown demo_backend ''V'' ViaBulk demo_attached)
   \<and> stopped_first ''U'' demo_attached (doRestart demo_backend ''U'' ViaBulk demo_attached)"
proof -
  have "d_pending demo_attached = []"
    by (simp add: demo_attached_def attachAs_def attachWithin_def claim_spawn_def claimAttach_def
        new_dispatch_def Let_def task_done_def)
  then have "\<not> streaming ''V'' demo_attached" "streaming ''U'' demo_attached"
    by (simp_all add: streaming_def demo_attached_simps)
  then show ?thesis
    using power_requests_spare_other_device [of "''V''" demo_attached demo_backend ViaBulk]
      power_requests_spare_other_device [of "''U''" demo_attached demo_backend ViaBulk] by simp
qed

text \<open>
  The check and the stop are two critical sections, so that holds for a request served
  alone.  Between them the other channel's goroutine may claim an attach of another device,
  and the stop then drops that one.
\<close>

lemma shutdown_check_then_stop_race:
  "\<exists>d1 d2. streaming ''U'' demo_attached \<and> disp_step Claim demo_attached d1 \<and> d_pending d1 = ''V'' \<and>
     disp_step Stop d1 d2 \<and> d_pending d2 = [] \<and> d_gen d2 \<noteq> d_gen d1"
proof (intro exI conjI)
  show "streaming ''U'' demo_attached" by (simp add: streaming_def demo_attached_simps)
  show "disp_step Claim demo_attached (claim_spawn ''V'' demo_quality ViaControl demo_attached)"
    by (rule disp_step.claim) simp
  show "disp_step Stop (claim_spawn ''V'' demo_quality ViaControl demo_attached)
     (snd (stopAttachment (claim_spawn ''V'' demo_quality ViaControl demo_attached)))"
    by (rule disp_step.stop)
qed (simp_all add: claim_spawn_def claimAttach_def Let_def)

end
