(* ===== verification/Broker_Presence.thy ===== *)
theory Broker_Presence
  imports Broker_Props
begin

text \<open>
  Presence (\<open>presence.go\<close>): what a watcher was told last, against the registry.  As long as
  the notifications about a daemon id do not overlap, every watcher tracking it has been told
  the truth whenever no notification is under way.  Without that the two can disagree for
  good, as a concrete history shows.
\<close>

section \<open>What a watcher knows\<close>

definition online :: "string \<Rightarrow> broker \<Rightarrow> bool" where
  "online i b \<longleftrightarrow> map_of (b_daemons b) i \<noteq> None"

fun heard :: "string \<Rightarrow> nat \<Rightarrow> nat \<times> signal_msg \<Rightarrow> bool option \<Rightarrow> bool option" where
  "heard i w (x, m) acc = (if x = w \<and> m_type m = TypePresence \<and> m_states m i \<noteq> None then m_states m i else acc)"

definition last_presence :: "string \<Rightarrow> nat \<Rightarrow> (nat \<times> signal_msg) list \<Rightarrow> bool option" where
  "last_presence i w out = fold (heard i w) out None"

lemma last_presence_simps [simp]:
  "last_presence i w [] = None"
  "last_presence i w (out @ [e]) = heard i w e (last_presence i w out)"
  by (simp_all add: last_presence_def)

lemma presenceMsg_states [simp]: "m_states (presenceMsg st) = st"
  by (simp add: presenceMsg_def msg_of_type_def)

fun notifying :: "string \<Rightarrow> pc \<Rightarrow> bool" where
  "notifying i (DNotify j on) = (i = j)"
| "notifying i (DSend j on ws) = (i = j)"
| "notifying i _ = False"

definition calm :: "string \<Rightarrow> broker \<Rightarrow> bool" where
  "calm i b \<longleftrightarrow> (\<forall>c c'. notifying i (b_pc b c) \<and> notifying i (b_pc b c') \<longrightarrow> c = c')"

text \<open>The histories in which no two notifications about \<open>i\<close> overlap.\<close>

inductive calm_history :: "crypto \<Rightarrow> config \<Rightarrow> turnFetcher option \<Rightarrow> string \<Rightarrow> label list \<Rightarrow> broker \<Rightarrow> bool"
  for C :: crypto and cfg :: config and turn :: "turnFetcher option" and i :: string where
  calm_start: "calm_history C cfg turn i [] (new_broker turn)"
| calm_step: "calm_history C cfg turn i tr b \<Longrightarrow> broker_step C cfg l b b' \<Longrightarrow> calm i b' \<Longrightarrow>
    calm_history C cfg turn i (tr @ [l]) b'"

lemma calm_history_trace: "calm_history C cfg turn i tr b \<Longrightarrow> broker_trace C cfg turn tr b"
  by (induction rule: calm_history.induct) (auto intro: broker_trace.intros)

lemma calm_history_calm: "calm_history C cfg turn i tr b \<Longrightarrow> calm i b"
  by (induction rule: calm_history.induct) (auto simp: calm_def new_broker_def)

section \<open>The invariant\<close>

definition told :: "string \<Rightarrow> broker \<Rightarrow> nat \<Rightarrow> bool" where
  "told i b w \<longleftrightarrow> last_presence i w (b_out b) = Some (online i b)"

definition pending_true :: "string \<Rightarrow> broker \<Rightarrow> bool" where
  "pending_true i b \<longleftrightarrow>
     (\<forall>c on. b_pc b c = DNotify i on \<longrightarrow> on = online i b) \<and>
     (\<forall>c on ws. b_pc b c = DSend i on ws \<longrightarrow> on = online i b)"

definition watcher_ok :: "string \<Rightarrow> broker \<Rightarrow> nat \<Rightarrow> bool" where
  "watcher_ok i b w \<longleftrightarrow>
     (\<forall>c on ws. b_pc b c = DSend i on ws \<longrightarrow> w \<in> set ws \<or> told i b w) \<and>
     ((\<forall>c. \<not> notifying i (b_pc b c)) \<longrightarrow> told i b w)"

definition presence_inv :: "string \<Rightarrow> broker \<Rightarrow> bool" where
  "presence_inv i b \<longleftrightarrow> pending_true i b \<and>
     (\<forall>x \<in> set (b_watchers b). i \<in> set (snd x) \<longrightarrow> watcher_ok i b (fst x))"

lemma presence_inv_new: "presence_inv i (new_broker turn)"
  by (simp add: presence_inv_def pending_true_def new_broker_def)

text \<open>A step that has nothing to do with \<open>i\<close>.\<close>

lemma presence_quiet:
  assumes p: "presence_inv i b"
    and pcs: "\<forall>x. x \<noteq> c \<longrightarrow> b_pc b' x = b_pc b x" "\<not> notifying i (b_pc b c)" "\<not> notifying i (b_pc b' c)"
    and on: "online i b' = online i b" and ws: "\<forall>x \<in> set (b_watchers b'). x \<in> set (b_watchers b)"
    and out: "\<forall>w. last_presence i w (b_out b') = last_presence i w (b_out b)"
  shows "presence_inv i b'"
proof -
  have n: "notifying i (b_pc b' x) = notifying i (b_pc b x)" for x
    using pcs by (cases "x = c") auto
  have e: "b_pc b' x = b_pc b x" if "notifying i (b_pc b' x)" for x
    using pcs that by (cases "x = c") auto
  have eN: "b_pc b x = DNotify i on" if "b_pc b' x = DNotify i on" for x on
    using e [of x] that by simp
  have eS: "b_pc b x = DSend i on vs" if "b_pc b' x = DSend i on vs" for x on vs
    using e [of x] that by simp
  have t: "told i b' w = told i b w" for w by (simp add: told_def out on)
  have "pending_true i b'"
    using p eN eS unfolding presence_inv_def pending_true_def on by blast
  moreover have "watcher_ok i b' w" if "watcher_ok i b w" for w
    using that eS n t unfolding watcher_ok_def by blast
  ultimately show ?thesis using p ws by (simp add: presence_inv_def)
qed

section \<open>The steps that speak of presence\<close>

lemma sole_notifier:
  "calm i b \<Longrightarrow> notifying i (b_pc b c) \<Longrightarrow> x \<noteq> c \<Longrightarrow> \<not> notifying i (b_pc b x)"
  by (auto simp: calm_def)

lemma sole_not_pending:
  assumes "calm i b" and "notifying i (b_pc b c)" and "x \<noteq> c"
  shows "b_pc b x \<noteq> DNotify i on \<and> b_pc b x \<noteq> DSend i on ws"
  using sole_notifier [OF assms] by auto

text \<open>Entering a notification, by registering or by being dropped.\<close>

lemma presence_begins:
  assumes "calm i b'" and "b_pc b' c = DNotify i on" and "on = online i b'"
  shows "presence_inv i b'"
proof -
  have n: "notifying i (b_pc b' c)" using assms(2) by simp
  have N: "x = c" if "b_pc b' x = DNotify i on'" for x on'
    using sole_notifier [OF assms(1) n, of x] that by auto
  have S: "b_pc b' x \<noteq> DSend i on' ws" for x on' ws
    using sole_notifier [OF assms(1) n, of x] assms(2) by (cases "x = c") auto
  have "pending_true i b'"
    using N S assms(2,3) by (auto simp: pending_true_def)
  moreover have "watcher_ok i b' w" for w
    using S n by (auto simp: watcher_ok_def)
  ultimately show ?thesis by (simp add: presence_inv_def)
qed

lemma presence_collect:
  assumes p: "presence_inv i b" and c: "calm i b'" and pc: "b_pc b c = DNotify i on"
    and ts: "mset ts = mset (tracking i b)" and b': "b' = notify_collect c i on ts b"
  shows "presence_inv i b'"
proof -
  have n: "notifying i (b_pc b' c)" by (simp add: b' notify_collect_def)
  have o: "online i b' = online i b" by (simp add: online_def b' notify_collect_def)
  have here: "b_pc b' x = DSend i on' ws \<longleftrightarrow> x = c \<and> on' = on \<and> ws = ts" for x on' ws
    using sole_notifier [OF c n, of x] by (auto simp: b' notify_collect_def)
  have none: "b_pc b' x \<noteq> DNotify i on'" for x on'
    using sole_notifier [OF c n, of x] by (auto simp: b' notify_collect_def)
  have "on = online i b" using p pc by (simp add: presence_inv_def pending_true_def)
  then have "pending_true i b'" using here none o by (auto simp: pending_true_def)
  moreover have "watcher_ok i b' (fst x)" if "x \<in> set (b_watchers b')" "i \<in> set (snd x)" for x
  proof -
    have "fst x \<in> set (tracking i b)" using that by (auto simp: tracking_def b' notify_collect_def)
    then have "fst x \<in> set ts" using ts by (metis mset_eq_setD)
    with here n show ?thesis by (auto simp: watcher_ok_def)
  qed
  ultimately show ?thesis by (simp add: presence_inv_def)
qed

lemma presence_send:
  assumes p: "presence_inv i b" and c: "calm i b'" and pc: "b_pc b c = DSend i on (w # ws)"
    and b': "b' = notify_send c i on w ws b"
  shows "presence_inv i b'"
proof -
  have n: "notifying i (b_pc b' c)" by (simp add: b' notify_send_def)
  have o: "online i b' = online i b" by (simp add: online_def b' notify_send_def)
  have here: "b_pc b' x = DSend i on' vs \<longleftrightarrow> x = c \<and> on' = on \<and> vs = ws" for x on' vs
    using sole_notifier [OF c n, of x] by (auto simp: b' notify_send_def)
  have none: "b_pc b' x \<noteq> DNotify i on'" for x on'
    using sole_notifier [OF c n, of x] by (auto simp: b' notify_send_def)
  have on: "on = online i b" using p pc unfolding presence_inv_def pending_true_def by blast
  then have "pending_true i b'" using here none o by (auto simp: pending_true_def)
  moreover have "watcher_ok i b' (fst x)" if "x \<in> set (b_watchers b')" "i \<in> set (snd x)" for x
  proof -
    have "watcher_ok i b (fst x)"
      using p that by (auto simp: presence_inv_def b' notify_send_def)
    then have "fst x \<in> set (w # ws) \<or> told i b (fst x)" using pc unfolding watcher_ok_def by blast
    then have "fst x \<in> set ws \<or> told i b' (fst x)"
      by (auto simp: told_def o on b' notify_send_def) (auto simp: online_def)
    with here n show ?thesis by (auto simp: watcher_ok_def)
  qed
  ultimately show ?thesis by (simp add: presence_inv_def)
qed

lemma presence_done:
  assumes p: "presence_inv i b" and c: "calm i b" and pc: "b_pc b c = DSend i on []"
    and b': "b' = notify_done c on b"
  shows "presence_inv i b'"
proof -
  have n: "notifying i (b_pc b c)" using pc by simp
  have quiet: "\<not> notifying i (b_pc b' x)" for x
    using sole_notifier [OF c n, of x] by (auto simp: b' notify_done_def)
  then have "b_pc b' x \<noteq> DNotify i on'" "b_pc b' x \<noteq> DSend i on' vs" for x on' vs
    using notifying.simps by metis+
  then have pend: "pending_true i b'" and nosend: "\<And>x on' vs. b_pc b' x \<noteq> DSend i on' vs"
    by (auto simp: pending_true_def)
  have "told i b' (fst x)" if "x \<in> set (b_watchers b')" "i \<in> set (snd x)" for x
  proof -
    have "watcher_ok i b (fst x)" using p that by (auto simp: presence_inv_def b' notify_done_def)
    then have "told i b (fst x)" using pc by (fastforce simp: watcher_ok_def)
    then show ?thesis by (simp add: told_def online_def b' notify_done_def)
  qed
  with pend nosend show ?thesis by (simp add: presence_inv_def watcher_ok_def)
qed

lemma presence_watch:
  assumes p: "presence_inv i b" and pc: "b_pc b c = Accepted"
  shows "presence_inv i (add_watcher c m b)" (is "presence_inv i ?b")
proof -
  have o: "online i ?b = online i b" by (simp add: online_def add_watcher_def)
  have e: "b_pc ?b x = q \<longleftrightarrow> b_pc b x = q" if "notifying i q" for x q
    using pc that by (cases "x = c") (auto simp: add_watcher_def)
  have n: "notifying i (b_pc ?b x) \<longleftrightarrow> notifying i (b_pc b x)" for x
    using pc by (cases "x = c") (auto simp: add_watcher_def)
  have heard: "last_presence i w (b_out ?b) =
      (if w = c \<and> i \<in> set (m_daemons m) then Some (online i b) else last_presence i w (b_out b))" for w
    by (auto simp: add_watcher_def snapshot_def online_def)
  have "pending_true i ?b" using p e by (simp add: presence_inv_def pending_true_def o)
  moreover have "watcher_ok i ?b w" if "watcher_ok i b w \<or> w = c \<and> i \<in> set (m_daemons m)" for w
    using that e n heard [of w] by (auto simp: watcher_ok_def told_def o split: if_splits)
  moreover have "x = (c, m_daemons m) \<or> x \<in> set (b_watchers b)" if "x \<in> set (b_watchers ?b)" for x
    using that by (auto simp: add_watcher_def dest: in_update)
  ultimately show ?thesis using p unfolding presence_inv_def by (metis fst_conv snd_conv)
qed

section \<open>Every step\<close>

lemma iceServers_quiet [simp]:
  "b_daemons (snd (iceServers cfg env pub b)) = b_daemons b" "b_watchers (snd (iceServers cfg env pub b)) = b_watchers b"
  "b_pc (snd (iceServers cfg env pub b)) = b_pc b" "b_out (snd (iceServers cfg env pub b)) = b_out b"
  using iceServers_fields [of cfg env pub b "fst (iceServers cfg env pub b)" "snd (iceServers cfg env pub b)"] by simp_all

lemma handle_quiet:
  assumes "b_pc b c = CHandle m"
  shows "presence_inv i b \<Longrightarrow> presence_inv i (client_handle C cfg env c m b)"
  using assms
  by - (rule presence_quiet [where c = c and b = b],
      auto simp: client_handle_def Let_def case_prod_unfold online_def split: option.splits)

lemma daemon_quiet:
  assumes "presence_inv i b"
  shows "b_pc b c = DRead \<Longrightarrow> presence_inv i (daemon_read c m b)"
    and "b_pc b c = DRelay cl x \<Longrightarrow> presence_inv i (daemon_relay c cl x b)"
    and "b_pc b c = DLeft \<Longrightarrow> presence_inv i (daemon_left c b)"
    and "b_pc b c = DBye cl \<Longrightarrow> presence_inv i (daemon_bye c cl b)"
  using assms
  by - (rule presence_quiet [where c = c and b = b],
      auto simp: daemon_read_def daemon_relay_def relay_to_client_def daemon_left_def daemon_bye_def online_def
        split: option.splits if_splits)+

lemma client_quiet:
  assumes "presence_inv i b"
  shows "b_pc b c = CJoin d j \<Longrightarrow> presence_inv i (join_swap env c d j b)"
    and "b_pc b c = CEvict d old j \<Longrightarrow> presence_inv i (evict c d old j b)"
    and "b_pc b c = CConnect d j \<Longrightarrow> presence_inv i (send_connect c d j b)"
    and "b_pc b c = CRead \<Longrightarrow> presence_inv i (client_read c m b)"
    and "b_pc b c = CRead \<Longrightarrow> presence_inv i (goto c CLeave b)"
    and "b_pc b c = CIce ice t x \<Longrightarrow> presence_inv i (send_ice c ice t x b)"
    and "b_pc b c = CProof x \<Longrightarrow> presence_inv i (send_proof c x b)"
    and "b_pc b c = CLeave \<Longrightarrow> presence_inv i (client_leave c b)"
    and "b_pc b c = CBye d \<Longrightarrow> presence_inv i (client_bye c d b)"
    and "b_pc b c = WRead \<Longrightarrow> presence_inv i (drop_watcher c b)"
    and "b_pc b c = Fresh \<Longrightarrow> presence_inv i (goto c Accepted b)"
    and "b_pc b c = Accepted \<Longrightarrow> presence_inv i (goto c Finished b)"
  using assms
  by - (rule presence_quiet [where c = c and b = b],
      auto simp: join_swap_def evict_def send_connect_def client_read_def send_ice_def send_proof_def
        client_leave_def client_bye_def drop_watcher_def Let_def online_def
        split: option.splits dest: in_delete)+

lemma presence_first:
  assumes p: "presence_inv i b" and pc: "b_pc b c = Accepted" and c: "calm i (on_first c m b)"
  shows "presence_inv i (on_first c m b)"
proof (cases "m_type m = TypeRegister \<and> m_daemon m = i \<and> i \<noteq> []")
  case True
  then show ?thesis
    using c by - (rule presence_begins [where c = c and on = True],
        auto simp: on_first_def register_daemon_def online_def update_conv')
next
  case False
  have quiet: "presence_inv i (goto c Finished (put c x b))" if "m_type x = TypeError" for x
    using p pc that by - (rule presence_quiet [where c = c and b = b], auto simp: online_def)
  have reg: "presence_inv i (register_daemon c m b)" if "m_type m = TypeRegister"
    using p pc that False
    by - (rule presence_quiet [where c = c and b = b], auto simp: register_daemon_def online_def update_conv')
  have join: "presence_inv i (start_join c m b)"
    using p pc
    by - (rule presence_quiet [where c = c and b = b],
        auto simp: start_join_def Let_def tick_tick online_def split: option.splits)
  show ?thesis
    using quiet reg join presence_watch [OF p pc] by (simp add: on_first_def)
qed

lemma presence_drop:
  assumes p: "presence_inv i b" and pc: "b_pc b c = DRead" and inv: "broker_inv b" and c: "calm i (daemon_drop c b)"
  shows "presence_inv i (daemon_drop c b)"
proof -
  obtain dc where dc: "b_dconn b c = Some dc" using position_of [OF inv pc] by (auto simp: is_daemon_def)
  show ?thesis
  proof (cases "dc_id dc = i \<and> map_of (b_daemons b) i = Some c")
    case True
    with dc c show ?thesis
      by - (rule presence_begins [where c = c and on = False],
          auto simp: daemon_drop_def online_def delete_conv')
  next
    case False
    with dc p pc show ?thesis
      by - (rule presence_quiet [where c = c and b = b], auto simp: daemon_drop_def online_def delete_conv')
  qed
qed

lemma presence_other:
  assumes p: "presence_inv i b" and "i \<noteq> j"
  shows "b_pc b c = DNotify j on \<Longrightarrow> presence_inv i (notify_collect c j on ts b)"
    and "b_pc b c = DSend j on (w # ws) \<Longrightarrow> presence_inv i (notify_send c j on w ws b)"
    and "b_pc b c = DSend j on [] \<Longrightarrow> presence_inv i (notify_done c on b)"
  using assms
  by - (rule presence_quiet [where c = c and b = b],
      auto simp: notify_collect_def notify_send_def notify_done_def online_def)+

lemma presence_step:
  assumes "broker_step C cfg l b b'" and p: "presence_inv i b" and inv: "broker_inv b"
    and c: "calm i b" "calm i b'"
  shows "presence_inv i b'"
  using assms(1)
proof (cases rule: broker_step.cases)
  case (collect c j on ts)
  with presence_collect [OF p \<open>calm i b'\<close>] presence_other(1) [OF p] show ?thesis by (cases "i = j") auto
next
  case (notify c j on w ws)
  with presence_send [OF p \<open>calm i b'\<close>] presence_other(2) [OF p] show ?thesis by (cases "i = j") auto
next
  case (notified c j on)
  with presence_done [OF p \<open>calm i b\<close>] presence_other(3) [OF p] show ?thesis by (cases "i = j") auto
next
  case (first c m)
  with presence_first [OF p] c show ?thesis by simp
next
  case (ddrop c)
  with presence_drop [OF p _ inv] c show ?thesis by simp
qed (use p in \<open>simp_all add: client_quiet daemon_quiet handle_quiet\<close>)

lemma calm_history_presence: "calm_history C cfg turn i tr b \<Longrightarrow> presence_inv i b"
proof (induction rule: calm_history.induct)
  case (calm_step tr b l b')
  then show ?case
    using presence_step broker_trace_inv [OF calm_history_trace] calm_history_calm by blast
qed (rule presence_inv_new)

text \<open>
  C13: presence tells the truth.  In every history in which the notifications about \<open>i\<close> do not
  overlap, once none is under way the last state of \<open>i\<close> written to any registered watcher
  that tracks it, by its snapshot or by a delta, is whether \<open>i\<close> is in the registry.
\<close>

theorem presence_converges:
  assumes "calm_history C cfg turn i tr b" and "\<forall>c. \<not> notifying i (b_pc b c)"
    and "(w, ids) \<in> set (b_watchers b)" and "i \<in> set ids"
  shows "last_presence i w (b_out b) = Some (map_of (b_daemons b) i \<noteq> None)"
  using calm_history_presence [OF assms(1)] assms(2-4)
  by (fastforce simp: presence_inv_def watcher_ok_def told_def online_def)

text \<open>Watcher 3 watches \<open>D\<close>, then daemon 1 registers as \<open>D\<close>.\<close>

fun all_calm :: "crypto \<Rightarrow> config \<Rightarrow> string \<Rightarrow> label list \<Rightarrow> broker \<Rightarrow> bool" where
  "all_calm C cfg i [] b = True"
| "all_calm C cfg i (l # ls) b =
     (case next_step C cfg l b of None \<Rightarrow> False | Some b' \<Rightarrow> calm i b' \<and> all_calm C cfg i ls b')"

lemma calm_play:
  "calm_history C cfg turn i tr b \<Longrightarrow> all_calm C cfg i ls b \<Longrightarrow>
     calm_history C cfg turn i (tr @ ls) (the (play C cfg ls b))"
proof (induction ls arbitrary: tr b)
  case (Cons l ls)
  then obtain x where x: "next_step C cfg l b = Some x" "calm i x" "all_calm C cfg i ls x"
    by (auto split: option.splits)
  from Cons.IH [OF calm_step [OF Cons.prems(1) next_step_sound [OF x(1)] x(2)] x(3)] x(1)
  show ?case by simp
qed simp

definition bk_watch :: signal_msg where "bk_watch = (msg_of_type TypeWatch)\<lparr>m_daemons := [''D'']\<rparr>"

definition bk_seen :: "label list" where
  "bk_seen = [LStep 3, LFirst 3 bk_watch, LStep 1, LFirst 1 bk_register, LStep 1, LStep 1, LStep 1]"

definition bk_seen_end :: broker where
  "bk_seen_end = the (play plain_crypto bk_cfg bk_seen (new_broker None))"

lemma bk_seen_calm: "calm_history plain_crypto bk_cfg None ''D'' bk_seen bk_seen_end"
proof -
  have "all_calm plain_crypto bk_cfg ''D'' bk_seen (new_broker None)"
    by (simp add: bk_seen_def bk_simps bk_watch_def calm_def)
  from calm_play [OF calm_start this] show ?thesis by (simp add: bk_seen_end_def)
qed

lemma bk_seen_end:
  "(3, [''D'']) \<in> set (b_watchers bk_seen_end)" "\<forall>c. \<not> notifying ''D'' (b_pc bk_seen_end c)"
  "map_of (b_daemons bk_seen_end) ''D'' = Some 1"
  by (simp_all add: bk_seen_end_def bk_seen_def bk_simps bk_watch_def)

theorem presence_converges_witness: "last_presence ''D'' 3 (b_out bk_seen_end) = Some True"
  using presence_converges [OF bk_seen_calm bk_seen_end(2,1)] bk_seen_end(3) by simp

section \<open>When notifications overlap\<close>

text \<open>
  Daemon 1 drops off and leaves the registry; before its goroutine has pushed the offline
  delta, the same Mac registers again as connection 2 and its online delta overtakes it.
\<close>

definition bk_race :: "label list" where
  "bk_race = bk_seen @ [LStep 1, LStep 2, LFirst 2 bk_register, LStep 2, LStep 2, LStep 2, LStep 1, LStep 1, LStep 1]"

definition bk_race_end :: broker where
  "bk_race_end = the (play plain_crypto bk_cfg bk_race (new_broker None))"

text \<open>
  Overlapping notifications leave a watcher with a stale state.  A history exists after
  which no notification is under way, the daemon is in the registry, and the watcher that
  tracks it was told last that it is offline.
\<close>

theorem presence_race:
  "broker_trace plain_crypto bk_cfg None bk_race bk_race_end \<and>
   (\<forall>c. \<not> notifying ''D'' (b_pc bk_race_end c)) \<and> (3, [''D'']) \<in> set (b_watchers bk_race_end) \<and>
   map_of (b_daemons bk_race_end) ''D'' = Some 2 \<and> last_presence ''D'' 3 (b_out bk_race_end) = Some False"
proof -
  have p: "play plain_crypto bk_cfg bk_race (new_broker None) = Some bk_race_end"
    by (simp add: bk_race_end_def bk_race_def bk_seen_def bk_simps bk_watch_def)
  have "(\<forall>c. \<not> notifying ''D'' (b_pc bk_race_end c)) \<and> (3, [''D'']) \<in> set (b_watchers bk_race_end) \<and>
     map_of (b_daemons bk_race_end) ''D'' = Some 2"
    by (simp add: bk_race_end_def bk_race_def bk_seen_def bk_simps bk_watch_def)
  moreover have "last_presence ''D'' 3 (b_out bk_race_end) = Some False"
    by (simp add: bk_race_end_def bk_race_def bk_seen_def bk_simps bk_watch_def last_presence_def)
  ultimately show ?thesis using play_new [OF p] by simp
qed

end
