(* ===== verification/Broker_Sessions.thy ===== *)
theory Broker_Sessions
  imports Broker_Props
begin

text \<open>
  One daemon, one client: who is refused as busy, what a takeover does, what becomes of the
  displaced client, the trickle verdict, and what the counters of \<open>stats.go\<close> add up to.
\<close>

section \<open>Joining\<close>


text \<open>A second viewer arrives while client 2 is connected.\<close>

definition bk_other_join :: "bool \<Rightarrow> signal_msg" where
  "bk_other_join tk = (bk_join ''other'')\<lparr>m_takeover := tk\<rparr>"

definition bk_second :: "bool \<Rightarrow> label list" where
  "bk_second tk = bk_up @ bk_joined 2 bk_key @ [LStep 3, LFirst 3 (bk_other_join tk)]"

definition bk_second_end :: "bool \<Rightarrow> broker" where
  "bk_second_end tk = the (play plain_crypto bk_cfg (bk_second tk) (new_broker bk_turn))"

lemma bk_key_other: "bk_key \<noteq> ''other''" "''other'' \<noteq> bk_key"
proof -
  have "b64_decode ''other'' = None" by code_simp
  moreover have "b64_decode bk_key = Some bk_raw" by (simp add: bk_key_def b64_decode_encode)
  ultimately show "bk_key \<noteq> ''other''" by auto
  then show "''other'' \<noteq> bk_key" by simp
qed

lemmas bk_second_simps = bk_second_end_def bk_second_def bk_other_join_def bk_simps bk_key_other

lemma bk_second_trace: "broker_trace plain_crypto bk_cfg bk_turn (bk_second tk) (bk_second_end tk)"
proof -
  have "play plain_crypto bk_cfg (bk_second tk) (new_broker bk_turn) = Some (bk_second_end tk)"
    by (simp add: bk_second_simps)
  then show ?thesis by (rule play_new)
qed

lemma bk_second_pos:
  "b_pc (bk_second_end tk) 3 = CJoin 1 (bk_other_join tk)" "bv_random bk_env = Some ''r''"
  "current 1 (bk_second_end tk) = Some 2" "map_option cc_pubKey (b_cconn (bk_second_end tk) 2) = Some bk_key"
  "b_pc (bk_second_end tk) 2 = CRead"
  "m_pubkey (bk_other_join tk) = ''other''" "m_takeover (bk_other_join tk) = tk"
  by (simp_all add: bk_second_simps)


section \<open>Taking over\<close>

text \<open>
  A takeover tells the sitting client why, closes it and asks the daemon to challenge the
  newcomer.  The newcomer's three steps write exactly these two messages in this order; the
  daemon's slot is the newcomer's, and the old socket is closed.
\<close>

theorem takeover_is_announced:
  assumes "broker_trace C cfg turn tr b" and "b_pc b c = CJoin d j" and "bv_random env = Some rnd"
    and "current d b = Some old" and "b_cconn b old = Some cc" and "cc_pubKey cc \<noteq> m_pubkey j" and "m_takeover j"
  shows "let b' = send_connect c d j (evict c d (Some old) j (join_swap env c d j b)) in
     b_pc (join_swap env c d j b) c = CEvict d (Some old) j \<and>
     b_out b' = b_out b @ [(old, takenOverMsg), (d, connectMsg j)] \<and>
     current d b' = Some c \<and> old \<in> set (b_closed b') \<and> old \<noteq> c \<and> b_pc b' c = CRead"
proof -
  have inv: "broker_inv b" by (rule broker_trace_inv [OF assms(1)])
  have nr: "no_role b c" "b_dconn b d \<noteq> None" using position_of [OF inv assms(2)] by simp_all
  then have "old \<noteq> c" using assms(5) by (auto simp: no_role_def)
  with assms nr show ?thesis
    by (simp add: join_swap_def evict_def send_connect_def Let_def current_set_client)
qed

theorem takeover_is_announced_witness:
  "let b = bk_second_end True; j = bk_other_join True;
       b' = send_connect 3 1 j (evict 3 1 (Some 2) j (join_swap bk_env 3 1 j b)) in
   b_out b' = b_out b @ [(2, takenOverMsg), (1, connectMsg j)] \<and> current 1 b' = Some 3"
proof -
  obtain cc where cc: "b_cconn (bk_second_end True) 2 = Some cc" "cc_pubKey cc = bk_key"
    using bk_second_pos(4) [of True] by auto
  have "cc_pubKey cc \<noteq> m_pubkey (bk_other_join True)" "m_takeover (bk_other_join True)"
    using cc(2) by (simp_all add: bk_second_pos(6,7) bk_key_other)
  from takeover_is_announced [OF bk_second_trace bk_second_pos(1,2,3) cc(1) this] show ?thesis
    by (simp add: Let_def)
qed

section \<open>The displaced client\<close>

fun label_conn :: "label \<Rightarrow> nat" where
  "label_conn (LFirst c m) = c"
| "label_conn (LSwap c env) = c"
| "label_conn (LRead c m) = c"
| "label_conn (LHandle c m env) = c"
| "label_conn (LStep c) = c"

inductive broker_run :: "crypto \<Rightarrow> config \<Rightarrow> broker \<Rightarrow> broker \<Rightarrow> bool"
  for C :: crypto and cfg :: config where
  here: "broker_run C cfg b b"
| further: "broker_run C cfg b x \<Longrightarrow> broker_step C cfg l x y \<Longrightarrow> broker_run C cfg b y"

definition displaced :: "broker \<Rightarrow> nat \<Rightarrow> nat \<Rightarrow> bool" where
  \<comment> \<open>client \<open>c\<close> of daemon \<open>d\<close> has lost the slot and is between two messages, or leaving\<close>
  "displaced b c d \<longleftrightarrow> bound b c d \<and> current d b \<noteq> Some c \<and> b_pc b c \<in> {CRead, CLeave, Finished}"

text \<open>A step of another connection: it never gives \<open>c\<close> a slot and keeps the records of \<open>c\<close>.\<close>

lemmas broker_step_simps =
  register_daemon_def start_join_def add_watcher_def on_first_def notify_collect_def notify_send_def
  notify_done_def daemon_read_def daemon_drop_def daemon_relay_def daemon_left_def daemon_bye_def evict_def
  send_connect_def client_read_def send_ice_def send_proof_def client_leave_def client_bye_def drop_watcher_def
  Let_def

lemma iceServers_tables [simp]:
  "b_dconn (snd (iceServers cfg env pub b)) = b_dconn b" "b_cconn (snd (iceServers cfg env pub b)) = b_cconn b"
  "b_daemons (snd (iceServers cfg env pub b)) = b_daemons b" "b_pc (snd (iceServers cfg env pub b)) = b_pc b"
  "current d (snd (iceServers cfg env pub b)) = current d b"
  using iceServers_fields [of cfg env pub b "fst (iceServers cfg env pub b)" "snd (iceServers cfg env pub b)"]
  by (simp_all add: current_def)

lemma current_register:
  "current e (b\<lparr>b_daemons := ds, b_dconn := (b_dconn b)(c \<mapsto> \<lparr>dc_id = i, dc_trickle = t, dc_client = None\<rparr>)\<rparr>) =
     (if e = c then None else current e b)"
  by (simp add: current_def)

lemma step_other:
  assumes "broker_step C cfg l b b'" and "label_conn l \<noteq> c"
  shows "b_pc b' c = b_pc b c \<and> b_cconn b' c = b_cconn b c \<and> (b_dconn b' c = None \<longleftrightarrow> b_dconn b c = None) \<and>
     (current d b' = Some c \<longrightarrow> current d b = Some c)"
  using assms
  by (cases rule: broker_step.cases)
    (auto simp: broker_step_simps join_swap_def client_handle_def case_prod_unfold current_set_client current_register
      split: option.splits if_splits)

lemma step_keeps_daemon:
  assumes "broker_step C cfg l b b'" and "b_dconn b d \<noteq> None"
  shows "b_dconn b' d \<noteq> None"
  using assms
  by (cases rule: broker_step.cases)
    (auto simp: broker_step_simps join_swap_def client_handle_def case_prod_unfold simp del: not_None_eq
      split: option.splits)

lemma displaced_own_step:
  assumes "broker_step C cfg l b b'" and "displaced b c d" and "label_conn l = c"
  shows "displaced b' c d \<and> b_out b' = b_out b \<and> b_daemons b' = b_daemons b \<and> (\<forall>e. current e b' = current e b)"
proof -
  obtain cc where cc: "b_cconn b c = Some cc" "cc_daemon cc = d" "b_dconn b c = None"
    using assms(2) by (auto simp: displaced_def bound_def)
  show ?thesis
    using assms cc
    by (cases rule: broker_step.cases)
      (auto simp: displaced_def bound_def client_read_def client_leave_def)
qed

lemma displaced_step:
  assumes "broker_step C cfg l b b'" and "displaced b c d"
  shows "displaced b' c d"
proof (cases "label_conn l = c")
  case False
  have "b_dconn b d \<noteq> None" using assms(2) by (auto simp: displaced_def bound_def)
  with step_other [OF assms(1) False, of d] step_keeps_daemon [OF assms(1)] assms(2) show ?thesis
    by (auto simp: displaced_def bound_def)
qed (use displaced_own_step [OF assms] in blast)

lemma displaced_run: "broker_run C cfg b x \<Longrightarrow> displaced b c d \<Longrightarrow> displaced x c d"
  by (induction rule: broker_run.induct) (auto intro: displaced_step)


definition bk_taken :: broker where
  "bk_taken = join_swap bk_env 3 1 (bk_other_join True) (bk_second_end True)"

lemma bk_taken: "displaced bk_taken 2 1" "b_pc bk_taken 2 = CRead"
  by (simp_all add: displaced_def bound_def bk_taken_def bk_second_simps)


text \<open>
  A message in flight crosses a takeover.  The check that a client still holds the slot
  and the relaying of its message are separate steps: if another device takes over in
  between, the displaced client's offer or candidate is written to the daemon after the
  newcomer's connect, into the newcomer's handshake.
\<close>

theorem in_flight_crosses_takeover:
  assumes "b_pc b c = CHandle m" and "m_type m = TypeOffer \<or> m_type m = TypeCandidate"
    and "bound b c d" and "current d b = Some c"
    and "b_pc b x = CJoin d j" and "m_takeover j" and "map_option cc_pubKey (b_cconn b c) \<noteq> Some (m_pubkey j)"
  shows "\<exists>b'. broker_run C cfg b b' \<and> current d b' = Some x \<and>
     b_out b' = b_out b @ [(c, takenOverMsg), (d, connectMsg j), (d, m)]"
proof -
  obtain cc where cc: "b_cconn b c = Some cc" "cc_daemon cc = d" "cc_pubKey cc \<noteq> m_pubkey j" "b_dconn b d \<noteq> None"
    using assms(3,7) by (auto simp: bound_def)
  have ne: "x \<noteq> c" using assms(1,5) by auto
  define env where "env = bk_env"
  let ?b1 = "join_swap env x d j b"
  let ?b2 = "evict x d (Some c) j ?b1"
  let ?b3 = "send_connect x d j ?b2"
  let ?b4 = "client_handle C cfg env c m ?b3"
  have taken: "?b1 = goto x (CEvict d (Some c) j) (set_client d (Some x) (b\<lparr>b_cconn := (b_cconn b)
      (x \<mapsto> \<lparr>cc_pubKey = m_pubkey j, cc_bNonce = nonce_of ''r'', cc_trickle = m_trickle j, cc_daemon = d\<rparr>)\<rparr>))"
    using assms(4,6) by (simp add: join_swap_def env_def bk_env_def)
  have p1: "b_pc ?b1 x = CEvict d (Some c) j" "b_pc ?b1 c = CHandle m" "b_cconn ?b1 c = Some cc"
    "b_out ?b1 = b_out b" "current d ?b1 = Some x"
    using ne assms(1) cc by (simp_all add: taken current_set_client)
  have p2: "b_pc ?b2 x = CConnect d j" "b_pc ?b2 c = CHandle m" "b_cconn ?b2 c = Some cc"
    "b_out ?b2 = b_out b @ [(c, takenOverMsg)]" "current d ?b2 = Some x"
    using ne p1 cc by (simp_all add: evict_def)
  have p3: "b_pc ?b3 c = CHandle m" "b_cconn ?b3 c = Some cc"
    "b_out ?b3 = b_out b @ [(c, takenOverMsg), (d, connectMsg j)]" "current d ?b3 = Some x"
    using ne p2 by (simp_all add: send_connect_def)
  have p4: "b_out ?b4 = b_out b @ [(c, takenOverMsg), (d, connectMsg j), (d, m)]" "current d ?b4 = Some x"
    using p3 cc assms(2) by (auto simp: client_handle_def)
  have "broker_run C cfg b ?b4"
    using further [OF further [OF further [OF further [OF here swap [OF assms(5)]] evicts [OF p1(1)]]
          connect [OF p2(1)]] chandle [OF p3(1)]] .
  with p4 show ?thesis by blast
qed

definition bk_crossing :: "label list" where
  "bk_crossing = bk_second True @ [LRead 2 bk_offer]"

definition bk_crossing_end :: broker where
  "bk_crossing_end = the (play plain_crypto bk_cfg bk_crossing (new_broker bk_turn))"

lemma bk_crossing_end:
  "b_pc bk_crossing_end 2 = CHandle bk_offer" "m_type bk_offer = TypeOffer \<or> m_type bk_offer = TypeCandidate"
  "bound bk_crossing_end 2 1" "current 1 bk_crossing_end = Some 2"
  "b_pc bk_crossing_end 3 = CJoin 1 (bk_other_join True)" "m_takeover (bk_other_join True)"
  "map_option cc_pubKey (b_cconn bk_crossing_end 2) \<noteq> Some (m_pubkey (bk_other_join True))"
  by (simp_all add: bk_crossing_end_def bk_crossing_def bk_second_simps bound_def)

theorem in_flight_crosses_takeover_witness:
  "\<exists>b'. broker_run plain_crypto bk_cfg bk_crossing_end b' \<and> current 1 b' = Some 3 \<and>
     b_out b' = b_out bk_crossing_end @
       [(2, takenOverMsg), (1, connectMsg (bk_other_join True)), (1, bk_offer)]"
  by (rule in_flight_crosses_takeover [OF bk_crossing_end])

section \<open>The proof\<close>

text \<open>
  A proof is answered once and in order.  If the signature over the broker's nonce does
  not verify, the client gets one error and nothing reaches the daemon; otherwise client and
  daemon get the same ICE servers with the same trickle verdict, which is that both declared
  it, and only then the daemon gets the bare peer signature.
\<close>

theorem proof_is_answered:
  assumes "b_pc b c = CHandle m" and "m_type m = TypeProof"
    and "b_cconn b c = Some cc" and "b_dconn b (cc_daemon cc) = Some dc"
  shows "let b' = client_handle C cfg env c m b in
     if Verify C (cc_pubKey cc) (cc_bNonce cc) (m_brokerSig m)
     then (\<exists>ice t. b_pc b' c = CIce ice t m \<and> (t \<longleftrightarrow> dc_trickle dc \<and> cc_trickle cc) \<and>
       b_out (send_proof c m (send_ice c ice t m b')) =
         b_out b @ [(c, iceMsg ice t), (cc_daemon cc, iceMsg ice t), (cc_daemon cc, proofMsg (m_sig m))])
     else b_pc b' c = CLeave \<and> b_out b' = b_out b @ [(c, errMsg ''broker challenge failed'')] \<and>
       (\<forall>x. x \<noteq> c \<longrightarrow> b_pc b' x = b_pc b x)"
proof (cases "Verify C (cc_pubKey cc) (cc_bNonce cc) (m_brokerSig m)")
  case False
  with assms show ?thesis by (simp add: client_handle_def Let_def)
next
  case True
  obtain ice b1 where ice: "iceServers cfg env (cc_pubKey cc)
      (tick (\<lambda>n. n\<lparr>n_proofsOK := Suc (n_proofsOK n)\<rparr>) b) = (ice, b1)" by fastforce
  from iceServers_fields [OF ice] True assms ice show ?thesis
    by (simp add: client_handle_def send_ice_def send_proof_def Let_def)
qed

definition bk_asked_end :: broker where
  "bk_asked_end = the (play plain_crypto bk_cfg
     (bk_up @ bk_joined 2 bk_key @ [LRead 1 bk_challenge, LStep 1, LRead 2 bk_proof]) (new_broker bk_turn))"

lemma bk_asked_end:
  "b_pc bk_asked_end 2 = CHandle bk_proof" "m_type bk_proof = TypeProof"
  "b_cconn bk_asked_end 2 = Some \<lparr>cc_pubKey = bk_key, cc_bNonce = nonce_of ''r'', cc_trickle = False, cc_daemon = 1\<rparr>"
  "b_dconn bk_asked_end 1 = Some \<lparr>dc_id = ''D'', dc_trickle = False, dc_client = Some 2\<rparr>"
  by (simp_all add: bk_asked_end_def bk_simps)

theorem proof_is_answered_witness:
  "\<exists>ice. b_pc (client_handle plain_crypto bk_cfg bk_env 2 bk_proof bk_asked_end) 2 = CIce ice False bk_proof"
proof -
  have "b_dconn bk_asked_end (cc_daemon \<lparr>cc_pubKey = bk_key, cc_bNonce = nonce_of ''r'', cc_trickle = False,
      cc_daemon = 1\<rparr>) = Some \<lparr>dc_id = ''D'', dc_trickle = False, dc_client = Some 2\<rparr>"
    using bk_asked_end(4) by simp
  from proof_is_answered [OF bk_asked_end(1,2,3) this, of plain_crypto bk_cfg bk_env] show ?thesis
    by (auto simp: Let_def bk_proof_def msg_of_type_def bk_verify)
qed

section \<open>The counters\<close>

definition joined :: "broker \<Rightarrow> nat set" where "joined b = {c. b_cconn b c \<noteq> None}"

fun deciding :: "pc \<Rightarrow> bool" where
  "deciding (CJoin d j) = True"
| "deciding _ = False"

fun evicting :: "pc \<Rightarrow> bool" where
  "evicting (CEvict d old j) = True"
| "evicting _ = False"

definition waiting :: "broker \<Rightarrow> nat set" where "waiting b = {c. deciding (b_pc b c)}"
definition evictors :: "broker \<Rightarrow> nat set" where "evictors b = {c. evicting (b_pc b c)}"

definition counts_ok :: "broker \<Rightarrow> bool" where
  "counts_ok b \<longleftrightarrow> finite (joined b) \<and> finite (waiting b) \<and> finite (evictors b) \<and>
     n_offline (b_n b) + n_busy (b_n b) + card (waiting b) + card (joined b) \<le> n_joins (b_n b) \<and>
     n_takeovers (b_n b) + card (evictors b) \<le> card (joined b) \<and>
     n_pairings (b_n b) \<le> n_joins (b_n b) \<and> n_turnGranted (b_n b) \<le> n_proofsOK (b_n b)"

lemma counts_new: "counts_ok (new_broker turn)"
  by (simp add: counts_ok_def new_broker_def no_counts_def joined_def waiting_def evictors_def)

lemma counts_quiet:
  assumes "counts_ok b" and "b_cconn b' = b_cconn b" and "\<forall>x. x \<noteq> c \<longrightarrow> b_pc b' x = b_pc b x"
    and "deciding (b_pc b' c) = deciding (b_pc b c)" and "evicting (b_pc b' c) = evicting (b_pc b c)"
    and "n_joins (b_n b') = n_joins (b_n b)" "n_offline (b_n b') = n_offline (b_n b)"
      "n_busy (b_n b') = n_busy (b_n b)" "n_takeovers (b_n b') = n_takeovers (b_n b)"
      "n_pairings (b_n b') = n_pairings (b_n b)" "n_turnGranted (b_n b') \<le> n_proofsOK (b_n b')"
  shows "counts_ok b'"
proof -
  have "deciding (b_pc b' x) = deciding (b_pc b x)" "evicting (b_pc b' x) = evicting (b_pc b x)" for x
    using assms(3-5) by (cases "x = c"; simp)+
  then have "joined b' = joined b" "waiting b' = waiting b" "evictors b' = evictors b"
    using assms(2) by (simp_all add: joined_def waiting_def evictors_def)
  with assms show ?thesis by (simp add: counts_ok_def)
qed

lemma count_sets [simp]:
  "joined (goto c p b) = joined b" "joined (put x m b) = joined b" "joined (tick f b) = joined b"
  "joined (set_client d y b) = joined b" "joined (b\<lparr>b_closed := cl\<rparr>) = joined b"
  "joined (b\<lparr>b_cconn := (b_cconn b)(c \<mapsto> cc)\<rparr>) = insert c (joined b)"
  "waiting (put x m b) = waiting b" "waiting (tick f b) = waiting b" "waiting (set_client d y b) = waiting b"
  "waiting (b\<lparr>b_closed := cl\<rparr>) = waiting b" "waiting (b\<lparr>b_cconn := ccs\<rparr>) = waiting b"
  "evictors (put x m b) = evictors b" "evictors (tick f b) = evictors b" "evictors (set_client d y b) = evictors b"
  "evictors (b\<lparr>b_closed := cl\<rparr>) = evictors b" "evictors (b\<lparr>b_cconn := ccs\<rparr>) = evictors b"
  "waiting (goto c p b) = (if deciding p then insert c (waiting b) else waiting b - {c})"
  "evictors (goto c p b) = (if evicting p then insert c (evictors b) else evictors b - {c})"
  by (auto simp: joined_def waiting_def evictors_def split: if_splits)

lemma count_members [simp]:
  "c \<in> waiting b \<longleftrightarrow> deciding (b_pc b c)" "c \<in> evictors b \<longleftrightarrow> evicting (b_pc b c)" "c \<in> joined b \<longleftrightarrow> b_cconn b c \<noteq> None"
  by (simp_all add: joined_def waiting_def evictors_def)

lemma counts_join:
  assumes "counts_ok b" and "b_pc b c = Accepted"
  shows "counts_ok (start_join c j b)"
  using assms by (auto simp: counts_ok_def start_join_def Let_def tick_tick split: option.split)

lemma counts_swap:
  assumes "counts_ok b" and "b_pc b c = CJoin d j" and inv: "broker_inv b"
  shows "counts_ok (join_swap env c d j b)"
proof -
  have c: "c \<in> waiting b" "b_cconn b c = None" "c \<notin> evictors b"
    using position_of [OF inv assms(2)] assms(2) by (simp_all add: no_role_def)
  then have "waiting b \<noteq> {}" by blast
  moreover from assms(1) have "finite (waiting b)" by (simp add: counts_ok_def)
  ultimately have "card (waiting b) > 0" by (simp add: card_gt_0_iff)
  with assms(1,2) c show ?thesis
    by (auto simp: counts_ok_def join_swap_def Let_def card_Diff_singleton split: option.split)
qed

lemma counts_evict:
  assumes "counts_ok b" and "b_pc b c = CEvict d old j"
  shows "counts_ok (evict c d old j b)"
proof -
  have c: "c \<in> evictors b" using assms(2) by simp
  then have "evictors b \<noteq> {}" by blast
  moreover from assms(1) have "finite (evictors b)" by (simp add: counts_ok_def)
  ultimately have "card (evictors b) > 0" by (simp add: card_gt_0_iff)
  with assms c show ?thesis
    by (auto simp: counts_ok_def evict_def Let_def card_Diff_singleton split: option.split)
qed

lemma iceServers_counts:
  "n_turnGranted (b_n b) < n_proofsOK (b_n b) \<Longrightarrow>
     n_turnGranted (b_n (snd (iceServers cfg env pub b))) \<le> n_proofsOK (b_n (snd (iceServers cfg env pub b)))"
  "n_joins (b_n (snd (iceServers cfg env pub b))) = n_joins (b_n b)"
  "n_offline (b_n (snd (iceServers cfg env pub b))) = n_offline (b_n b)"
  "n_busy (b_n (snd (iceServers cfg env pub b))) = n_busy (b_n b)"
  "n_takeovers (b_n (snd (iceServers cfg env pub b))) = n_takeovers (b_n b)"
  "n_pairings (b_n (snd (iceServers cfg env pub b))) = n_pairings (b_n b)"
  by (auto simp: iceServers_def Let_def split: prod.split sum.split)

lemma counts_handle:
  assumes "counts_ok b" and "b_pc b c = CHandle m"
  shows "counts_ok (client_handle C cfg env c m b)"
  using assms
  by - (rule counts_quiet [where b = b and c = c],
      auto simp: client_handle_def Let_def case_prod_unfold counts_ok_def iceServers_counts split: option.split)

lemma counts_moves:
  assumes c: "counts_ok b"
  shows "b_pc b c = Fresh \<Longrightarrow> counts_ok (goto c Accepted b)"
    and "b_pc b c = Accepted \<Longrightarrow> counts_ok (goto c Finished b)"
    and "b_pc b c = Accepted \<Longrightarrow> counts_ok (goto c Finished (put c x b))"
    and "b_pc b c = Accepted \<Longrightarrow> counts_ok (register_daemon c x b)"
    and "b_pc b c = Accepted \<Longrightarrow> counts_ok (add_watcher c x b)"
    and "b_pc b c = DNotify i on \<Longrightarrow> counts_ok (notify_collect c i on ts b)"
    and "b_pc b c = DSend i on (w # ws) \<Longrightarrow> counts_ok (notify_send c i on w ws b)"
    and "b_pc b c = DSend i on [] \<Longrightarrow> counts_ok (notify_done c on b)"
    and "b_pc b c = DRead \<Longrightarrow> counts_ok (daemon_read c x b)"
    and "b_pc b c = DRelay cl x \<Longrightarrow> counts_ok (daemon_relay c cl x b)"
    and "b_pc b c = DRead \<Longrightarrow> counts_ok (daemon_drop c b)"
    and "b_pc b c = DLeft \<Longrightarrow> counts_ok (daemon_left c b)"
    and "b_pc b c = DBye cl \<Longrightarrow> counts_ok (daemon_bye c cl b)"
    and "b_pc b c = CConnect d j \<Longrightarrow> counts_ok (send_connect c d j b)"
    and "b_pc b c = CRead \<Longrightarrow> counts_ok (client_read c x b)"
    and "b_pc b c = CRead \<Longrightarrow> counts_ok (goto c CLeave b)"
    and "b_pc b c = CIce ice t x \<Longrightarrow> counts_ok (send_ice c ice t x b)"
    and "b_pc b c = CProof x \<Longrightarrow> counts_ok (send_proof c x b)"
    and "b_pc b c = CLeave \<Longrightarrow> counts_ok (client_leave c b)"
    and "b_pc b c = CBye d \<Longrightarrow> counts_ok (client_bye c d b)"
    and "b_pc b c = WRead \<Longrightarrow> counts_ok (drop_watcher c b)"
proof -
  have g: "n_turnGranted (b_n b) \<le> n_proofsOK (b_n b)" using c by (simp add: counts_ok_def)
  show "b_pc b c = Fresh \<Longrightarrow> counts_ok (goto c Accepted b)"
    "b_pc b c = Accepted \<Longrightarrow> counts_ok (goto c Finished b)"
    "b_pc b c = Accepted \<Longrightarrow> counts_ok (goto c Finished (put c x b))"
    "b_pc b c = Accepted \<Longrightarrow> counts_ok (register_daemon c x b)"
    "b_pc b c = Accepted \<Longrightarrow> counts_ok (add_watcher c x b)"
    "b_pc b c = DNotify i on \<Longrightarrow> counts_ok (notify_collect c i on ts b)"
    "b_pc b c = DSend i on (w # ws) \<Longrightarrow> counts_ok (notify_send c i on w ws b)"
    "b_pc b c = DSend i on [] \<Longrightarrow> counts_ok (notify_done c on b)"
    "b_pc b c = DRead \<Longrightarrow> counts_ok (daemon_read c x b)"
    "b_pc b c = DRelay cl x \<Longrightarrow> counts_ok (daemon_relay c cl x b)"
    "b_pc b c = DRead \<Longrightarrow> counts_ok (daemon_drop c b)"
    "b_pc b c = DLeft \<Longrightarrow> counts_ok (daemon_left c b)"
    "b_pc b c = DBye cl \<Longrightarrow> counts_ok (daemon_bye c cl b)"
    "b_pc b c = CConnect d j \<Longrightarrow> counts_ok (send_connect c d j b)"
    "b_pc b c = CRead \<Longrightarrow> counts_ok (client_read c x b)"
    "b_pc b c = CRead \<Longrightarrow> counts_ok (goto c CLeave b)"
    "b_pc b c = CIce ice t x \<Longrightarrow> counts_ok (send_ice c ice t x b)"
    "b_pc b c = CProof x \<Longrightarrow> counts_ok (send_proof c x b)"
    "b_pc b c = CLeave \<Longrightarrow> counts_ok (client_leave c b)"
    "b_pc b c = CBye d \<Longrightarrow> counts_ok (client_bye c d b)"
    "b_pc b c = WRead \<Longrightarrow> counts_ok (drop_watcher c b)"
    using c g by - (rule counts_quiet [where b = b and c = c], auto simp: broker_step_simps split: option.split)+
qed

lemma counts_first: "counts_ok b \<Longrightarrow> b_pc b c = Accepted \<Longrightarrow> counts_ok (on_first c m b)"
  by (simp add: on_first_def counts_join counts_moves)

lemma counts_step:
  assumes "broker_step C cfg l b b'" and c: "counts_ok b" and inv: "broker_inv b"
  shows "counts_ok b'"
  using assms
  by (cases rule: broker_step.cases)
    (simp_all add: counts_moves counts_first counts_handle counts_swap counts_evict)

lemma broker_trace_counts: "broker_trace C cfg turn tr b \<Longrightarrow> counts_ok b"
  by (induction rule: broker_trace.induct) (auto simp: counts_new intro: counts_step broker_trace_inv)

text \<open>
  The counters add up.  In every reachable state the joins refused as offline or busy,
  the joins still being decided and the clients that ever held a slot are no more than the
  joins counted; every takeover is some client's join; pairing attempts are joins; and no
  relay was granted without a proof that verified.
\<close>

theorem counters_add_up:
  assumes "broker_trace C cfg turn tr b"
  shows "let n = st_counts (broker_Stats b) in
     n_offline n + n_busy n + card (waiting b) + card (joined b) \<le> n_joins n \<and>
     n_takeovers n \<le> card (joined b) \<and> n_pairings n \<le> n_joins n \<and> n_turnGranted n \<le> n_proofsOK n"
  using broker_trace_counts [OF assms] by (simp add: counts_ok_def broker_Stats_def Let_def)

theorem counters_add_up_witness:
  "n_joins (st_counts (broker_Stats bk_end)) = 1 \<and> n_turnGranted (b_n bk_end) \<le> n_proofsOK (b_n bk_end)"
  using counters_add_up [OF bk_trace] by (simp add: broker_Stats_def Let_def) (simp add: bk_end_def bk_simps no_counts_def)

end
